(* ===== verification/Prelude.thy ===== *)
theory Prelude
  imports Main "HOL-Library.Word"
begin

text \<open>
  Shared vocabulary of the development.

  \<^item> \<open>result\<close>: the outcome of a Rust call, \<open>Ok\<close>, \<open>Err\<close> or a panic (a failed
    \<open>assert!\<close>, \<open>expect\<close>, \<open>unreachable!\<close> or an index out of range), with the
    sequencing \<open>res_bind\<close> that the operator \<open>?\<close> performs;
  \<^item> machine integers as words and the little- and big-endian byte
    representations of natural numbers, with their round trips;
  \<^item> the collections \<open>res_simps\<close> (inversion of \<open>res_bind\<close>) and \<open>codec_simps\<close>
    (serialisation), which carry the component proofs.
\<close>

named_theorems res_simps
named_theorems codec_simps

section \<open>Results\<close>

datatype ('e, 'a) result = Ok 'a | Err 'e | Panic

fun res_bind :: "('e, 'a) result \<Rightarrow> ('a \<Rightarrow> ('e, 'b) result) \<Rightarrow> ('e, 'b) result" where
  "res_bind (Ok x) f = f x"
| "res_bind (Err e) f = Err e"
| "res_bind Panic f = Panic"

lemma res_bind_cong [fundef_cong]:
  "m = m' \<Longrightarrow> (\<And>x. m' = Ok x \<Longrightarrow> f x = f' x) \<Longrightarrow> res_bind m f = res_bind m' f'"
  by (cases m') auto

lemma res_bind_eq_Ok [res_simps]:
  "(res_bind m f = Ok y) \<longleftrightarrow> (\<exists>x. m = Ok x \<and> f x = Ok y)"
  by (cases m) auto

lemma res_bind_eq_Err [res_simps]:
  "(res_bind m f = Err e) \<longleftrightarrow> (m = Err e \<or> (\<exists>x. m = Ok x \<and> f x = Err e))"
  by (cases m) auto

lemma res_bind_eq_Panic [res_simps]:
  "(res_bind m f = Panic) \<longleftrightarrow> (m = Panic \<or> (\<exists>x. m = Ok x \<and> f x = Panic))"
  by (cases m) auto

lemma res_bind_assoc: "res_bind (res_bind m f) g = res_bind m (\<lambda>x. res_bind (f x) g)"
  by (cases m) auto

lemma res_bind_Ok_right [simp]: "res_bind m Ok = m"
  by (cases m) auto

definition ok_or :: "'a option \<Rightarrow> 'e \<Rightarrow> ('e, 'a) result" where
  "ok_or x e = (case x of None \<Rightarrow> Err e | Some y \<Rightarrow> Ok y)"

lemma ok_or_simps [simp]: "ok_or None e = Err e" "ok_or (Some y) e = Ok y"
  by (simp_all add: ok_or_def)

lemma ok_or_eq_Ok [res_simps]: "(ok_or x e = Ok y) \<longleftrightarrow> x = Some y"
  by (cases x) auto

text \<open>\<open>assert!\<close>, \<open>expect\<close>: a panic unless the condition holds.\<close>

definition rust_assert :: "bool \<Rightarrow> ('e, unit) result" where
  "rust_assert b = (if b then Ok () else Panic)"

lemma rust_assert_simps [simp]: "rust_assert True = Ok ()" "rust_assert False = Panic"
  by (simp_all add: rust_assert_def)

lemma rust_assert_eq_Ok [res_simps]: "(rust_assert b = Ok u) \<longleftrightarrow> b"
  by (simp add: rust_assert_def)

definition expect :: "'a option \<Rightarrow> ('e, 'a) result" where
  "expect x = (case x of None \<Rightarrow> Panic | Some y \<Rightarrow> Ok y)"

lemma expect_simps [simp]: "expect None = Panic" "expect (Some y) = Ok y"
  by (simp_all add: expect_def)

lemma expect_eq_Ok [res_simps]: "(expect x = Ok y) \<longleftrightarrow> x = Some y"
  by (cases x) auto

text \<open>A loop over a list that stops at the first error or panic.\<close>

fun res_fold :: "('a \<Rightarrow> 's \<Rightarrow> ('e, 's) result) \<Rightarrow> 'a list \<Rightarrow> 's \<Rightarrow> ('e, 's) result" where
  "res_fold f [] s = Ok s"
| "res_fold f (x # xs) s = res_bind (f x s) (res_fold f xs)"

lemma res_fold_append:
  "res_fold f (xs @ ys) s = res_bind (res_fold f xs s) (res_fold f ys)"
proof (induction xs arbitrary: s)
  case (Cons x xs)
  then show ?case by (cases "f x s") simp_all
qed simp

lemma res_fold_inv:
  assumes "res_fold f xs s = Ok s'" "P s"
    and "\<And>x s s'. x \<in> set xs \<Longrightarrow> P s \<Longrightarrow> f x s = Ok s' \<Longrightarrow> P s'"
  shows "P s'"
  using assms
proof (induction xs arbitrary: s)
  case (Cons x xs)
  then obtain t where t: "f x s = Ok t" "res_fold f xs t = Ok s'"
    by (auto simp: res_simps)
  from Cons.prems(2,3) t(1) have "P t" by auto
  with Cons.IH [OF t(2)] Cons.prems(3) show ?case by auto
qed simp

section \<open>Machine integers\<close>

type_synonym u8 = "8 word"
type_synonym u16 = "16 word"
type_synonym u32 = "32 word"
type_synonym u64 = "64 word"
type_synonym i32 = "32 word"
type_synonym i64 = "64 word"
type_synonym u512 = "512 word"
type_synonym bytes = "u8 list"

text \<open>\<open>usize\<close> has 64 bits on the targets of the node; buffer lengths are natural numbers.\<close>

definition u32_max :: nat where "u32_max = 2 ^ 32 - 1"
definition isize_max :: nat where "isize_max = 2 ^ 63 - 1"
definition usize_max :: nat where "usize_max = 2 ^ 64 - 1"

lemma unat_lt2p: "unat (w :: 'a::len word) < 2 ^ LENGTH('a)"
  by (rule unsigned_less)

lemma unat_of_nat_eq: "n < 2 ^ LENGTH('a::len) \<Longrightarrow> unat (word_of_nat n :: 'a word) = n"
  by (simp add: unat_of_nat)

lemma unat_lt_256 [simp]: "unat (b :: u8) < 256"
  using unat_lt2p [of b] by simp

lemma unat_of_nat_u8 [simp]: "n < 256 \<Longrightarrow> unat (word_of_nat n :: u8) = n"
  by (simp add: unat_of_nat_eq)

subsection \<open>Checked arithmetic\<close>

definition checked_add :: "'a::len word \<Rightarrow> 'a word \<Rightarrow> 'a word option" where
  "checked_add a b = (if unat a + unat b < 2 ^ LENGTH('a) then Some (a + b) else None)"

definition checked_sub :: "'a::len word \<Rightarrow> 'a word \<Rightarrow> 'a word option" where
  "checked_sub a b = (if b \<le> a then Some (a - b) else None)"

definition checked_mul :: "'a::len word \<Rightarrow> 'a word \<Rightarrow> 'a word option" where
  "checked_mul a b = (if unat a * unat b < 2 ^ LENGTH('a) then Some (a * b) else None)"

definition saturating_add :: "'a::len word \<Rightarrow> 'a word \<Rightarrow> 'a word" where
  "saturating_add a b = (case checked_add a b of Some c \<Rightarrow> c | None \<Rightarrow> - 1)"

definition saturating_sub :: "'a::len word \<Rightarrow> 'a word \<Rightarrow> 'a word" where
  "saturating_sub a b = (if b \<le> a then a - b else 0)"

lemma checked_add_Some: "checked_add a b = Some c \<Longrightarrow> unat c = unat a + unat b"
  for a b :: "'a::len word"
  by (auto simp: checked_add_def unat_word_ariths split: if_splits)

lemma checked_add_None: "checked_add a b = None \<longleftrightarrow> 2 ^ LENGTH('a) \<le> unat a + unat b"
  for a b :: "'a::len word"
  by (auto simp: checked_add_def)

lemma checked_sub_Some: "checked_sub a b = Some c \<Longrightarrow> unat b \<le> unat a \<and> unat c = unat a - unat b"
  for a b :: "'a::len word"
  by (auto simp: checked_sub_def unat_sub_if' word_le_nat_alt split: if_splits)

lemma checked_sub_None: "checked_sub a b = None \<longleftrightarrow> unat a < unat b"
  for a b :: "'a::len word"
  by (auto simp: checked_sub_def word_le_nat_alt)

lemma checked_mul_Some: "checked_mul a b = Some c \<Longrightarrow> unat c = unat a * unat b"
  for a b :: "'a::len word"
  by (auto simp: checked_mul_def unat_word_ariths split: if_splits)

lemma unat_saturating_sub: "unat (saturating_sub a b) = unat a - unat b"
  for a b :: "'a::len word"
  by (auto simp: saturating_sub_def unat_sub_if' word_le_nat_alt)

lemma unat_max_word: "unat (- 1 :: 'a::len word) = 2 ^ LENGTH('a) - 1"
  by (simp add: unsigned_minus_1_eq_mask mask_eq_exp_minus_1)

lemma unat_saturating_add:
  "unat (saturating_add a b) = min (unat a + unat b) (2 ^ LENGTH('a) - 1)"
  for a b :: "'a::len word"
proof (cases "checked_add a b")
  case None
  then show ?thesis
    using unat_max_word [where 'a = 'a]
    by (simp add: saturating_add_def) (simp add: checked_add_None)
next
  case (Some c)
  then have "unat a + unat b < 2 ^ LENGTH('a)"
    by (auto simp: checked_add_def split: if_splits)
  with Some show ?thesis
    by (simp add: saturating_add_def checked_add_Some)
qed

section \<open>Byte representations of natural numbers\<close>

fun nat_to_le :: "nat \<Rightarrow> nat \<Rightarrow> bytes" where
  "nat_to_le 0 x = []"
| "nat_to_le (Suc n) x = word_of_nat (x mod 256) # nat_to_le n (x div 256)"

fun le_to_nat :: "bytes \<Rightarrow> nat" where
  "le_to_nat [] = 0"
| "le_to_nat (b # bs) = unat b + 256 * le_to_nat bs"

lemma length_nat_to_le [simp]: "length (nat_to_le n x) = n"
  by (induction n arbitrary: x) auto

lemma le_to_nat_bound: "le_to_nat bs < 256 ^ length bs"
proof (induction bs)
  case (Cons b bs)
  have "unat b < 256" by (rule unat_lt_256)
  moreover from Cons have "256 * le_to_nat bs + 256 \<le> 256 * 256 ^ length bs"
    by simp
  ultimately have "unat b + 256 * le_to_nat bs < 256 * 256 ^ length bs" by linarith
  then show ?case by simp
qed simp

lemma le_to_nat_nat_to_le: "x < 256 ^ n \<Longrightarrow> le_to_nat (nat_to_le n x) = x"
proof (induction n arbitrary: x)
  case (Suc n)
  then have "x div 256 < 256 ^ n"
    by (simp add: less_mult_imp_div_less mult.commute)
  then show ?case by (simp add: Suc.IH)
qed simp

lemma nat_to_le_le_to_nat: "nat_to_le (length bs) (le_to_nat bs) = bs"
  by (induction bs) simp_all

lemma nat_to_le_numeral:
  "nat_to_le (numeral n) x = word_of_nat (x mod 256) # nat_to_le (pred_numeral n) (x div 256)"
  by (simp only: numeral_eq_Suc nat_to_le.simps)

definition to_le_bytes :: "nat \<Rightarrow> 'a::len word \<Rightarrow> bytes" where
  "to_le_bytes n w = nat_to_le n (unat w)"

definition from_le_bytes :: "bytes \<Rightarrow> 'a::len word" where
  "from_le_bytes bs = word_of_nat (le_to_nat bs)"

lemma length_to_le_bytes [simp]: "length (to_le_bytes n w) = n"
  by (simp add: to_le_bytes_def)

lemma from_to_le_bytes [codec_simps]:
  "LENGTH('a::len) = 8 * n \<Longrightarrow> from_le_bytes (to_le_bytes n w) = (w :: 'a word)"
  using unat_lt2p [of w]
  by (simp add: to_le_bytes_def from_le_bytes_def le_to_nat_nat_to_le power_mult)

lemma to_from_le_bytes [codec_simps]:
  assumes "LENGTH('a::len) = 8 * n" "length bs = n"
  shows "to_le_bytes n (from_le_bytes bs :: 'a word) = bs"
proof -
  have "le_to_nat bs < 2 ^ LENGTH('a)"
    using le_to_nat_bound [of bs] assms by (simp add: power_mult)
  then show ?thesis
    using assms nat_to_le_le_to_nat [of bs]
    by (simp add: to_le_bytes_def from_le_bytes_def unat_of_nat_eq)
qed

text \<open>Big-endian, for the byte arrays whose order the source uses lexicographically.\<close>

definition to_be_bytes :: "nat \<Rightarrow> 'a::len word \<Rightarrow> bytes" where
  "to_be_bytes n w = rev (to_le_bytes n w)"

definition from_be_bytes :: "bytes \<Rightarrow> 'a::len word" where
  "from_be_bytes bs = from_le_bytes (rev bs)"

lemma length_to_be_bytes [simp]: "length (to_be_bytes n w) = n"
  by (simp add: to_be_bytes_def)

lemma from_to_be_bytes [codec_simps]:
  "LENGTH('a::len) = 8 * n \<Longrightarrow> from_be_bytes (to_be_bytes n w) = (w :: 'a word)"
  by (simp add: to_be_bytes_def from_be_bytes_def from_to_le_bytes)

lemma to_from_be_bytes [codec_simps]:
  "LENGTH('a::len) = 8 * n \<Longrightarrow> length bs = n \<Longrightarrow> to_be_bytes n (from_be_bytes bs :: 'a word) = bs"
  by (simp add: to_be_bytes_def from_be_bytes_def to_from_le_bytes)

section \<open>Lists and maps\<close>

lemma map_upd_other: "k' \<noteq> k \<Longrightarrow> (m(k \<mapsto> v)) k' = m k'"
  by simp

text \<open>The sum of a finite map's values after one of them changes.\<close>

lemma sum_fun_upd:
  fixes f :: "'a \<Rightarrow> nat"
  assumes "finite A" "x \<in> A"
  shows "sum (f(x := v)) A + f x = sum f A + v"
proof -
  have "sum (f(x := v)) A = v + sum f (A - {x})"
    using assms by (subst sum.remove [of A x]) (auto intro!: sum.cong)
  moreover have "sum f A = f x + sum f (A - {x})"
    using assms by (rule sum.remove)
  ultimately show ?thesis by simp
qed

end
