(* ===== verification/Bytesrepr.thy ===== *)
theory Bytesrepr
  imports Prelude
begin

text \<open>
  The binary serialisation of \<^verbatim>\<open>types/src/bytesrepr.rs\<close> and
  \<^verbatim>\<open>types/src/bytesrepr/bytes.rs\<close>.

  Every \<open>ToBytes\<close> implementation is a triple of functions (serialised length, \<open>to_bytes\<close>,
  \<open>write_bytes\<close>) and every \<open>FromBytes\<close> implementation a function from a byte list to a value
  and the unread remainder. Generic implementations (\<open>Option\<close>, \<open>Result\<close>, \<open>Vec\<close>, maps,
  tuples) take the functions of their component types as arguments, as the trait bounds do.

  The locale \<open>bytesrepr\<close> is the contract between the two traits: on the values of the type
  (\<open>valid\<close>) the announced length is the real one, \<open>write_bytes\<close> appends what \<open>to_bytes\<close>
  returns, and \<open>from_bytes\<close> reads it back and leaves the rest of the stream alone. Injectivity
  and prefix-freeness of every encoding follow once, inside the locale.

  The memory allocator is a parameter \<open>alloc\<close>: \<open>alloc n\<close> says whether a request for \<open>n\<close>
  bytes is granted.
\<close>

section \<open>Errors, buffers and the top-level entry points\<close>

datatype bytes_error =
    EarlyEndOfStream | Formatting | LeftOverBytes | OutOfMemory | NotRepresentable
  | ExceededRecursionDepth

type_synonym 'a to_bytes = "'a \<Rightarrow> (bytes_error, bytes) result"
type_synonym 'a write_bytes = "'a \<Rightarrow> bytes \<Rightarrow> (bytes_error, bytes) result"
type_synonym 'a from_bytes = "bytes \<Rightarrow> (bytes_error, 'a \<times> bytes) result"

definition OPTION_NONE_TAG :: u8 where "OPTION_NONE_TAG = 0"
definition OPTION_SOME_TAG :: u8 where "OPTION_SOME_TAG = 1"
definition RESULT_ERR_TAG :: u8 where "RESULT_ERR_TAG = 0"
definition RESULT_OK_TAG :: u8 where "RESULT_OK_TAG = 1"

lemmas tag_defs = OPTION_NONE_TAG_def OPTION_SOME_TAG_def RESULT_ERR_TAG_def RESULT_OK_TAG_def

text \<open>The provided method \<open>ToBytes::write_bytes\<close>, for types that do not override it.\<close>

definition default_write_bytes :: "'a to_bytes \<Rightarrow> 'a write_bytes" where
  "default_write_bytes tb x writer = res_bind (tb x) (\<lambda>bs. Ok (writer @ bs))"

text \<open>A fresh buffer is empty; only the failure depends on the announced length.\<close>

definition allocate_buffer :: "nat \<Rightarrow> (bytes_error, bytes) result" where
  "allocate_buffer serialized_length =
     (if serialized_length > u32_max then Err OutOfMemory else Ok [])"

definition try_vec_with_capacity ::
  "(nat \<Rightarrow> bool) \<Rightarrow> nat \<Rightarrow> nat \<Rightarrow> nat \<Rightarrow> (bytes_error, 'a list) result" where
  "try_vec_with_capacity alloc elem_size align capacity =
     (let alloc_size = capacity * elem_size in
      if alloc_size > usize_max then Err OutOfMemory
      else if alloc_size = 0 then Ok []
      else if alloc_size > usize_max - (align - 1) then Err OutOfMemory
      else if \<not> alloc alloc_size then Err OutOfMemory
      else Ok [])"

definition deserialize :: "'a from_bytes \<Rightarrow> bytes \<Rightarrow> (bytes_error, 'a) result" where
  "deserialize fb bs =
     res_bind (fb bs) (\<lambda>(t, remainder). if remainder = [] then Ok t else Err LeftOverBytes)"

definition deserialize_from_slice :: "'a from_bytes \<Rightarrow> bytes \<Rightarrow> (bytes_error, 'a) result" where
  "deserialize_from_slice fb bs =
     res_bind (fb bs) (\<lambda>(t, remainder). if remainder = [] then Ok t else Err LeftOverBytes)"

definition safe_split_at :: "bytes \<Rightarrow> nat \<Rightarrow> (bytes_error, bytes \<times> bytes) result" where
  "safe_split_at bs n = (if n > length bs then Err EarlyEndOfStream else Ok (take n bs, drop n bs))"

definition u32_try_from :: "nat \<Rightarrow> (bytes_error, u32) result" where
  "u32_try_from n = (if n > u32_max then Err NotRepresentable else Ok (word_of_nat n))"

lemma allocate_buffer_eq_Ok [res_simps]: "(allocate_buffer n = Ok b) \<longleftrightarrow> (n \<le> u32_max \<and> b = [])"
  by (auto simp: allocate_buffer_def)

lemma try_vec_with_capacity_Ok:
  "try_vec_with_capacity alloc es al n = Ok v \<Longrightarrow> v = []"
  by (auto simp: try_vec_with_capacity_def Let_def split: if_splits)

lemma safe_split_at_append [simp, codec_simps]:
  "length bs = n \<Longrightarrow> safe_split_at (bs @ rest) n = Ok (bs, rest)"
  by (simp add: safe_split_at_def)

lemma safe_split_at_eq_Ok [res_simps]:
  "(safe_split_at bs n = Ok (a, b)) \<longleftrightarrow> (bs = a @ b \<and> length a = n)"
  by (auto simp: safe_split_at_def)

lemma u32_try_from_eq_Ok [res_simps]:
  "(u32_try_from n = Ok w) \<longleftrightarrow> (n \<le> u32_max \<and> w = word_of_nat n)"
  by (auto simp: u32_try_from_def)

lemma u32_try_from_le [simp]: "n \<le> u32_max \<Longrightarrow> u32_try_from n = Ok (word_of_nat n)"
  by (simp add: u32_try_from_def)

lemma unat_u32_of_nat [simp]: "n \<le> u32_max \<Longrightarrow> unat (word_of_nat n :: u32) = n"
  by (simp add: unat_of_nat_eq u32_max_def)

section \<open>The contract of \<open>ToBytes\<close> and \<open>FromBytes\<close>\<close>

locale bytesrepr =
  fixes valid :: "'a \<Rightarrow> bool"
    and sl :: "'a \<Rightarrow> nat"
    and tb :: "'a to_bytes"
    and wb :: "'a write_bytes"
    and fb :: "'a from_bytes"
  assumes tb_length: "valid x \<Longrightarrow> tb x = Ok bs \<Longrightarrow> length bs = sl x"
    and tb_write: "valid x \<Longrightarrow> tb x = Ok bs \<Longrightarrow> wb x w = Ok (w @ bs)"
    and roundtrip: "valid x \<Longrightarrow> tb x = Ok bs \<Longrightarrow> fb (bs @ rest) = Ok (x, rest)"
begin

lemma roundtrip_deserialize: "valid x \<Longrightarrow> tb x = Ok bs \<Longrightarrow> deserialize fb bs = Ok x"
  using roundtrip [of x bs "[]"] by (simp add: deserialize_def)

lemma roundtrip_from_slice: "valid x \<Longrightarrow> tb x = Ok bs \<Longrightarrow> deserialize_from_slice fb bs = Ok x"
  using roundtrip [of x bs "[]"] by (simp add: deserialize_from_slice_def)

text \<open>No encoding is a proper prefix of another.\<close>

lemma prefix_free:
  assumes "valid x" "tb x = Ok bs" "valid y" "tb y = Ok cs" "bs @ r = cs @ r'"
  shows "x = y \<and> r = r'"
  using roundtrip [OF assms(1,2), of r] roundtrip [OF assms(3,4), of r'] assms(5) by simp

lemma to_bytes_inj: "valid x \<Longrightarrow> tb x = Ok bs \<Longrightarrow> valid y \<Longrightarrow> tb y = Ok bs \<Longrightarrow> x = y"
  using prefix_free [of x bs y bs "[]" "[]"] by simp

lemma trailing_bytes_rejected:
  "valid x \<Longrightarrow> tb x = Ok bs \<Longrightarrow> rest \<noteq> [] \<Longrightarrow> deserialize fb (bs @ rest) = Err LeftOverBytes"
  by (simp add: deserialize_def roundtrip)

end

lemmas bytesreprI = bytesrepr.intro

text \<open>The default \<open>write_bytes\<close> satisfies its law.\<close>

lemma bytesrepr_default:
  assumes "\<And>x bs. valid x \<Longrightarrow> tb x = Ok bs \<Longrightarrow> length bs = sl x"
    and "\<And>x bs rest. valid x \<Longrightarrow> tb x = Ok bs \<Longrightarrow> fb (bs @ rest) = Ok (x, rest)"
  shows "bytesrepr valid sl tb (default_write_bytes tb) fb"
  using assms by unfold_locales (simp_all add: default_write_bytes_def)

section \<open>Primitive types\<close>

definition unit_serialized_length :: "unit \<Rightarrow> nat" where
  "unit_serialized_length x = 0"

definition unit_to_bytes :: "unit to_bytes" where
  "unit_to_bytes x = Ok []"

definition unit_from_bytes :: "unit from_bytes" where
  "unit_from_bytes bs = Ok ((), bs)"

definition u8_serialized_length :: "u8 \<Rightarrow> nat" where
  "u8_serialized_length x = 1"

definition u8_to_bytes :: "u8 to_bytes" where
  "u8_to_bytes x = Ok [x]"

definition u8_write_bytes :: "u8 write_bytes" where
  "u8_write_bytes x writer = Ok (writer @ [x])"

fun u8_from_bytes :: "u8 from_bytes" where
  "u8_from_bytes [] = Err EarlyEndOfStream"
| "u8_from_bytes (byte # rem) = Ok (byte, rem)"

definition bool_serialized_length :: "bool \<Rightarrow> nat" where
  "bool_serialized_length x = 1"

definition bool_to_bytes :: "bool to_bytes" where
  "bool_to_bytes b = u8_to_bytes (of_bool b)"

definition bool_write_bytes :: "bool write_bytes" where
  "bool_write_bytes b writer = Ok (writer @ [of_bool b])"

fun bool_from_bytes :: "bool from_bytes" where
  "bool_from_bytes [] = Err EarlyEndOfStream"
| "bool_from_bytes (byte # rem) =
     (if byte = 1 then Ok (True, rem) else if byte = 0 then Ok (False, rem) else Err Formatting)"

text \<open>
  The integers \<open>i32\<close>, \<open>i64\<close>, \<open>u16\<close>, \<open>u32\<close> and \<open>u64\<close> share one shape, with the number of
  bytes as the only difference; signed integers are their two's complement words.
\<close>

definition le_to_bytes :: "nat \<Rightarrow> 'a::len word to_bytes" where
  "le_to_bytes n x = Ok (to_le_bytes n x)"

definition le_write_bytes :: "nat \<Rightarrow> 'a::len word write_bytes" where
  "le_write_bytes n x writer = Ok (writer @ to_le_bytes n x)"

definition le_from_bytes :: "nat \<Rightarrow> 'a::len word from_bytes" where
  "le_from_bytes n bs =
     res_bind (safe_split_at bs n) (\<lambda>(bs', remainder). Ok (from_le_bytes bs', remainder))"

definition i32_to_bytes :: "i32 to_bytes" where "i32_to_bytes = le_to_bytes 4"
definition i32_write_bytes :: "i32 write_bytes" where "i32_write_bytes = le_write_bytes 4"
definition i32_from_bytes :: "i32 from_bytes" where "i32_from_bytes = le_from_bytes 4"
definition i64_to_bytes :: "i64 to_bytes" where "i64_to_bytes = le_to_bytes 8"
definition i64_write_bytes :: "i64 write_bytes" where "i64_write_bytes = le_write_bytes 8"
definition i64_from_bytes :: "i64 from_bytes" where "i64_from_bytes = le_from_bytes 8"
definition u16_to_bytes :: "u16 to_bytes" where "u16_to_bytes = le_to_bytes 2"
definition u16_write_bytes :: "u16 write_bytes" where "u16_write_bytes = le_write_bytes 2"
definition u16_from_bytes :: "u16 from_bytes" where "u16_from_bytes = le_from_bytes 2"
definition u32_to_bytes :: "u32 to_bytes" where "u32_to_bytes = le_to_bytes 4"
definition u32_write_bytes :: "u32 write_bytes" where "u32_write_bytes = le_write_bytes 4"
definition u32_from_bytes :: "u32 from_bytes" where "u32_from_bytes = le_from_bytes 4"
definition u64_to_bytes :: "u64 to_bytes" where "u64_to_bytes = le_to_bytes 8"
definition u64_write_bytes :: "u64 write_bytes" where "u64_write_bytes = le_write_bytes 8"
definition u64_from_bytes :: "u64 from_bytes" where "u64_from_bytes = le_from_bytes 8"

lemmas int_codec_defs =
  i32_to_bytes_def i32_write_bytes_def i32_from_bytes_def
  i64_to_bytes_def i64_write_bytes_def i64_from_bytes_def
  u16_to_bytes_def u16_write_bytes_def u16_from_bytes_def
  u32_to_bytes_def u32_write_bytes_def u32_from_bytes_def
  u64_to_bytes_def u64_write_bytes_def u64_from_bytes_def

lemma le_roundtrip [simp]:
  "LENGTH('a::len) = 8 * n \<Longrightarrow> le_from_bytes n (to_le_bytes n (x :: 'a word) @ rest) = Ok (x, rest)"
  by (simp add: le_from_bytes_def codec_simps)

lemma bytesrepr_le:
  "LENGTH('a::len) = 8 * n \<Longrightarrow>
   bytesrepr (\<lambda>_. True) (\<lambda>_. n) (le_to_bytes n :: 'a word to_bytes) (le_write_bytes n) (le_from_bytes n)"
  by unfold_locales (auto simp: le_to_bytes_def le_write_bytes_def)

interpretation unit_repr: bytesrepr "\<lambda>_. True" unit_serialized_length unit_to_bytes
  "default_write_bytes unit_to_bytes" unit_from_bytes
  by (rule bytesrepr_default)
    (auto simp: unit_to_bytes_def unit_from_bytes_def unit_serialized_length_def)

interpretation u8_repr: bytesrepr "\<lambda>_. True" u8_serialized_length u8_to_bytes u8_write_bytes u8_from_bytes
  by unfold_locales (auto simp: u8_to_bytes_def u8_write_bytes_def u8_serialized_length_def)

interpretation bool_repr: bytesrepr "\<lambda>_. True" bool_serialized_length bool_to_bytes bool_write_bytes
  bool_from_bytes
  by unfold_locales
    (auto simp: bool_to_bytes_def bool_write_bytes_def bool_serialized_length_def u8_to_bytes_def)

interpretation i32_repr: bytesrepr "\<lambda>_. True" "\<lambda>_. 4" i32_to_bytes i32_write_bytes i32_from_bytes
  unfolding int_codec_defs by (rule bytesrepr_le) simp

interpretation i64_repr: bytesrepr "\<lambda>_. True" "\<lambda>_. 8" i64_to_bytes i64_write_bytes i64_from_bytes
  unfolding int_codec_defs by (rule bytesrepr_le) simp

interpretation u16_repr: bytesrepr "\<lambda>_. True" "\<lambda>_. 2" u16_to_bytes u16_write_bytes u16_from_bytes
  unfolding int_codec_defs by (rule bytesrepr_le) simp

interpretation u32_repr: bytesrepr "\<lambda>_. True" "\<lambda>_. 4" u32_to_bytes u32_write_bytes u32_from_bytes
  unfolding int_codec_defs by (rule bytesrepr_le) simp

interpretation u64_repr: bytesrepr "\<lambda>_. True" "\<lambda>_. 8" u64_to_bytes u64_write_bytes u64_from_bytes
  unfolding int_codec_defs by (rule bytesrepr_le) simp

section \<open>Byte slices, strings and fixed arrays\<close>

definition u8_slice_serialized_length :: "bytes \<Rightarrow> nat" where
  "u8_slice_serialized_length bs = 4 + length bs"

definition u8_slice_to_bytes :: "(nat \<Rightarrow> bool) \<Rightarrow> bytes to_bytes" where
  "u8_slice_to_bytes alloc bs =
     res_bind (try_vec_with_capacity alloc 1 1 (u8_slice_serialized_length bs)) (\<lambda>vec.
     res_bind (u32_try_from (length bs)) (\<lambda>length_prefix.
     Ok (vec @ to_le_bytes 4 length_prefix @ bs)))"

definition write_u8_slice :: "bytes write_bytes" where
  "write_u8_slice bs writer =
     res_bind (u32_try_from (length bs)) (\<lambda>length_32. Ok (writer @ to_le_bytes 4 length_32 @ bs))"

text \<open>The newtype \<open>Bytes\<close>.\<close>

definition Bytes_to_bytes :: "(nat \<Rightarrow> bool) \<Rightarrow> bytes to_bytes" where
  "Bytes_to_bytes alloc bs = u8_slice_to_bytes alloc bs"

definition Bytes_from_bytes :: "bytes from_bytes" where
  "Bytes_from_bytes bs =
     res_bind (u32_from_bytes bs) (\<lambda>(size, remainder).
     res_bind (safe_split_at remainder (unat size)) (\<lambda>(result, remainder).
     Ok (result, remainder)))"

definition Bytes_from_vec :: "bytes from_bytes" where
  "Bytes_from_vec bs =
     res_bind (u32_from_bytes bs) (\<lambda>(size, stream).
     if unat size > length stream then Err EarlyEndOfStream
     else Ok (take (unat size) stream, drop (unat size) stream))"

text \<open>
  A \<open>String\<close> is its UTF-8 bytes. \<open>utf8_valid\<close> is the well-formedness test that
  \<open>String::from_utf8\<close> performs.
\<close>

definition utf8_cont :: "u8 \<Rightarrow> bool" where
  "utf8_cont b \<longleftrightarrow> 0x80 \<le> b \<and> b \<le> 0xBF"

fun utf8_valid :: "bytes \<Rightarrow> bool" where
  "utf8_valid [] = True"
| "utf8_valid (a # bs) =
     (if a < 0x80 then utf8_valid bs
      else if 0xC2 \<le> a \<and> a \<le> 0xDF then
        (case bs of b # bs' \<Rightarrow> utf8_cont b \<and> utf8_valid bs' | _ \<Rightarrow> False)
      else if 0xE0 \<le> a \<and> a \<le> 0xEF then
        (case bs of b # c # bs' \<Rightarrow>
           utf8_cont b \<and> (a = 0xE0 \<longrightarrow> 0xA0 \<le> b) \<and> (a = 0xED \<longrightarrow> b \<le> 0x9F) \<and> utf8_cont c \<and>
           utf8_valid bs'
         | _ \<Rightarrow> False)
      else if 0xF0 \<le> a \<and> a \<le> 0xF4 then
        (case bs of b # c # d # bs' \<Rightarrow>
           utf8_cont b \<and> (a = 0xF0 \<longrightarrow> 0x90 \<le> b) \<and> (a = 0xF4 \<longrightarrow> b \<le> 0x8F) \<and> utf8_cont c \<and>
           utf8_cont d \<and> utf8_valid bs'
         | _ \<Rightarrow> False)
      else False)"

definition String_to_bytes :: "(nat \<Rightarrow> bool) \<Rightarrow> bytes to_bytes" where
  "String_to_bytes alloc s = u8_slice_to_bytes alloc s"

definition String_from_bytes :: "bytes from_bytes" where
  "String_from_bytes bs =
     res_bind (u32_from_bytes bs) (\<lambda>(size, remainder).
     res_bind (safe_split_at remainder (unat size)) (\<lambda>(str_bytes, remainder).
     if utf8_valid str_bytes then Ok (str_bytes, remainder) else Err Formatting))"

definition array_to_bytes :: "bytes to_bytes" where
  "array_to_bytes a = Ok a"

definition array_write_bytes :: "bytes write_bytes" where
  "array_write_bytes a writer = Ok (writer @ a)"

definition array_from_bytes :: "nat \<Rightarrow> bytes from_bytes" where
  "array_from_bytes count bs = safe_split_at bs count"

lemma u8_slice_to_bytes_Ok:
  "u8_slice_to_bytes alloc bs = Ok out \<Longrightarrow>
   length bs \<le> u32_max \<and> out = to_le_bytes 4 (word_of_nat (length bs) :: u32) @ bs"
  by (auto simp: u8_slice_to_bytes_def res_simps dest: try_vec_with_capacity_Ok)

lemma u32_from_bytes_le [simp]: "u32_from_bytes (to_le_bytes 4 n @ rest) = Ok (n, rest)"
  by (simp add: u32_from_bytes_def)

interpretation Bytes_repr: bytesrepr "\<lambda>_. True" u8_slice_serialized_length "Bytes_to_bytes alloc"
  write_u8_slice Bytes_from_bytes for alloc
  by unfold_locales
    (auto simp: Bytes_to_bytes_def Bytes_from_bytes_def write_u8_slice_def
      u8_slice_serialized_length_def dest!: u8_slice_to_bytes_Ok)

interpretation Bytes_vec_repr: bytesrepr "\<lambda>_. True" u8_slice_serialized_length "Bytes_to_bytes alloc"
  write_u8_slice Bytes_from_vec for alloc
  by unfold_locales
    (auto simp: Bytes_to_bytes_def Bytes_from_vec_def write_u8_slice_def
      u8_slice_serialized_length_def dest!: u8_slice_to_bytes_Ok)

interpretation String_repr: bytesrepr utf8_valid u8_slice_serialized_length "String_to_bytes alloc"
  write_u8_slice String_from_bytes for alloc
  by unfold_locales
    (auto simp: String_to_bytes_def String_from_bytes_def write_u8_slice_def
      u8_slice_serialized_length_def dest!: u8_slice_to_bytes_Ok)

interpretation array_repr: bytesrepr "\<lambda>a. length a = n" "\<lambda>_. n" array_to_bytes array_write_bytes
  "array_from_bytes n" for n
  by unfold_locales (auto simp: array_to_bytes_def array_write_bytes_def array_from_bytes_def)

section \<open>Sequences\<close>

text \<open>The two loops every container shares: append the encodings of the items, and read
  \<open>count\<close> items, inserting each into the container built so far.\<close>

definition append_items :: "'a to_bytes \<Rightarrow> 'a list \<Rightarrow> bytes \<Rightarrow> (bytes_error, bytes) result" where
  "append_items tb xs result = res_fold (\<lambda>item acc. res_bind (tb item) (\<lambda>bs. Ok (acc @ bs))) xs result"

definition write_items :: "'a write_bytes \<Rightarrow> 'a list \<Rightarrow> bytes \<Rightarrow> (bytes_error, bytes) result" where
  "write_items wb xs writer = res_fold wb xs writer"

fun read_items ::
  "'a from_bytes \<Rightarrow> ('a \<Rightarrow> 'c \<Rightarrow> 'c) \<Rightarrow> nat \<Rightarrow> 'c \<Rightarrow> bytes \<Rightarrow> (bytes_error, 'c \<times> bytes) result" where
  "read_items fb ins 0 result stream = Ok (result, stream)"
| "read_items fb ins (Suc n) result stream =
     res_bind (fb stream) (\<lambda>(value, remainder). read_items fb ins n (ins value result) remainder)"

definition iterator_serialized_length :: "('a \<Rightarrow> nat) \<Rightarrow> 'a list \<Rightarrow> nat" where
  "iterator_serialized_length sl ts = 4 + sum_list (map sl ts)"

definition vec_to_bytes :: "(nat \<Rightarrow> bool) \<Rightarrow> ('a \<Rightarrow> nat) \<Rightarrow> 'a to_bytes \<Rightarrow> 'a list to_bytes" where
  "vec_to_bytes alloc sl tb xs =
     res_bind (try_vec_with_capacity alloc 1 1 (iterator_serialized_length sl xs)) (\<lambda>result.
     res_bind (u32_try_from (length xs)) (\<lambda>length_32.
     res_bind (u32_to_bytes length_32) (\<lambda>length_bytes.
     append_items tb xs (result @ length_bytes))))"

definition vec_into_bytes :: "('a \<Rightarrow> nat) \<Rightarrow> 'a to_bytes \<Rightarrow> 'a list to_bytes" where
  "vec_into_bytes sl tb xs =
     res_bind (allocate_buffer (iterator_serialized_length sl xs)) (\<lambda>result.
     res_bind (u32_try_from (length xs)) (\<lambda>length_32.
     res_bind (u32_to_bytes length_32) (\<lambda>length_bytes.
     append_items tb xs (result @ length_bytes))))"

definition vec_write_bytes :: "'a write_bytes \<Rightarrow> 'a list write_bytes" where
  "vec_write_bytes wb xs writer =
     res_bind (u32_try_from (length xs)) (\<lambda>length_32.
     write_items wb xs (writer @ to_le_bytes 4 length_32))"

definition vec_from_bytes ::
  "(nat \<Rightarrow> bool) \<Rightarrow> nat \<Rightarrow> nat \<Rightarrow> 'a from_bytes \<Rightarrow> 'a list from_bytes" where
  "vec_from_bytes alloc elem_size align fb bs =
     res_bind (u32_from_bytes bs) (\<lambda>(count, stream).
     res_bind (try_vec_with_capacity alloc elem_size align (unat count)) (\<lambda>result.
     read_items fb (\<lambda>value result. result @ [value]) (unat count) result stream))"

text \<open>\<open>VecDeque\<close>: the two slices of the ring buffer are written one after the other.\<close>

definition vecdeque_to_bytes :: "('a \<Rightarrow> nat) \<Rightarrow> 'a to_bytes \<Rightarrow> ('a list \<times> 'a list) to_bytes" where
  "vecdeque_to_bytes sl tb d =
     (let (front, back) = d in
      res_bind (allocate_buffer (iterator_serialized_length sl (front @ back))) (\<lambda>result.
      res_bind (u32_try_from (length front + length back)) (\<lambda>length_32.
      res_bind (u32_to_bytes length_32) (\<lambda>length_bytes.
      append_items tb (front @ back) (result @ length_bytes)))))"

definition vecdeque_from_bytes ::
  "(nat \<Rightarrow> bool) \<Rightarrow> nat \<Rightarrow> nat \<Rightarrow> 'a from_bytes \<Rightarrow> 'a list from_bytes" where
  "vecdeque_from_bytes alloc elem_size align fb bs = vec_from_bytes alloc elem_size align fb bs"

subsection \<open>Properties of the loops\<close>

abbreviation encodes :: "'a to_bytes \<Rightarrow> 'a list \<Rightarrow> bytes list \<Rightarrow> bool" where
  "encodes tb xs bss \<equiv> list_all2 (\<lambda>x bs. tb x = Ok bs) xs bss"

lemma append_items_Ok:
  "append_items tb xs acc = Ok out \<longleftrightarrow> (\<exists>bss. encodes tb xs bss \<and> out = acc @ concat bss)"
proof (induction xs arbitrary: acc)
  case Nil
  then show ?case by (auto simp: append_items_def)
next
  case (Cons x xs)
  have "append_items tb (x # xs) acc = res_bind (tb x) (\<lambda>bs. append_items tb xs (acc @ bs))"
    by (cases "tb x") (simp_all add: append_items_def)
  then have "append_items tb (x # xs) acc = Ok out \<longleftrightarrow>
      (\<exists>bs bss. tb x = Ok bs \<and> encodes tb xs bss \<and> out = acc @ bs @ concat bss)"
    using Cons by (auto simp: res_simps)
  also have "\<dots> \<longleftrightarrow> (\<exists>bss. encodes tb (x # xs) bss \<and> out = acc @ concat bss)"
    by (auto simp: list_all2_Cons1) (metis concat.simps(2))
  finally show ?case .
qed

context bytesrepr
begin

lemma concat_length:
  "encodes tb xs bss \<Longrightarrow> \<forall>x\<in>set xs. valid x \<Longrightarrow> length (concat bss) = sum_list (map sl xs)"
  by (induction xs bss rule: list_all2_induct) (auto simp: tb_length)

lemma write_items:
  "encodes tb xs bss \<Longrightarrow> \<forall>x\<in>set xs. valid x \<Longrightarrow> write_items wb xs w = Ok (w @ concat bss)"
proof (induction xs bss arbitrary: w rule: list_all2_induct)
  case (Cons x xs bs bss)
  then show ?case using tb_write [of x bs w] by (simp add: write_items_def)
qed (simp add: write_items_def)

lemma read_items:
  "encodes tb xs bss \<Longrightarrow> \<forall>x\<in>set xs. valid x \<Longrightarrow>
   read_items fb ins (length xs) acc (concat bss @ rest) = Ok (fold ins xs acc, rest)"
proof (induction xs bss arbitrary: acc rule: list_all2_induct)
  case (Cons x xs bs bss)
  then show ?case using roundtrip [of x bs "concat bss @ rest"] by simp
qed simp

end

definition capacity_granted :: "(nat \<Rightarrow> bool) \<Rightarrow> nat \<Rightarrow> nat \<Rightarrow> nat \<Rightarrow> bool" where
  "capacity_granted alloc elem_size align n \<longleftrightarrow>
     n * elem_size \<le> usize_max - (align - 1) \<and> (n * elem_size = 0 \<or> alloc (n * elem_size))"

lemma try_vec_granted:
  "capacity_granted alloc es al n \<Longrightarrow> try_vec_with_capacity alloc es al n = Ok []"
  by (auto simp: capacity_granted_def try_vec_with_capacity_def Let_def)

lemma fold_snoc: "fold (\<lambda>v acc. acc @ [v]) xs acc = acc @ xs"
  by (induction xs arbitrary: acc) auto

lemma vec_to_bytes_Ok:
  "vec_to_bytes alloc sl tb xs = Ok out \<Longrightarrow>
   length xs \<le> u32_max \<and>
   (\<exists>bss. encodes tb xs bss \<and> out = to_le_bytes 4 (word_of_nat (length xs) :: u32) @ concat bss)"
  by (auto simp: vec_to_bytes_def res_simps append_items_Ok u32_to_bytes_def le_to_bytes_def
      dest: try_vec_with_capacity_Ok)

lemma vec_into_bytes_Ok:
  "vec_into_bytes sl tb xs = Ok out \<Longrightarrow>
   length xs \<le> u32_max \<and>
   (\<exists>bss. encodes tb xs bss \<and> out = to_le_bytes 4 (word_of_nat (length xs) :: u32) @ concat bss)"
  by (auto simp: vec_into_bytes_def res_simps append_items_Ok u32_to_bytes_def le_to_bytes_def)

lemma bytesrepr_vec:
  assumes "bytesrepr valid sl tb wb fb"
  shows "bytesrepr (\<lambda>xs. (\<forall>x\<in>set xs. valid x) \<and> capacity_granted alloc es al (length xs))
    (iterator_serialized_length sl) (vec_to_bytes alloc' sl tb) (vec_write_bytes wb)
    (vec_from_bytes alloc es al fb)"
proof (rule bytesreprI, goal_cases)
  case (1 xs bs)
  then show ?case
    by (auto simp: iterator_serialized_length_def bytesrepr.concat_length [OF assms]
        dest!: vec_to_bytes_Ok)
next
  case (2 xs bs w)
  then show ?case
    by (auto simp: vec_write_bytes_def bytesrepr.write_items [OF assms]
        dest!: vec_to_bytes_Ok)
next
  case (3 xs bs rest)
  then show ?case
    by (auto simp: vec_from_bytes_def try_vec_granted bytesrepr.read_items [OF assms] fold_snoc
        dest!: vec_to_bytes_Ok)
qed

lemma bytesrepr_vecdeque:
  assumes "bytesrepr valid sl tb wb fb"
    and "vecdeque_to_bytes sl tb (front, back) = Ok bs"
    and "\<forall>x\<in>set (front @ back). valid x"
    and "capacity_granted alloc es al (length front + length back)"
  shows "vecdeque_from_bytes alloc es al fb (bs @ rest) = Ok (front @ back, rest)"
proof -
  from assms(2) obtain bss where n: "length front + length back \<le> u32_max"
    and enc: "encodes tb (front @ back) bss"
    and bs: "bs = to_le_bytes 4 (word_of_nat (length front + length back) :: u32) @ concat bss"
    by (auto simp: vecdeque_to_bytes_def res_simps append_items_Ok u32_to_bytes_def le_to_bytes_def)
  show ?thesis
    using n bs assms(3,4) bytesrepr.read_items [OF assms(1) enc, of "\<lambda>v acc. acc @ [v]" "[]" rest]
    by (simp add: vecdeque_from_bytes_def vec_from_bytes_def try_vec_granted fold_snoc del: of_nat_add)
qed

section \<open>Ordered sets and maps\<close>

text \<open>
  A \<open>BTreeMap\<close> is the list of its entries in ascending key order; \<open>btree_insert\<close> is
  \<open>BTreeMap::insert\<close>, which replaces the value of a key that is present.
\<close>

fun btree_insert :: "'k::linorder \<Rightarrow> 'v \<Rightarrow> ('k \<times> 'v) list \<Rightarrow> ('k \<times> 'v) list" where
  "btree_insert k v [] = [(k, v)]"
| "btree_insert k v ((k', v') # m) =
     (if k < k' then (k, v) # (k', v') # m
      else if k = k' then (k, v) # m
      else (k', v') # btree_insert k v m)"

definition btree_set_insert :: "'k::linorder \<Rightarrow> 'k list \<Rightarrow> 'k list" where
  "btree_set_insert k s = map fst (btree_insert k () (map (\<lambda>x. (x, ())) s))"

definition btreeset_serialized_length :: "('a \<Rightarrow> nat) \<Rightarrow> 'a list \<Rightarrow> nat" where
  "btreeset_serialized_length sl s = 4 + sum_list (map sl s)"

definition btreeset_to_bytes :: "('a \<Rightarrow> nat) \<Rightarrow> 'a to_bytes \<Rightarrow> 'a list to_bytes" where
  "btreeset_to_bytes sl tb s =
     res_bind (allocate_buffer (btreeset_serialized_length sl s)) (\<lambda>result.
     res_bind (u32_try_from (length s)) (\<lambda>num_keys.
     res_bind (u32_to_bytes num_keys) (\<lambda>length_bytes.
     append_items tb s (result @ length_bytes))))"

definition btreeset_write_bytes :: "'a write_bytes \<Rightarrow> 'a list write_bytes" where
  "btreeset_write_bytes wb s writer =
     res_bind (u32_try_from (length s)) (\<lambda>length_32.
     write_items wb s (writer @ to_le_bytes 4 length_32))"

definition btreeset_from_bytes :: "'a::linorder from_bytes \<Rightarrow> 'a list from_bytes" where
  "btreeset_from_bytes fb bs =
     res_bind (u32_from_bytes bs) (\<lambda>(num_keys, stream).
     read_items fb btree_set_insert (unat num_keys) [] stream)"

definition btreemap_serialized_length ::
  "('k \<Rightarrow> nat) \<Rightarrow> ('v \<Rightarrow> nat) \<Rightarrow> ('k \<times> 'v) list \<Rightarrow> nat" where
  "btreemap_serialized_length ksl vsl m = 4 + sum_list (map (\<lambda>(key, value). ksl key + vsl value) m)"

definition entry_to_bytes :: "'k to_bytes \<Rightarrow> 'v to_bytes \<Rightarrow> ('k \<times> 'v) to_bytes" where
  "entry_to_bytes ktb vtb kv =
     (case kv of (key, value) \<Rightarrow> res_bind (ktb key) (\<lambda>kb. res_bind (vtb value) (\<lambda>vb. Ok (kb @ vb))))"

definition entry_write_bytes :: "'k write_bytes \<Rightarrow> 'v write_bytes \<Rightarrow> ('k \<times> 'v) write_bytes" where
  "entry_write_bytes kwb vwb kv writer =
     (case kv of (key, value) \<Rightarrow> res_bind (kwb key writer) (vwb value))"

definition entry_from_bytes :: "'k from_bytes \<Rightarrow> 'v from_bytes \<Rightarrow> ('k \<times> 'v) from_bytes" where
  "entry_from_bytes kfb vfb stream =
     res_bind (kfb stream) (\<lambda>(k, rem). res_bind (vfb rem) (\<lambda>(v, rem). Ok ((k, v), rem)))"

definition btreemap_to_bytes ::
  "('k \<Rightarrow> nat) \<Rightarrow> ('v \<Rightarrow> nat) \<Rightarrow> 'k to_bytes \<Rightarrow> 'v to_bytes \<Rightarrow> ('k \<times> 'v) list to_bytes" where
  "btreemap_to_bytes ksl vsl ktb vtb m =
     res_bind (allocate_buffer (btreemap_serialized_length ksl vsl m)) (\<lambda>result.
     res_bind (u32_try_from (length m)) (\<lambda>num_keys.
     res_bind (u32_to_bytes num_keys) (\<lambda>length_bytes.
     append_items (entry_to_bytes ktb vtb) m (result @ length_bytes))))"

definition btreemap_write_bytes ::
  "'k write_bytes \<Rightarrow> 'v write_bytes \<Rightarrow> ('k \<times> 'v) list write_bytes" where
  "btreemap_write_bytes kwb vwb m writer =
     res_bind (u32_try_from (length m)) (\<lambda>length_32.
     write_items (entry_write_bytes kwb vwb) m (writer @ to_le_bytes 4 length_32))"

definition btreemap_from_bytes ::
  "'k::linorder from_bytes \<Rightarrow> 'v from_bytes \<Rightarrow> ('k \<times> 'v) list from_bytes" where
  "btreemap_from_bytes kfb vfb bs =
     res_bind (u32_from_bytes bs) (\<lambda>(num_keys, stream).
     read_items (entry_from_bytes kfb vfb) (\<lambda>(k, v). btree_insert k v) (unat num_keys) [] stream)"

text \<open>Inserting ascending keys rebuilds the map.\<close>

lemma btree_insert_last:
  "\<forall>k'\<in>fst ` set m. k' < k \<Longrightarrow> btree_insert k v m = m @ [(k, v)]"
  by (induction m) auto

lemma fold_btree_insert:
  "sorted_wrt (<) (map fst (acc @ m)) \<Longrightarrow> fold (\<lambda>(k, v). btree_insert k v) m acc = acc @ m"
proof (induction m arbitrary: acc)
  case (Cons kv m)
  obtain k v where kv: "kv = (k, v)" by (cases kv)
  from Cons.prems kv have "btree_insert k v acc = acc @ [(k, v)]"
    by (intro btree_insert_last) (auto simp: sorted_wrt_append)
  with Cons kv show ?case by simp
qed simp

lemma fold_btree_set_insert:
  "sorted_wrt (<) (acc @ s) \<Longrightarrow> fold btree_set_insert s acc = acc @ s"
proof (induction s arbitrary: acc)
  case (Cons k s)
  have "btree_insert k () (map (\<lambda>x. (x, ())) acc) = map (\<lambda>x. (x, ())) acc @ [(k, ())]"
    using Cons.prems by (intro btree_insert_last) (auto simp: sorted_wrt_append)
  then have "btree_set_insert k acc = acc @ [k]"
    by (simp add: btree_set_insert_def comp_def)
  with Cons show ?case by simp
qed simp

lemma bytesrepr_entry:
  assumes "bytesrepr kv ksl ktb kwb kfb" "bytesrepr vv vsl vtb vwb vfb"
  shows "bytesrepr (\<lambda>(k, v). kv k \<and> vv v) (\<lambda>(k, v). ksl k + vsl v) (entry_to_bytes ktb vtb)
    (entry_write_bytes kwb vwb) (entry_from_bytes kfb vfb)"
  using assms
  by unfold_locales
    (auto simp: entry_to_bytes_def entry_write_bytes_def entry_from_bytes_def res_simps
      bytesrepr.tb_length [OF assms(1)] bytesrepr.tb_length [OF assms(2)]
      bytesrepr.tb_write [OF assms(1)] bytesrepr.tb_write [OF assms(2)]
      bytesrepr.roundtrip [OF assms(1)] bytesrepr.roundtrip [OF assms(2)])

lemma sized_items_Ok:
  assumes "res_bind (allocate_buffer n) (\<lambda>result. res_bind (u32_try_from (length xs)) (\<lambda>k.
      res_bind (u32_to_bytes k) (\<lambda>length_bytes. append_items tb xs (result @ length_bytes)))) = Ok out"
  shows "length xs \<le> u32_max \<and>
    (\<exists>bss. encodes tb xs bss \<and> out = to_le_bytes 4 (word_of_nat (length xs) :: u32) @ concat bss)"
  using assms by (auto simp: res_simps append_items_Ok u32_to_bytes_def le_to_bytes_def)

lemma bytesrepr_btreeset:
  assumes "bytesrepr valid sl tb wb fb"
  shows "bytesrepr (\<lambda>s. (\<forall>x\<in>set s. valid x) \<and> sorted_wrt (<) s) (btreeset_serialized_length sl)
    (btreeset_to_bytes sl tb) (btreeset_write_bytes wb) (btreeset_from_bytes fb)"
proof (rule bytesreprI, goal_cases)
  case (1 xs bs)
  then show ?case
    unfolding btreeset_to_bytes_def
    by (auto simp: btreeset_serialized_length_def bytesrepr.concat_length [OF assms] dest!: sized_items_Ok)
next
  case (2 xs bs w)
  then show ?case
    unfolding btreeset_to_bytes_def
    by (auto simp: btreeset_write_bytes_def bytesrepr.write_items [OF assms] dest!: sized_items_Ok)
next
  case (3 xs bs rest)
  then show ?case
    unfolding btreeset_to_bytes_def
    by (auto simp: btreeset_from_bytes_def bytesrepr.read_items [OF assms] fold_btree_set_insert dest!: sized_items_Ok)
qed

lemma bytesrepr_btreemap:
  assumes "bytesrepr kv ksl ktb kwb kfb" "bytesrepr vv vsl vtb vwb vfb"
  shows "bytesrepr (\<lambda>m. (\<forall>(k, v)\<in>set m. kv k \<and> vv v) \<and> sorted_wrt (<) (map fst m))
    (btreemap_serialized_length ksl vsl) (btreemap_to_bytes ksl vsl ktb vtb)
    (btreemap_write_bytes kwb vwb) (btreemap_from_bytes kfb vfb)"
proof (rule bytesreprI, goal_cases)
  note entry = bytesrepr_entry [OF assms]
  case (1 xs bs)
  then show ?case
    unfolding btreemap_to_bytes_def
    using bytesrepr.concat_length [OF entry]
    by (fastforce simp: btreemap_serialized_length_def dest!: sized_items_Ok)
next
  note entry = bytesrepr_entry [OF assms]
  case (2 xs bs w)
  then show ?case
    unfolding btreemap_to_bytes_def
    using bytesrepr.write_items [OF entry]
    by (fastforce simp: btreemap_write_bytes_def dest!: sized_items_Ok)
next
  note entry = bytesrepr_entry [OF assms]
  case (3 xs bs rest)
  then show ?case
    unfolding btreemap_to_bytes_def
    using bytesrepr.read_items [OF entry, where ins = "\<lambda>(k, v). btree_insert k v" and acc = "[]"]
      fold_btree_insert [of "[]" xs]
    by (fastforce simp: btreemap_from_bytes_def dest!: sized_items_Ok)
qed

section \<open>Options and results\<close>

fun option_serialized_length :: "('a \<Rightarrow> nat) \<Rightarrow> 'a option \<Rightarrow> nat" where
  "option_serialized_length sl None = 1"
| "option_serialized_length sl (Some v) = 1 + sl v"

fun option_to_bytes :: "('a \<Rightarrow> nat) \<Rightarrow> 'a to_bytes \<Rightarrow> 'a option to_bytes" where
  "option_to_bytes sl tb None = Ok [OPTION_NONE_TAG]"
| "option_to_bytes sl tb (Some v) =
     res_bind (allocate_buffer (option_serialized_length sl (Some v))) (\<lambda>result.
     res_bind (tb v) (\<lambda>value. Ok (result @ [OPTION_SOME_TAG] @ value)))"

fun option_write_bytes :: "'a write_bytes \<Rightarrow> 'a option write_bytes" where
  "option_write_bytes wb None writer = Ok (writer @ [OPTION_NONE_TAG])"
| "option_write_bytes wb (Some v) writer = wb v (writer @ [OPTION_SOME_TAG])"

definition option_from_bytes :: "'a from_bytes \<Rightarrow> 'a option from_bytes" where
  "option_from_bytes fb bs =
     res_bind (u8_from_bytes bs) (\<lambda>(tag, rem).
     if tag = OPTION_NONE_TAG then Ok (None, rem)
     else if tag = OPTION_SOME_TAG then res_bind (fb rem) (\<lambda>(t, rem). Ok (Some t, rem))
     else Err Formatting)"

text \<open>\<open>Result<T, E>\<close> as data: \<open>Inl\<close> is \<open>Err\<close> and \<open>Inr\<close> is \<open>Ok\<close>.\<close>

fun result_serialized_length :: "('t \<Rightarrow> nat) \<Rightarrow> ('e \<Rightarrow> nat) \<Rightarrow> 'e + 't \<Rightarrow> nat" where
  "result_serialized_length tsl esl (Inr ok) = 1 + tsl ok"
| "result_serialized_length tsl esl (Inl error) = 1 + esl error"

definition result_to_bytes ::
  "('t \<Rightarrow> nat) \<Rightarrow> ('e \<Rightarrow> nat) \<Rightarrow> 't to_bytes \<Rightarrow> 'e to_bytes \<Rightarrow> ('e + 't) to_bytes" where
  "result_to_bytes tsl esl ttb etb r =
     res_bind (allocate_buffer (result_serialized_length tsl esl r)) (\<lambda>result.
     res_bind (case r of Inl error \<Rightarrow> res_bind (etb error) (\<lambda>b. Ok (RESULT_ERR_TAG, b))
               | Inr ok \<Rightarrow> res_bind (ttb ok) (\<lambda>b. Ok (RESULT_OK_TAG, b))) (\<lambda>(variant, value).
     Ok (result @ [variant] @ value)))"

fun result_write_bytes :: "'t write_bytes \<Rightarrow> 'e write_bytes \<Rightarrow> ('e + 't) write_bytes" where
  "result_write_bytes twb ewb (Inl error) writer = ewb error (writer @ [RESULT_ERR_TAG])"
| "result_write_bytes twb ewb (Inr result) writer = twb result (writer @ [RESULT_OK_TAG])"

definition result_from_bytes :: "'t from_bytes \<Rightarrow> 'e from_bytes \<Rightarrow> ('e + 't) from_bytes" where
  "result_from_bytes tfb efb bs =
     res_bind (u8_from_bytes bs) (\<lambda>(variant, rem).
     if variant = RESULT_ERR_TAG then res_bind (efb rem) (\<lambda>(value, rem). Ok (Inl value, rem))
     else if variant = RESULT_OK_TAG then res_bind (tfb rem) (\<lambda>(value, rem). Ok (Inr value, rem))
     else Err Formatting)"

lemma option_to_bytes_Some_Ok:
  "option_to_bytes sl tb (Some v) = Ok bs \<longleftrightarrow>
   1 + sl v \<le> u32_max \<and> (\<exists>vb. tb v = Ok vb \<and> bs = OPTION_SOME_TAG # vb)"
  by (auto simp: res_simps)

lemma result_to_bytes_Ok:
  "result_to_bytes tsl esl ttb etb r = Ok bs \<longleftrightarrow> result_serialized_length tsl esl r \<le> u32_max \<and>
   (case r of Inl e \<Rightarrow> \<exists>b. etb e = Ok b \<and> bs = RESULT_ERR_TAG # b
    | Inr t \<Rightarrow> \<exists>b. ttb t = Ok b \<and> bs = RESULT_OK_TAG # b)"
  by (cases r) (auto simp: result_to_bytes_def res_simps)

lemma bytesrepr_option:
  assumes "bytesrepr valid sl tb wb fb"
  shows "bytesrepr (pred_option valid) (option_serialized_length sl) (option_to_bytes sl tb)
    (option_write_bytes wb) (option_from_bytes fb)"
proof (rule bytesreprI, goal_cases)
  case (1 x bs)
  then show ?case
    by (cases x) (auto simp: option_to_bytes_Some_Ok bytesrepr.tb_length [OF assms]
        simp del: option_to_bytes.simps(2))
next
  case (2 x bs w)
  then show ?case
    by (cases x) (auto simp: option_to_bytes_Some_Ok bytesrepr.tb_write [OF assms]
        simp del: option_to_bytes.simps(2))
next
  case (3 x bs rest)
  then show ?case
    by (cases x) (auto simp: option_to_bytes_Some_Ok option_from_bytes_def tag_defs bytesrepr.roundtrip [OF assms]
        simp del: option_to_bytes.simps(2))
qed

lemma bytesrepr_result:
  assumes "bytesrepr vt tsl ttb twb tfb" "bytesrepr ve esl etb ewb efb"
  shows "bytesrepr (case_sum ve vt) (result_serialized_length tsl esl)
    (result_to_bytes tsl esl ttb etb) (result_write_bytes twb ewb) (result_from_bytes tfb efb)"
proof (rule bytesreprI, goal_cases)
  case (1 x bs)
  then show ?case
    by (cases x) (auto simp: result_to_bytes_Ok
        bytesrepr.tb_length [OF assms(1)] bytesrepr.tb_length [OF assms(2)])
next
  case (2 x bs w)
  then show ?case
    by (cases x) (auto simp: result_to_bytes_Ok
        bytesrepr.tb_write [OF assms(1)] bytesrepr.tb_write [OF assms(2)])
next
  case (3 x bs rest)
  then show ?case
    by (cases x) (auto simp: result_to_bytes_Ok result_from_bytes_def tag_defs
        bytesrepr.roundtrip [OF assms(1)] bytesrepr.roundtrip [OF assms(2)])
qed

section \<open>Tuples\<close>

text \<open>
  A tuple allocates its buffer for the sum of its components' lengths and appends their encodings
  in order; \<open>append_parts\<close> is that sequence of \<open>result.append(\<dots>?)\<close> statements.
\<close>

definition append_parts :: "nat \<Rightarrow> (bytes_error, bytes) result list \<Rightarrow> (bytes_error, bytes) result" where
  "append_parts len parts =
     res_bind (allocate_buffer len) (\<lambda>result. append_items (\<lambda>p. p) parts result)"

fun tuple1_to_bytes :: "'a to_bytes \<Rightarrow> 'a to_bytes" where
  "tuple1_to_bytes tb x = tb x"

fun tuple1_from_bytes :: "'a from_bytes \<Rightarrow> 'a from_bytes" where
  "tuple1_from_bytes fb bs = res_bind (fb bs) (\<lambda>(t1, remainder). Ok (t1, remainder))"

fun tuple2_serialized_length :: "('a \<Rightarrow> nat) \<Rightarrow> ('b \<Rightarrow> nat) \<Rightarrow> 'a \<times> 'b \<Rightarrow> nat" where
  "tuple2_serialized_length sl1 sl2 (x1, x2) = sl1 x1 + sl2 x2"

fun tuple2_to_bytes ::
  "('a \<Rightarrow> nat) \<Rightarrow> ('b \<Rightarrow> nat) \<Rightarrow> 'a to_bytes \<Rightarrow> 'b to_bytes \<Rightarrow> ('a \<times> 'b) to_bytes" where
  "tuple2_to_bytes sl1 sl2 tb1 tb2 (x1, x2) =
     append_parts (tuple2_serialized_length sl1 sl2 (x1, x2)) [tb1 x1, tb2 x2]"

definition tuple2_from_bytes :: "'a from_bytes \<Rightarrow> 'b from_bytes \<Rightarrow> ('a \<times> 'b) from_bytes" where
  "tuple2_from_bytes fb1 fb2 bs =
     res_bind (fb1 bs) (\<lambda>(t1, remainder).
     res_bind (fb2 remainder) (\<lambda>(t2, remainder). Ok ((t1, t2), remainder)))"

fun tuple3_serialized_length ::
  "('a \<Rightarrow> nat) \<Rightarrow> ('b \<Rightarrow> nat) \<Rightarrow> ('c \<Rightarrow> nat) \<Rightarrow> 'a \<times> 'b \<times> 'c \<Rightarrow> nat" where
  "tuple3_serialized_length sl1 sl2 sl3 (x1, x2, x3) = sl1 x1 + sl2 x2 + sl3 x3"

fun tuple3_to_bytes ::
  "('a \<Rightarrow> nat) \<Rightarrow> ('b \<Rightarrow> nat) \<Rightarrow> ('c \<Rightarrow> nat) \<Rightarrow> 'a to_bytes \<Rightarrow> 'b to_bytes \<Rightarrow> 'c to_bytes \<Rightarrow>
   ('a \<times> 'b \<times> 'c) to_bytes" where
  "tuple3_to_bytes sl1 sl2 sl3 tb1 tb2 tb3 (x1, x2, x3) =
     append_parts (tuple3_serialized_length sl1 sl2 sl3 (x1, x2, x3)) [tb1 x1, tb2 x2, tb3 x3]"

definition tuple3_from_bytes ::
  "'a from_bytes \<Rightarrow> 'b from_bytes \<Rightarrow> 'c from_bytes \<Rightarrow> ('a \<times> 'b \<times> 'c) from_bytes" where
  "tuple3_from_bytes fb1 fb2 fb3 bs =
     res_bind (fb1 bs) (\<lambda>(t1, remainder).
     res_bind (fb2 remainder) (\<lambda>(t2, remainder).
     res_bind (fb3 remainder) (\<lambda>(t3, remainder). Ok ((t1, t2, t3), remainder))))"

fun tuple4_serialized_length ::
  "('a \<Rightarrow> nat) \<Rightarrow> ('b \<Rightarrow> nat) \<Rightarrow> ('c \<Rightarrow> nat) \<Rightarrow> ('d \<Rightarrow> nat) \<Rightarrow> 'a \<times> 'b \<times> 'c \<times> 'd \<Rightarrow> nat" where
  "tuple4_serialized_length sl1 sl2 sl3 sl4 (x1, x2, x3, x4) = sl1 x1 + sl2 x2 + sl3 x3 + sl4 x4"

fun tuple4_to_bytes ::
  "('a \<Rightarrow> nat) \<Rightarrow> ('b \<Rightarrow> nat) \<Rightarrow> ('c \<Rightarrow> nat) \<Rightarrow> ('d \<Rightarrow> nat) \<Rightarrow>
   'a to_bytes \<Rightarrow> 'b to_bytes \<Rightarrow> 'c to_bytes \<Rightarrow> 'd to_bytes \<Rightarrow> ('a \<times> 'b \<times> 'c \<times> 'd) to_bytes" where
  "tuple4_to_bytes sl1 sl2 sl3 sl4 tb1 tb2 tb3 tb4 (x1, x2, x3, x4) =
     append_parts (tuple4_serialized_length sl1 sl2 sl3 sl4 (x1, x2, x3, x4))
       [tb1 x1, tb2 x2, tb3 x3, tb4 x4]"

definition tuple4_from_bytes ::
  "'a from_bytes \<Rightarrow> 'b from_bytes \<Rightarrow> 'c from_bytes \<Rightarrow> 'd from_bytes \<Rightarrow>
   ('a \<times> 'b \<times> 'c \<times> 'd) from_bytes" where
  "tuple4_from_bytes fb1 fb2 fb3 fb4 bs =
     res_bind (fb1 bs) (\<lambda>(t1, remainder).
     res_bind (fb2 remainder) (\<lambda>(t2, remainder).
     res_bind (fb3 remainder) (\<lambda>(t3, remainder).
     res_bind (fb4 remainder) (\<lambda>(t4, remainder). Ok ((t1, t2, t3, t4), remainder)))))"

lemma append_items_parts:
  "append_items (\<lambda>p. p) [] acc = Ok acc"
  "append_items (\<lambda>p. p) (p # ps) acc = res_bind p (\<lambda>bs. append_items (\<lambda>p. p) ps (acc @ bs))"
  by (simp_all add: append_items_def res_bind_assoc)

lemma bytesrepr_tuple2:
  assumes "bytesrepr v1 sl1 tb1 wb1 fb1" "bytesrepr v2 sl2 tb2 wb2 fb2"
  shows "bytesrepr (\<lambda>(x1, x2). v1 x1 \<and> v2 x2) (tuple2_serialized_length sl1 sl2)
    (tuple2_to_bytes sl1 sl2 tb1 tb2) (default_write_bytes (tuple2_to_bytes sl1 sl2 tb1 tb2))
    (tuple2_from_bytes fb1 fb2)"
  using assms
  by (intro bytesrepr_default)
    (auto simp: append_parts_def append_items_parts tuple2_from_bytes_def res_simps
      bytesrepr.tb_length bytesrepr.roundtrip)

lemma bytesrepr_tuple3:
  assumes "bytesrepr v1 sl1 tb1 wb1 fb1" "bytesrepr v2 sl2 tb2 wb2 fb2" "bytesrepr v3 sl3 tb3 wb3 fb3"
  shows "bytesrepr (\<lambda>(x1, x2, x3). v1 x1 \<and> v2 x2 \<and> v3 x3) (tuple3_serialized_length sl1 sl2 sl3)
    (tuple3_to_bytes sl1 sl2 sl3 tb1 tb2 tb3)
    (default_write_bytes (tuple3_to_bytes sl1 sl2 sl3 tb1 tb2 tb3)) (tuple3_from_bytes fb1 fb2 fb3)"
  using assms
  by (intro bytesrepr_default)
    (auto simp: append_parts_def append_items_parts tuple3_from_bytes_def res_simps
      bytesrepr.tb_length bytesrepr.roundtrip)

lemma bytesrepr_tuple4:
  assumes "bytesrepr v1 sl1 tb1 wb1 fb1" "bytesrepr v2 sl2 tb2 wb2 fb2" "bytesrepr v3 sl3 tb3 wb3 fb3"
    "bytesrepr v4 sl4 tb4 wb4 fb4"
  shows "bytesrepr (\<lambda>(x1, x2, x3, x4). v1 x1 \<and> v2 x2 \<and> v3 x3 \<and> v4 x4)
    (tuple4_serialized_length sl1 sl2 sl3 sl4) (tuple4_to_bytes sl1 sl2 sl3 sl4 tb1 tb2 tb3 tb4)
    (default_write_bytes (tuple4_to_bytes sl1 sl2 sl3 sl4 tb1 tb2 tb3 tb4))
    (tuple4_from_bytes fb1 fb2 fb3 fb4)"
  using assms
  by (intro bytesrepr_default)
    (auto simp: append_parts_def append_items_parts tuple4_from_bytes_def res_simps
      bytesrepr.tb_length bytesrepr.roundtrip)

section \<open>Ratios\<close>

text \<open>
  A \<open>Ratio\<close> is its numerator and denominator; \<open>ratio_new\<close> stands for \<open>Ratio::new\<close> of the crate
  \<^verbatim>\<open>num-rational\<close>, which reduces the fraction. The values of the type are the reduced fractions.
\<close>

definition ratio_serialized_length :: "('a \<Rightarrow> nat) \<Rightarrow> 'a \<times> 'a \<Rightarrow> nat" where
  "ratio_serialized_length sl r = tuple2_serialized_length sl sl r"

definition ratio_to_bytes :: "('a::zero \<Rightarrow> nat) \<Rightarrow> 'a to_bytes \<Rightarrow> ('a \<times> 'a) to_bytes" where
  "ratio_to_bytes sl tb r = (if snd r = 0 then Err Formatting else tuple2_to_bytes sl sl tb tb r)"

definition ratio_from_bytes ::
  "('a \<Rightarrow> 'a \<Rightarrow> 'a \<times> 'a) \<Rightarrow> 'a::zero from_bytes \<Rightarrow> ('a \<times> 'a) from_bytes" where
  "ratio_from_bytes ratio_new fb bs =
     res_bind (tuple2_from_bytes fb fb bs) (\<lambda>((numer, denom), rem).
     if denom = 0 then Err Formatting else Ok (ratio_new numer denom, rem))"

lemma bytesrepr_ratio:
  assumes "bytesrepr v sl tb wb fb"
  shows "bytesrepr (\<lambda>r. v (fst r) \<and> v (snd r) \<and> ratio_new (fst r) (snd r) = r)
    (ratio_serialized_length sl) (ratio_to_bytes sl tb) (default_write_bytes (ratio_to_bytes sl tb))
    (ratio_from_bytes ratio_new fb)"
proof (rule bytesrepr_default, goal_cases)
  note pair = bytesrepr_tuple2 [OF assms assms]
  case (1 r bs)
  then show ?case
    using bytesrepr.tb_length [OF pair, of r bs]
    by (cases r) (auto simp: ratio_to_bytes_def ratio_serialized_length_def split: if_splits)
next
  note pair = bytesrepr_tuple2 [OF assms assms]
  case (2 r bs rest)
  then show ?case
    using bytesrepr.roundtrip [OF pair, of r bs rest]
    by (cases r) (auto simp: ratio_to_bytes_def ratio_from_bytes_def split: if_splits)
qed

section \<open>Properties\<close>

text \<open>Whatever \<open>to_bytes\<close> writes for a \<open>Vec\<close> of values of a well-behaved type, \<open>from_bytes\<close> reads
  back, leaving the following bytes; \<open>serialized_length\<close> is the number of bytes written and
  \<open>write_bytes\<close> appends the same bytes. The allocator may refuse memory, but not the capacity of the
  vector to be returned.\<close>
lemma vec_roundtrip:
  assumes "bytesrepr valid sl tb wb fb" "\<forall>x\<in>set xs. valid x"
    and "capacity_granted alloc elem_size align (length xs)"
    and "vec_to_bytes alloc' sl tb xs = Ok bs"
  shows "vec_from_bytes alloc elem_size align fb (bs @ rest) = Ok (xs, rest) \<and>
    length bs = iterator_serialized_length sl xs \<and> vec_write_bytes wb xs w = Ok (w @ bs)"
proof -
  note vec = bytesrepr_vec [OF assms(1), where alloc = alloc and es = elem_size and al = align]
  show ?thesis
    using bytesrepr.roundtrip [OF vec _ assms(4)] bytesrepr.tb_length [OF vec _ assms(4)]
      bytesrepr.tb_write [OF vec _ assms(4)] assms(2,3) by simp
qed

text \<open>C22: the same for a \<open>BTreeMap\<close>, an ordered association list without duplicate keys: reading the
  entries back by repeated insertion gives the map that was written.\<close>
theorem btreemap_roundtrip:
  assumes "bytesrepr kv ksl ktb kwb kfb" "bytesrepr vv vsl vtb vwb vfb"
    and "\<forall>(k, v)\<in>set m. kv k \<and> vv v" "sorted_wrt (<) (map fst m)"
    and "btreemap_to_bytes ksl vsl ktb vtb m = Ok bs"
  shows "btreemap_from_bytes kfb vfb (bs @ rest) = Ok (m, rest) \<and>
    length bs = btreemap_serialized_length ksl vsl m \<and> btreemap_write_bytes kwb vwb m w = Ok (w @ bs)"
proof -
  note m = bytesrepr_btreemap [OF assms(1,2)]
  show ?thesis
    using bytesrepr.roundtrip [OF m _ assms(5)] bytesrepr.tb_length [OF m _ assms(5)]
      bytesrepr.tb_write [OF m _ assms(5)] assms(3,4) by simp
qed

theorem btreemap_roundtrip_witness:
  "btreemap_from_bytes u8_from_bytes bool_from_bytes ([2, 0, 0, 0, 3, 1, 8, 0] @ []) = Ok ([(3, True), (8, False)], []) \<and>
    length [2, 0, 0, 0, 3, 1, 8, 0 :: u8] =
      btreemap_serialized_length u8_serialized_length bool_serialized_length [(3, True), (8, False)] \<and>
    btreemap_write_bytes u8_write_bytes bool_write_bytes [(3, True), (8, False)] [5] =
      Ok ([5] @ [2, 0, 0, 0, 3, 1, 8, 0])"
proof (rule btreemap_roundtrip)
  show "bytesrepr (\<lambda>_. True) u8_serialized_length u8_to_bytes u8_write_bytes u8_from_bytes"
    by (rule u8_repr.bytesrepr_axioms)
  show "bytesrepr (\<lambda>_. True) bool_serialized_length bool_to_bytes bool_write_bytes bool_from_bytes"
    by (rule bool_repr.bytesrepr_axioms)
  show "btreemap_to_bytes u8_serialized_length bool_serialized_length u8_to_bytes bool_to_bytes
      [(3, True), (8, False)] = Ok [2, 0, 0, 0, 3, 1, 8, 0]"
    by (simp add: btreemap_to_bytes_def btreemap_serialized_length_def allocate_buffer_def
      u32_try_from_def u32_max_def append_items_def u32_to_bytes_def u8_to_bytes_def bool_to_bytes_def
      u8_serialized_length_def bool_serialized_length_def entry_to_bytes_def le_to_bytes_def
      to_le_bytes_def nat_to_le_numeral)
qed simp_all

end
