(* ===== verification/Bytesrepr_Tuples.thy ===== *)
theory Bytesrepr_Tuples
  imports Bytesrepr
begin

text \<open>
  The tuples of five to ten components of \<^verbatim>\<open>types/src/bytesrepr.rs\<close>, one group of definitions per
  arity as in the source, and for each arity the lemma that it satisfies the contract
  \<open>bytesrepr\<close> whenever its components do.
\<close>
section \<open>Arity 5\<close>

fun tuple5_serialized_length ::
  "('a \<Rightarrow> nat) \<Rightarrow> ('b \<Rightarrow> nat) \<Rightarrow> ('c \<Rightarrow> nat) \<Rightarrow> ('d \<Rightarrow> nat) \<Rightarrow> ('e \<Rightarrow> nat) \<Rightarrow>
   'a \<times> 'b \<times> 'c \<times> 'd \<times> 'e \<Rightarrow> nat" where
  "tuple5_serialized_length sl1 sl2 sl3 sl4 sl5
     (x1, x2, x3, x4, x5) =
     sl1 x1 + sl2 x2 + sl3 x3 + sl4 x4 + sl5 x5"

fun tuple5_to_bytes ::
  "('a \<Rightarrow> nat) \<Rightarrow> ('b \<Rightarrow> nat) \<Rightarrow> ('c \<Rightarrow> nat) \<Rightarrow> ('d \<Rightarrow> nat) \<Rightarrow> ('e \<Rightarrow> nat) \<Rightarrow>
   'a to_bytes \<Rightarrow> 'b to_bytes \<Rightarrow> 'c to_bytes \<Rightarrow> 'd to_bytes \<Rightarrow> 'e to_bytes \<Rightarrow>
   ('a \<times> 'b \<times> 'c \<times> 'd \<times> 'e) to_bytes" where
  "tuple5_to_bytes sl1 sl2 sl3 sl4 sl5
     tb1 tb2 tb3 tb4 tb5
     (x1, x2, x3, x4, x5) =
     append_parts (tuple5_serialized_length sl1 sl2 sl3 sl4 sl5
         (x1, x2, x3, x4, x5))
       [tb1 x1, tb2 x2, tb3 x3, tb4 x4, tb5 x5]"

definition tuple5_from_bytes ::
  "'a from_bytes \<Rightarrow> 'b from_bytes \<Rightarrow> 'c from_bytes \<Rightarrow> 'd from_bytes \<Rightarrow> 'e from_bytes \<Rightarrow>
   ('a \<times> 'b \<times> 'c \<times> 'd \<times> 'e) from_bytes" where
  "tuple5_from_bytes fb1 fb2 fb3 fb4 fb5 bs =
     res_bind (fb1 bs) (\<lambda>(t1, remainder).
     res_bind (fb2 remainder) (\<lambda>(t2, remainder).
     res_bind (fb3 remainder) (\<lambda>(t3, remainder).
     res_bind (fb4 remainder) (\<lambda>(t4, remainder).
     res_bind (fb5 remainder) (\<lambda>(t5, remainder).
     Ok ((t1, t2, t3, t4, t5), remainder))))))"

lemma bytesrepr_tuple5:
  assumes "bytesrepr v1 sl1 tb1 wb1 fb1"
    "bytesrepr v2 sl2 tb2 wb2 fb2"
    "bytesrepr v3 sl3 tb3 wb3 fb3"
    "bytesrepr v4 sl4 tb4 wb4 fb4"
    "bytesrepr v5 sl5 tb5 wb5 fb5"
  shows "bytesrepr (\<lambda>(x1, x2, x3, x4, x5).
      v1 x1 \<and> v2 x2 \<and> v3 x3 \<and> v4 x4 \<and> v5 x5)
    (tuple5_serialized_length sl1 sl2 sl3 sl4 sl5)
    (tuple5_to_bytes sl1 sl2 sl3 sl4 sl5
      tb1 tb2 tb3 tb4 tb5)
    (default_write_bytes (tuple5_to_bytes sl1 sl2 sl3 sl4 sl5
      tb1 tb2 tb3 tb4 tb5))
    (tuple5_from_bytes fb1 fb2 fb3 fb4 fb5)"
  using assms
  by (intro bytesrepr_default)
    (auto simp: append_parts_def append_items_parts tuple5_from_bytes_def res_simps
      bytesrepr.tb_length bytesrepr.roundtrip)

section \<open>Arity 6\<close>

fun tuple6_serialized_length ::
  "('a \<Rightarrow> nat) \<Rightarrow> ('b \<Rightarrow> nat) \<Rightarrow> ('c \<Rightarrow> nat) \<Rightarrow> ('d \<Rightarrow> nat) \<Rightarrow> ('e \<Rightarrow> nat) \<Rightarrow> ('f \<Rightarrow> nat) \<Rightarrow>
   'a \<times> 'b \<times> 'c \<times> 'd \<times> 'e \<times> 'f \<Rightarrow> nat" where
  "tuple6_serialized_length sl1 sl2 sl3 sl4 sl5 sl6
     (x1, x2, x3, x4, x5, x6) =
     sl1 x1 + sl2 x2 + sl3 x3 + sl4 x4 + sl5 x5 + sl6 x6"

fun tuple6_to_bytes ::
  "('a \<Rightarrow> nat) \<Rightarrow> ('b \<Rightarrow> nat) \<Rightarrow> ('c \<Rightarrow> nat) \<Rightarrow> ('d \<Rightarrow> nat) \<Rightarrow> ('e \<Rightarrow> nat) \<Rightarrow> ('f \<Rightarrow> nat) \<Rightarrow>
   'a to_bytes \<Rightarrow> 'b to_bytes \<Rightarrow> 'c to_bytes \<Rightarrow> 'd to_bytes \<Rightarrow> 'e to_bytes \<Rightarrow> 'f to_bytes \<Rightarrow>
   ('a \<times> 'b \<times> 'c \<times> 'd \<times> 'e \<times> 'f) to_bytes" where
  "tuple6_to_bytes sl1 sl2 sl3 sl4 sl5 sl6
     tb1 tb2 tb3 tb4 tb5 tb6
     (x1, x2, x3, x4, x5, x6) =
     append_parts (tuple6_serialized_length sl1 sl2 sl3 sl4 sl5 sl6
         (x1, x2, x3, x4, x5, x6))
       [tb1 x1, tb2 x2, tb3 x3, tb4 x4, tb5 x5, tb6 x6]"

definition tuple6_from_bytes ::
  "'a from_bytes \<Rightarrow> 'b from_bytes \<Rightarrow> 'c from_bytes \<Rightarrow> 'd from_bytes \<Rightarrow> 'e from_bytes \<Rightarrow> 'f from_bytes \<Rightarrow>
   ('a \<times> 'b \<times> 'c \<times> 'd \<times> 'e \<times> 'f) from_bytes" where
  "tuple6_from_bytes fb1 fb2 fb3 fb4 fb5 fb6 bs =
     res_bind (fb1 bs) (\<lambda>(t1, remainder).
     res_bind (fb2 remainder) (\<lambda>(t2, remainder).
     res_bind (fb3 remainder) (\<lambda>(t3, remainder).
     res_bind (fb4 remainder) (\<lambda>(t4, remainder).
     res_bind (fb5 remainder) (\<lambda>(t5, remainder).
     res_bind (fb6 remainder) (\<lambda>(t6, remainder).
     Ok ((t1, t2, t3, t4, t5, t6), remainder)))))))"

lemma bytesrepr_tuple6:
  assumes "bytesrepr v1 sl1 tb1 wb1 fb1"
    "bytesrepr v2 sl2 tb2 wb2 fb2"
    "bytesrepr v3 sl3 tb3 wb3 fb3"
    "bytesrepr v4 sl4 tb4 wb4 fb4"
    "bytesrepr v5 sl5 tb5 wb5 fb5"
    "bytesrepr v6 sl6 tb6 wb6 fb6"
  shows "bytesrepr (\<lambda>(x1, x2, x3, x4, x5, x6).
      v1 x1 \<and> v2 x2 \<and> v3 x3 \<and> v4 x4 \<and> v5 x5 \<and> v6 x6)
    (tuple6_serialized_length sl1 sl2 sl3 sl4 sl5 sl6)
    (tuple6_to_bytes sl1 sl2 sl3 sl4 sl5 sl6
      tb1 tb2 tb3 tb4 tb5 tb6)
    (default_write_bytes (tuple6_to_bytes sl1 sl2 sl3 sl4 sl5 sl6
      tb1 tb2 tb3 tb4 tb5 tb6))
    (tuple6_from_bytes fb1 fb2 fb3 fb4 fb5 fb6)"
  using assms
  by (intro bytesrepr_default)
    (auto simp: append_parts_def append_items_parts tuple6_from_bytes_def res_simps
      bytesrepr.tb_length bytesrepr.roundtrip)

section \<open>Arity 7\<close>

fun tuple7_serialized_length ::
  "('a \<Rightarrow> nat) \<Rightarrow> ('b \<Rightarrow> nat) \<Rightarrow> ('c \<Rightarrow> nat) \<Rightarrow> ('d \<Rightarrow> nat) \<Rightarrow> ('e \<Rightarrow> nat) \<Rightarrow> ('f \<Rightarrow> nat) \<Rightarrow> ('g \<Rightarrow> nat) \<Rightarrow>
   'a \<times> 'b \<times> 'c \<times> 'd \<times> 'e \<times> 'f \<times> 'g \<Rightarrow> nat" where
  "tuple7_serialized_length sl1 sl2 sl3 sl4 sl5 sl6 sl7
     (x1, x2, x3, x4, x5, x6, x7) =
     sl1 x1 + sl2 x2 + sl3 x3 + sl4 x4 + sl5 x5 + sl6 x6 + sl7 x7"

fun tuple7_to_bytes ::
  "('a \<Rightarrow> nat) \<Rightarrow> ('b \<Rightarrow> nat) \<Rightarrow> ('c \<Rightarrow> nat) \<Rightarrow> ('d \<Rightarrow> nat) \<Rightarrow> ('e \<Rightarrow> nat) \<Rightarrow> ('f \<Rightarrow> nat) \<Rightarrow> ('g \<Rightarrow> nat) \<Rightarrow>
   'a to_bytes \<Rightarrow> 'b to_bytes \<Rightarrow> 'c to_bytes \<Rightarrow> 'd to_bytes \<Rightarrow> 'e to_bytes \<Rightarrow> 'f to_bytes \<Rightarrow> 'g to_bytes \<Rightarrow>
   ('a \<times> 'b \<times> 'c \<times> 'd \<times> 'e \<times> 'f \<times> 'g) to_bytes" where
  "tuple7_to_bytes sl1 sl2 sl3 sl4 sl5 sl6 sl7
     tb1 tb2 tb3 tb4 tb5 tb6 tb7
     (x1, x2, x3, x4, x5, x6, x7) =
     append_parts (tuple7_serialized_length sl1 sl2 sl3 sl4 sl5 sl6 sl7
         (x1, x2, x3, x4, x5, x6, x7))
       [tb1 x1, tb2 x2, tb3 x3, tb4 x4, tb5 x5, tb6 x6, tb7 x7]"

definition tuple7_from_bytes ::
  "'a from_bytes \<Rightarrow> 'b from_bytes \<Rightarrow> 'c from_bytes \<Rightarrow> 'd from_bytes \<Rightarrow> 'e from_bytes \<Rightarrow> 'f from_bytes \<Rightarrow> 'g from_bytes \<Rightarrow>
   ('a \<times> 'b \<times> 'c \<times> 'd \<times> 'e \<times> 'f \<times> 'g) from_bytes" where
  "tuple7_from_bytes fb1 fb2 fb3 fb4 fb5 fb6 fb7 bs =
     res_bind (fb1 bs) (\<lambda>(t1, remainder).
     res_bind (fb2 remainder) (\<lambda>(t2, remainder).
     res_bind (fb3 remainder) (\<lambda>(t3, remainder).
     res_bind (fb4 remainder) (\<lambda>(t4, remainder).
     res_bind (fb5 remainder) (\<lambda>(t5, remainder).
     res_bind (fb6 remainder) (\<lambda>(t6, remainder).
     res_bind (fb7 remainder) (\<lambda>(t7, remainder).
     Ok ((t1, t2, t3, t4, t5, t6, t7), remainder))))))))"

lemma bytesrepr_tuple7:
  assumes "bytesrepr v1 sl1 tb1 wb1 fb1"
    "bytesrepr v2 sl2 tb2 wb2 fb2"
    "bytesrepr v3 sl3 tb3 wb3 fb3"
    "bytesrepr v4 sl4 tb4 wb4 fb4"
    "bytesrepr v5 sl5 tb5 wb5 fb5"
    "bytesrepr v6 sl6 tb6 wb6 fb6"
    "bytesrepr v7 sl7 tb7 wb7 fb7"
  shows "bytesrepr (\<lambda>(x1, x2, x3, x4, x5, x6, x7).
      v1 x1 \<and> v2 x2 \<and> v3 x3 \<and> v4 x4 \<and> v5 x5 \<and> v6 x6 \<and> v7 x7)
    (tuple7_serialized_length sl1 sl2 sl3 sl4 sl5 sl6 sl7)
    (tuple7_to_bytes sl1 sl2 sl3 sl4 sl5 sl6 sl7
      tb1 tb2 tb3 tb4 tb5 tb6 tb7)
    (default_write_bytes (tuple7_to_bytes sl1 sl2 sl3 sl4 sl5 sl6 sl7
      tb1 tb2 tb3 tb4 tb5 tb6 tb7))
    (tuple7_from_bytes fb1 fb2 fb3 fb4 fb5 fb6 fb7)"
  using assms
  by (intro bytesrepr_default)
    (auto simp: append_parts_def append_items_parts tuple7_from_bytes_def res_simps
      bytesrepr.tb_length bytesrepr.roundtrip)

section \<open>Arity 8\<close>

fun tuple8_serialized_length ::
  "('a \<Rightarrow> nat) \<Rightarrow> ('b \<Rightarrow> nat) \<Rightarrow> ('c \<Rightarrow> nat) \<Rightarrow> ('d \<Rightarrow> nat) \<Rightarrow> ('e \<Rightarrow> nat) \<Rightarrow> ('f \<Rightarrow> nat) \<Rightarrow> ('g \<Rightarrow> nat) \<Rightarrow> ('h \<Rightarrow> nat) \<Rightarrow>
   'a \<times> 'b \<times> 'c \<times> 'd \<times> 'e \<times> 'f \<times> 'g \<times> 'h \<Rightarrow> nat" where
  "tuple8_serialized_length sl1 sl2 sl3 sl4 sl5 sl6 sl7 sl8
     (x1, x2, x3, x4, x5, x6, x7, x8) =
     sl1 x1 + sl2 x2 + sl3 x3 + sl4 x4 + sl5 x5 + sl6 x6 + sl7 x7 + sl8 x8"

fun tuple8_to_bytes ::
  "('a \<Rightarrow> nat) \<Rightarrow> ('b \<Rightarrow> nat) \<Rightarrow> ('c \<Rightarrow> nat) \<Rightarrow> ('d \<Rightarrow> nat) \<Rightarrow> ('e \<Rightarrow> nat) \<Rightarrow> ('f \<Rightarrow> nat) \<Rightarrow> ('g \<Rightarrow> nat) \<Rightarrow> ('h \<Rightarrow> nat) \<Rightarrow>
   'a to_bytes \<Rightarrow> 'b to_bytes \<Rightarrow> 'c to_bytes \<Rightarrow> 'd to_bytes \<Rightarrow> 'e to_bytes \<Rightarrow> 'f to_bytes \<Rightarrow> 'g to_bytes \<Rightarrow> 'h to_bytes \<Rightarrow>
   ('a \<times> 'b \<times> 'c \<times> 'd \<times> 'e \<times> 'f \<times> 'g \<times> 'h) to_bytes" where
  "tuple8_to_bytes sl1 sl2 sl3 sl4 sl5 sl6 sl7 sl8
     tb1 tb2 tb3 tb4 tb5 tb6 tb7 tb8
     (x1, x2, x3, x4, x5, x6, x7, x8) =
     append_parts (tuple8_serialized_length sl1 sl2 sl3 sl4 sl5 sl6 sl7 sl8
         (x1, x2, x3, x4, x5, x6, x7, x8))
       [tb1 x1, tb2 x2, tb3 x3, tb4 x4, tb5 x5, tb6 x6, tb7 x7, tb8 x8]"

definition tuple8_from_bytes ::
  "'a from_bytes \<Rightarrow> 'b from_bytes \<Rightarrow> 'c from_bytes \<Rightarrow> 'd from_bytes \<Rightarrow> 'e from_bytes \<Rightarrow> 'f from_bytes \<Rightarrow> 'g from_bytes \<Rightarrow> 'h from_bytes \<Rightarrow>
   ('a \<times> 'b \<times> 'c \<times> 'd \<times> 'e \<times> 'f \<times> 'g \<times> 'h) from_bytes" where
  "tuple8_from_bytes fb1 fb2 fb3 fb4 fb5 fb6 fb7 fb8 bs =
     res_bind (fb1 bs) (\<lambda>(t1, remainder).
     res_bind (fb2 remainder) (\<lambda>(t2, remainder).
     res_bind (fb3 remainder) (\<lambda>(t3, remainder).
     res_bind (fb4 remainder) (\<lambda>(t4, remainder).
     res_bind (fb5 remainder) (\<lambda>(t5, remainder).
     res_bind (fb6 remainder) (\<lambda>(t6, remainder).
     res_bind (fb7 remainder) (\<lambda>(t7, remainder).
     res_bind (fb8 remainder) (\<lambda>(t8, remainder).
     Ok ((t1, t2, t3, t4, t5, t6, t7, t8), remainder)))))))))"

lemma bytesrepr_tuple8:
  assumes "bytesrepr v1 sl1 tb1 wb1 fb1"
    "bytesrepr v2 sl2 tb2 wb2 fb2"
    "bytesrepr v3 sl3 tb3 wb3 fb3"
    "bytesrepr v4 sl4 tb4 wb4 fb4"
    "bytesrepr v5 sl5 tb5 wb5 fb5"
    "bytesrepr v6 sl6 tb6 wb6 fb6"
    "bytesrepr v7 sl7 tb7 wb7 fb7"
    "bytesrepr v8 sl8 tb8 wb8 fb8"
  shows "bytesrepr (\<lambda>(x1, x2, x3, x4, x5, x6, x7, x8).
      v1 x1 \<and> v2 x2 \<and> v3 x3 \<and> v4 x4 \<and> v5 x5 \<and> v6 x6 \<and> v7 x7 \<and> v8 x8)
    (tuple8_serialized_length sl1 sl2 sl3 sl4 sl5 sl6 sl7 sl8)
    (tuple8_to_bytes sl1 sl2 sl3 sl4 sl5 sl6 sl7 sl8
      tb1 tb2 tb3 tb4 tb5 tb6 tb7 tb8)
    (default_write_bytes (tuple8_to_bytes sl1 sl2 sl3 sl4 sl5 sl6 sl7 sl8
      tb1 tb2 tb3 tb4 tb5 tb6 tb7 tb8))
    (tuple8_from_bytes fb1 fb2 fb3 fb4 fb5 fb6 fb7 fb8)"
  using assms
  by (intro bytesrepr_default)
    (auto simp: append_parts_def append_items_parts tuple8_from_bytes_def res_simps
      bytesrepr.tb_length bytesrepr.roundtrip)

section \<open>Arity 9\<close>

fun tuple9_serialized_length ::
  "('a \<Rightarrow> nat) \<Rightarrow> ('b \<Rightarrow> nat) \<Rightarrow> ('c \<Rightarrow> nat) \<Rightarrow> ('d \<Rightarrow> nat) \<Rightarrow> ('e \<Rightarrow> nat) \<Rightarrow> ('f \<Rightarrow> nat) \<Rightarrow> ('g \<Rightarrow> nat) \<Rightarrow> ('h \<Rightarrow> nat) \<Rightarrow> ('i \<Rightarrow> nat) \<Rightarrow>
   'a \<times> 'b \<times> 'c \<times> 'd \<times> 'e \<times> 'f \<times> 'g \<times> 'h \<times> 'i \<Rightarrow> nat" where
  "tuple9_serialized_length sl1 sl2 sl3 sl4 sl5 sl6 sl7 sl8 sl9
     (x1, x2, x3, x4, x5, x6, x7, x8, x9) =
     sl1 x1 + sl2 x2 + sl3 x3 + sl4 x4 + sl5 x5 + sl6 x6 + sl7 x7 + sl8 x8 + sl9 x9"

fun tuple9_to_bytes ::
  "('a \<Rightarrow> nat) \<Rightarrow> ('b \<Rightarrow> nat) \<Rightarrow> ('c \<Rightarrow> nat) \<Rightarrow> ('d \<Rightarrow> nat) \<Rightarrow> ('e \<Rightarrow> nat) \<Rightarrow> ('f \<Rightarrow> nat) \<Rightarrow> ('g \<Rightarrow> nat) \<Rightarrow> ('h \<Rightarrow> nat) \<Rightarrow> ('i \<Rightarrow> nat) \<Rightarrow>
   'a to_bytes \<Rightarrow> 'b to_bytes \<Rightarrow> 'c to_bytes \<Rightarrow> 'd to_bytes \<Rightarrow> 'e to_bytes \<Rightarrow> 'f to_bytes \<Rightarrow> 'g to_bytes \<Rightarrow> 'h to_bytes \<Rightarrow> 'i to_bytes \<Rightarrow>
   ('a \<times> 'b \<times> 'c \<times> 'd \<times> 'e \<times> 'f \<times> 'g \<times> 'h \<times> 'i) to_bytes" where
  "tuple9_to_bytes sl1 sl2 sl3 sl4 sl5 sl6 sl7 sl8 sl9
     tb1 tb2 tb3 tb4 tb5 tb6 tb7 tb8 tb9
     (x1, x2, x3, x4, x5, x6, x7, x8, x9) =
     append_parts (tuple9_serialized_length sl1 sl2 sl3 sl4 sl5 sl6 sl7 sl8 sl9
         (x1, x2, x3, x4, x5, x6, x7, x8, x9))
       [tb1 x1, tb2 x2, tb3 x3, tb4 x4, tb5 x5, tb6 x6, tb7 x7, tb8 x8, tb9 x9]"

definition tuple9_from_bytes ::
  "'a from_bytes \<Rightarrow> 'b from_bytes \<Rightarrow> 'c from_bytes \<Rightarrow> 'd from_bytes \<Rightarrow> 'e from_bytes \<Rightarrow> 'f from_bytes \<Rightarrow> 'g from_bytes \<Rightarrow> 'h from_bytes \<Rightarrow> 'i from_bytes \<Rightarrow>
   ('a \<times> 'b \<times> 'c \<times> 'd \<times> 'e \<times> 'f \<times> 'g \<times> 'h \<times> 'i) from_bytes" where
  "tuple9_from_bytes fb1 fb2 fb3 fb4 fb5 fb6 fb7 fb8 fb9 bs =
     res_bind (fb1 bs) (\<lambda>(t1, remainder).
     res_bind (fb2 remainder) (\<lambda>(t2, remainder).
     res_bind (fb3 remainder) (\<lambda>(t3, remainder).
     res_bind (fb4 remainder) (\<lambda>(t4, remainder).
     res_bind (fb5 remainder) (\<lambda>(t5, remainder).
     res_bind (fb6 remainder) (\<lambda>(t6, remainder).
     res_bind (fb7 remainder) (\<lambda>(t7, remainder).
     res_bind (fb8 remainder) (\<lambda>(t8, remainder).
     res_bind (fb9 remainder) (\<lambda>(t9, remainder).
     Ok ((t1, t2, t3, t4, t5, t6, t7, t8, t9), remainder))))))))))"

lemma bytesrepr_tuple9:
  assumes "bytesrepr v1 sl1 tb1 wb1 fb1"
    "bytesrepr v2 sl2 tb2 wb2 fb2"
    "bytesrepr v3 sl3 tb3 wb3 fb3"
    "bytesrepr v4 sl4 tb4 wb4 fb4"
    "bytesrepr v5 sl5 tb5 wb5 fb5"
    "bytesrepr v6 sl6 tb6 wb6 fb6"
    "bytesrepr v7 sl7 tb7 wb7 fb7"
    "bytesrepr v8 sl8 tb8 wb8 fb8"
    "bytesrepr v9 sl9 tb9 wb9 fb9"
  shows "bytesrepr (\<lambda>(x1, x2, x3, x4, x5, x6, x7, x8, x9).
      v1 x1 \<and> v2 x2 \<and> v3 x3 \<and> v4 x4 \<and> v5 x5 \<and> v6 x6 \<and> v7 x7 \<and> v8 x8 \<and> v9 x9)
    (tuple9_serialized_length sl1 sl2 sl3 sl4 sl5 sl6 sl7 sl8 sl9)
    (tuple9_to_bytes sl1 sl2 sl3 sl4 sl5 sl6 sl7 sl8 sl9
      tb1 tb2 tb3 tb4 tb5 tb6 tb7 tb8 tb9)
    (default_write_bytes (tuple9_to_bytes sl1 sl2 sl3 sl4 sl5 sl6 sl7 sl8 sl9
      tb1 tb2 tb3 tb4 tb5 tb6 tb7 tb8 tb9))
    (tuple9_from_bytes fb1 fb2 fb3 fb4 fb5 fb6 fb7 fb8 fb9)"
  using assms
  by (intro bytesrepr_default)
    (auto simp: append_parts_def append_items_parts tuple9_from_bytes_def res_simps
      bytesrepr.tb_length bytesrepr.roundtrip)

section \<open>Arity 10\<close>

fun tuple10_serialized_length ::
  "('a \<Rightarrow> nat) \<Rightarrow> ('b \<Rightarrow> nat) \<Rightarrow> ('c \<Rightarrow> nat) \<Rightarrow> ('d \<Rightarrow> nat) \<Rightarrow> ('e \<Rightarrow> nat) \<Rightarrow> ('f \<Rightarrow> nat) \<Rightarrow> ('g \<Rightarrow> nat) \<Rightarrow> ('h \<Rightarrow> nat) \<Rightarrow> ('i \<Rightarrow> nat) \<Rightarrow> ('j \<Rightarrow> nat) \<Rightarrow>
   'a \<times> 'b \<times> 'c \<times> 'd \<times> 'e \<times> 'f \<times> 'g \<times> 'h \<times> 'i \<times> 'j \<Rightarrow> nat" where
  "tuple10_serialized_length sl1 sl2 sl3 sl4 sl5 sl6 sl7 sl8 sl9 sl10
     (x1, x2, x3, x4, x5, x6, x7, x8, x9, x10) =
     sl1 x1 + sl2 x2 + sl3 x3 + sl4 x4 + sl5 x5 + sl6 x6 + sl7 x7 + sl8 x8 + sl9 x9 + sl10 x10"

fun tuple10_to_bytes ::
  "('a \<Rightarrow> nat) \<Rightarrow> ('b \<Rightarrow> nat) \<Rightarrow> ('c \<Rightarrow> nat) \<Rightarrow> ('d \<Rightarrow> nat) \<Rightarrow> ('e \<Rightarrow> nat) \<Rightarrow> ('f \<Rightarrow> nat) \<Rightarrow> ('g \<Rightarrow> nat) \<Rightarrow> ('h \<Rightarrow> nat) \<Rightarrow> ('i \<Rightarrow> nat) \<Rightarrow> ('j \<Rightarrow> nat) \<Rightarrow>
   'a to_bytes \<Rightarrow> 'b to_bytes \<Rightarrow> 'c to_bytes \<Rightarrow> 'd to_bytes \<Rightarrow> 'e to_bytes \<Rightarrow> 'f to_bytes \<Rightarrow> 'g to_bytes \<Rightarrow> 'h to_bytes \<Rightarrow> 'i to_bytes \<Rightarrow> 'j to_bytes \<Rightarrow>
   ('a \<times> 'b \<times> 'c \<times> 'd \<times> 'e \<times> 'f \<times> 'g \<times> 'h \<times> 'i \<times> 'j) to_bytes" where
  "tuple10_to_bytes sl1 sl2 sl3 sl4 sl5 sl6 sl7 sl8 sl9 sl10
     tb1 tb2 tb3 tb4 tb5 tb6 tb7 tb8 tb9 tb10
     (x1, x2, x3, x4, x5, x6, x7, x8, x9, x10) =
     append_parts (tuple10_serialized_length sl1 sl2 sl3 sl4 sl5 sl6 sl7 sl8 sl9 sl10
         (x1, x2, x3, x4, x5, x6, x7, x8, x9, x10))
       [tb1 x1, tb2 x2, tb3 x3, tb4 x4, tb5 x5, tb6 x6, tb7 x7, tb8 x8, tb9 x9, tb10 x10]"

definition tuple10_from_bytes ::
  "'a from_bytes \<Rightarrow> 'b from_bytes \<Rightarrow> 'c from_bytes \<Rightarrow> 'd from_bytes \<Rightarrow> 'e from_bytes \<Rightarrow> 'f from_bytes \<Rightarrow> 'g from_bytes \<Rightarrow> 'h from_bytes \<Rightarrow> 'i from_bytes \<Rightarrow> 'j from_bytes \<Rightarrow>
   ('a \<times> 'b \<times> 'c \<times> 'd \<times> 'e \<times> 'f \<times> 'g \<times> 'h \<times> 'i \<times> 'j) from_bytes" where
  "tuple10_from_bytes fb1 fb2 fb3 fb4 fb5 fb6 fb7 fb8 fb9 fb10 bs =
     res_bind (fb1 bs) (\<lambda>(t1, remainder).
     res_bind (fb2 remainder) (\<lambda>(t2, remainder).
     res_bind (fb3 remainder) (\<lambda>(t3, remainder).
     res_bind (fb4 remainder) (\<lambda>(t4, remainder).
     res_bind (fb5 remainder) (\<lambda>(t5, remainder).
     res_bind (fb6 remainder) (\<lambda>(t6, remainder).
     res_bind (fb7 remainder) (\<lambda>(t7, remainder).
     res_bind (fb8 remainder) (\<lambda>(t8, remainder).
     res_bind (fb9 remainder) (\<lambda>(t9, remainder).
     res_bind (fb10 remainder) (\<lambda>(t10, remainder).
     Ok ((t1, t2, t3, t4, t5, t6, t7, t8, t9, t10), remainder)))))))))))"

lemma bytesrepr_tuple10:
  assumes "bytesrepr v1 sl1 tb1 wb1 fb1"
    "bytesrepr v2 sl2 tb2 wb2 fb2"
    "bytesrepr v3 sl3 tb3 wb3 fb3"
    "bytesrepr v4 sl4 tb4 wb4 fb4"
    "bytesrepr v5 sl5 tb5 wb5 fb5"
    "bytesrepr v6 sl6 tb6 wb6 fb6"
    "bytesrepr v7 sl7 tb7 wb7 fb7"
    "bytesrepr v8 sl8 tb8 wb8 fb8"
    "bytesrepr v9 sl9 tb9 wb9 fb9"
    "bytesrepr v10 sl10 tb10 wb10 fb10"
  shows "bytesrepr (\<lambda>(x1, x2, x3, x4, x5, x6, x7, x8, x9, x10).
      v1 x1 \<and> v2 x2 \<and> v3 x3 \<and> v4 x4 \<and> v5 x5 \<and> v6 x6 \<and> v7 x7 \<and> v8 x8 \<and> v9 x9 \<and> v10 x10)
    (tuple10_serialized_length sl1 sl2 sl3 sl4 sl5 sl6 sl7 sl8 sl9 sl10)
    (tuple10_to_bytes sl1 sl2 sl3 sl4 sl5 sl6 sl7 sl8 sl9 sl10
      tb1 tb2 tb3 tb4 tb5 tb6 tb7 tb8 tb9 tb10)
    (default_write_bytes (tuple10_to_bytes sl1 sl2 sl3 sl4 sl5 sl6 sl7 sl8 sl9 sl10
      tb1 tb2 tb3 tb4 tb5 tb6 tb7 tb8 tb9 tb10))
    (tuple10_from_bytes fb1 fb2 fb3 fb4 fb5 fb6 fb7 fb8 fb9 fb10)"
  using assms
  by (intro bytesrepr_default)
    (auto simp: append_parts_def append_items_parts tuple10_from_bytes_def res_simps
      bytesrepr.tb_length bytesrepr.roundtrip)

end
