(* ===== verification/Uint.thy ===== *)
theory Uint
  imports Bytesrepr
begin

unbundle bit_operations_syntax

text \<open>
  The big integers \<open>U128\<close>, \<open>U256\<close> and \<open>U512\<close> of \<^verbatim>\<open>types/src/uint.rs\<close>, words of 128, 256 and 512
  bits. The source instantiates one macro, \<open>impl_traits_for_uint\<close>, for the three types; here the
  same code is polymorphic in the word length, with the number \<open>total_bytes\<close> of bytes of the type
  as the macro's argument. Modelled are the serialisation (a length byte and the little-endian
  bytes without leading zeros) and \<open>gcd\<close>, \<open>lcm\<close>, \<open>gcd_lcm\<close> of the trait \<open>Integer\<close>, with Stein's
  algorithm as a loop that may run forever (\<open>None\<close>).
\<close>

section \<open>Serialisation\<close>

definition non_zero_bytes :: "nat \<Rightarrow> 'a::len word \<Rightarrow> bytes" where
  "non_zero_bytes total_bytes x = dropWhile (\<lambda>b. b = 0) (rev (to_le_bytes total_bytes x))"

definition uint_to_bytes :: "nat \<Rightarrow> 'a::len word to_bytes" where
  "uint_to_bytes total_bytes x =
     (let nz = non_zero_bytes total_bytes x; num_bytes = word_of_nat (length nz)
      in Ok (rev (nz @ [num_bytes])))"

definition uint_serialized_length :: "nat \<Rightarrow> 'a::len word \<Rightarrow> nat" where
  "uint_serialized_length total_bytes x = 1 + length (non_zero_bytes total_bytes x)"

definition uint_from_bytes :: "nat \<Rightarrow> 'a::len word from_bytes" where
  "uint_from_bytes total_bytes bs =
     res_bind (u8_from_bytes bs) (\<lambda>(num_bytes, rem).
     if unat num_bytes > total_bytes then Err Formatting
     else res_bind (safe_split_at rem (unat num_bytes)) (\<lambda>(value, rem).
       Ok (from_le_bytes value, rem)))"

lemma le_to_nat_append: "le_to_nat (xs @ ys) = le_to_nat xs + 256 ^ length xs * le_to_nat ys"
  by (induction xs) (simp_all add: algebra_simps)

lemma le_to_nat_zeros: "\<forall>b\<in>set bs. b = 0 \<Longrightarrow> le_to_nat bs = 0"
  by (induction bs) auto

lemma le_to_nat_drop_high_zeros: "le_to_nat (rev (dropWhile (\<lambda>b. b = 0) (rev bs))) = le_to_nat bs"
proof -
  have "bs = rev (dropWhile (\<lambda>b. b = 0) (rev bs)) @ rev (takeWhile (\<lambda>b. b = 0) (rev bs))"
    by (metis rev_append rev_rev_ident takeWhile_dropWhile_id)
  moreover have "le_to_nat (rev (takeWhile (\<lambda>b. b = 0) (rev bs))) = 0"
    by (rule le_to_nat_zeros) (auto dest: set_takeWhileD)
  ultimately show ?thesis
    by (metis add_0_right le_to_nat_append mult_0_right)
qed

lemma length_non_zero_bytes: "length (non_zero_bytes n x) \<le> n"
  using length_dropWhile_le [of "\<lambda>b. b = 0" "rev (to_le_bytes n x)"]
  by (simp add: non_zero_bytes_def)

lemma from_le_non_zero_bytes:
  "LENGTH('a::len) = 8 * n \<Longrightarrow> from_le_bytes (rev (non_zero_bytes n x)) = (x :: 'a word)"
  using from_to_le_bytes [of n x]
  by (simp add: non_zero_bytes_def from_le_bytes_def le_to_nat_drop_high_zeros)

lemma bytesrepr_uint:
  assumes "LENGTH('a::len) = 8 * n" "n < 256"
  shows "bytesrepr (\<lambda>_. True) (uint_serialized_length n) (uint_to_bytes n :: 'a word to_bytes)
    (default_write_bytes (uint_to_bytes n)) (uint_from_bytes n)"
proof (rule bytesrepr_default, goal_cases)
  case (1 x bs)
  then show ?case by (auto simp: uint_to_bytes_def uint_serialized_length_def Let_def)
next
  case (2 x bs rest)
  have "length (non_zero_bytes n x) \<le> n" by (rule length_non_zero_bytes)
  with assms 2 show ?case
    by (auto simp: uint_to_bytes_def uint_from_bytes_def Let_def from_le_non_zero_bytes)
qed

interpretation U128_repr: bytesrepr "\<lambda>_. True" "uint_serialized_length 16"
  "uint_to_bytes 16 :: 128 word to_bytes" "default_write_bytes (uint_to_bytes 16)" "uint_from_bytes 16"
  by (rule bytesrepr_uint) simp_all

interpretation U256_repr: bytesrepr "\<lambda>_. True" "uint_serialized_length 32"
  "uint_to_bytes 32 :: 256 word to_bytes" "default_write_bytes (uint_to_bytes 32)" "uint_from_bytes 32"
  by (rule bytesrepr_uint) simp_all

interpretation U512_repr: bytesrepr "\<lambda>_. True" "uint_serialized_length 64"
  "uint_to_bytes 64 :: u512 to_bytes" "default_write_bytes (uint_to_bytes 64)" "uint_from_bytes 64"
  by (rule bytesrepr_uint) simp_all

section \<open>Greatest common divisor\<close>

text \<open>\<open>trailing_zeros\<close>: the number of low-order zero bits, the width for zero.\<close>

function ctz :: "nat \<Rightarrow> nat" where
  "ctz n = (if n = 0 \<or> odd n then 0 else Suc (ctz (n div 2)))"
  by pat_completeness auto
termination
  by (relation "measure id") auto

declare ctz.simps [simp del]

definition trailing_zeros :: "'a::len word \<Rightarrow> nat" where
  "trailing_zeros w = (if w = 0 then LENGTH('a) else ctz (unat w))"

definition shr_zeros :: "'a::len word \<Rightarrow> 'a word" where
  "shr_zeros w = drop_bit (trailing_zeros w) w"

partial_function (option) gcd_loop :: "'a::len word \<Rightarrow> 'a word \<Rightarrow> 'a word option" where
  "gcd_loop m n =
     (if m \<noteq> n then
        if m > n then gcd_loop (shr_zeros (m - n)) n else gcd_loop m (shr_zeros (n - m))
      else Some m)"

definition uint_gcd :: "'a::len word \<Rightarrow> 'a word \<Rightarrow> 'a word option" where
  "uint_gcd self other =
     (if self = 0 \<or> other = 0 then Some (self OR other)
      else let shift = trailing_zeros (self OR other)
           in map_option (push_bit shift) (gcd_loop (shr_zeros self) (shr_zeros other)))"

text \<open>
  \<open>gcd_lcm\<close> multiplies with the panicking \<open>*\<close> of the crate; \<open>None\<close> in the outer option is a loop
  that does not end, which the theorems below exclude.
\<close>

definition uint_gcd_lcm :: "'a::len word \<Rightarrow> 'a word \<Rightarrow> ('e, 'a word \<times> 'a word) result option" where
  "uint_gcd_lcm self other =
     (if self = 0 \<and> other = 0 then Some (Ok (0, 0))
      else map_option (\<lambda>g. res_bind (expect (checked_mul self (other div g))) (\<lambda>l. Ok (g, l)))
             (uint_gcd self other))"

subsection \<open>Stein's algorithm computes the greatest common divisor\<close>

lemma ctz_dvd: "2 ^ ctz n dvd n"
proof (induction n rule: ctz.induct)
  case (1 n)
  show ?case
  proof (cases "n = 0 \<or> odd n")
    case False
    from "1.IH" [OF False] have "2 * 2 ^ ctz (n div 2) dvd 2 * (n div 2)"
      by (intro mult_dvd_mono) simp_all
    with False show ?thesis by (simp add: ctz.simps [of n])
  qed (simp add: ctz.simps [of n])
qed

lemma ctz_odd: "0 < n \<Longrightarrow> odd (n div 2 ^ ctz n)"
proof (induction n rule: ctz.induct)
  case (1 n)
  show ?case
  proof (cases "odd n")
    case False
    then have "0 < n div 2" using "1.prems" by presburger
    with "1.IH" False "1.prems" have "odd (n div 2 div 2 ^ ctz (n div 2))" by blast
    with False "1.prems" show ?thesis
      by (simp add: ctz.simps [of n] div_mult2_eq)
  qed (use 1 in \<open>simp add: ctz.simps [of n]\<close>)
qed

lemma ctz_split: "0 < n \<Longrightarrow> n = 2 ^ ctz n * (n div 2 ^ ctz n)"
  using ctz_dvd [of n] by simp

lemma pow2_dvd_iff_ctz: "0 < n \<Longrightarrow> 2 ^ k dvd n \<longleftrightarrow> k \<le> ctz n"
proof
  assume n: "0 < n" and "2 ^ k dvd n"
  then have "2 ^ k dvd 2 ^ ctz n * (n div 2 ^ ctz n)"
    by (simp add: ctz_dvd)
  moreover have "coprime (2 ^ k) (n div 2 ^ ctz n)"
    using ctz_odd [OF n] by simp
  ultimately have "(2::nat) ^ k dvd 2 ^ ctz n"
    by (simp add: coprime_dvd_mult_left_iff)
  then show "k \<le> ctz n"
    by (simp add: power_dvd_imp_le)
next
  assume "k \<le> ctz n"
  then show "2 ^ k dvd n"
    by (meson ctz_dvd dvd_trans le_imp_power_dvd)
qed

lemma unat_shr_zeros: "w \<noteq> 0 \<Longrightarrow> unat (shr_zeros w) = unat w div 2 ^ ctz (unat w)"
  by (simp add: shr_zeros_def trailing_zeros_def unat_drop_bit_eq flip: drop_bit_eq_div)

lemma shr_zeros_odd: "w \<noteq> 0 \<Longrightarrow> odd (unat (shr_zeros w))"
  by (simp add: unat_shr_zeros ctz_odd unat_gt_0)

lemma shr_zeros_le: "w \<noteq> 0 \<Longrightarrow> unat (shr_zeros w) \<le> unat w"
  by (simp add: unat_shr_zeros)

lemma gcd_shr_zeros:
  assumes "w \<noteq> 0" "odd k"
  shows "gcd (unat (shr_zeros w)) k = gcd (unat w) k"
proof -
  have "gcd (2 ^ ctz (unat w) * unat (shr_zeros w)) k = gcd (unat (shr_zeros w)) k"
    by (rule gcd_mult_left_left_cancel) (use assms in simp)
  moreover have "2 ^ ctz (unat w) * unat (shr_zeros w) = unat w"
    using assms ctz_split [of "unat w"] by (simp add: unat_shr_zeros unat_gt_0)
  ultimately show ?thesis by simp
qed

lemma gcd_loop_correct:
  "odd (unat m) \<Longrightarrow> odd (unat n) \<Longrightarrow> \<exists>g. gcd_loop m n = Some g \<and> unat g = gcd (unat m) (unat n)"
proof (induction "unat m + unat n" arbitrary: m n rule: less_induct)
  case less
  consider "m = n" | "n < m" | "m < n" by fastforce
  then show ?case
  proof cases
    case 1
    have "gcd_loop m n = Some n" by (subst gcd_loop.simps) (simp add: 1)
    then show ?thesis by (simp add: 1)
  next
    case 2
    then have diff: "unat (m - n) = unat m - unat n" "unat n < unat m"
      by (simp_all add: unat_sub word_less_nat_alt word_le_nat_alt)
    then have nz: "m - n \<noteq> 0" using 2 by auto
    have "unat (shr_zeros (m - n)) < unat m"
      using shr_zeros_le [OF nz] diff odd_pos [OF less.prems(2)] by linarith
    then obtain g where "gcd_loop (shr_zeros (m - n)) n = Some g"
      "unat g = gcd (unat (shr_zeros (m - n))) (unat n)"
      using less.hyps [of "shr_zeros (m - n)" n] less.prems shr_zeros_odd [OF nz] by auto
    moreover have "gcd_loop m n = gcd_loop (shr_zeros (m - n)) n"
      by (subst gcd_loop.simps) (use 2 in auto)
    moreover have "gcd (unat (shr_zeros (m - n))) (unat n) = gcd (unat m) (unat n)"
      unfolding gcd_shr_zeros [OF nz less.prems(2)] diff(1) by (rule gcd_diff1_nat) (use diff(2) in simp)
    ultimately show ?thesis by metis
  next
    case 3
    then have diff: "unat (n - m) = unat n - unat m" "unat m < unat n"
      by (simp_all add: unat_sub word_less_nat_alt word_le_nat_alt)
    then have nz: "n - m \<noteq> 0" using 3 by auto
    have "unat (shr_zeros (n - m)) < unat n"
      using shr_zeros_le [OF nz] diff odd_pos [OF less.prems(1)] by linarith
    then obtain g where "gcd_loop m (shr_zeros (n - m)) = Some g"
      "unat g = gcd (unat m) (unat (shr_zeros (n - m)))"
      using less.hyps [of m "shr_zeros (n - m)"] less.prems shr_zeros_odd [OF nz] by auto
    moreover have "gcd_loop m n = gcd_loop m (shr_zeros (n - m))"
      by (subst gcd_loop.simps) (use 3 in auto)
    moreover have "gcd (unat (shr_zeros (n - m))) (unat m) = gcd (unat n) (unat m)"
      unfolding gcd_shr_zeros [OF nz less.prems(1)] diff(1) by (rule gcd_diff1_nat) (use diff(2) in simp)
    ultimately show ?thesis by (metis gcd.commute)
  qed
qed

lemma unat_or_nonzero: "x \<noteq> 0 \<Longrightarrow> x OR y \<noteq> (0 :: 'a::len word)"
  by (simp add: or_eq_0_iff)

lemma pow2_dvd_or: "2 ^ k dvd unat (x OR y) \<longleftrightarrow> 2 ^ k dvd unat x \<and> 2 ^ k dvd unat y"
  for x y :: "'a::len word"
proof -
  have "2 ^ k dvd unat (x OR y) \<longleftrightarrow> take_bit k (unat x OR unat y) = 0"
    by (simp only: unsigned_or_eq take_bit_eq_0_iff)
  also have "\<dots> \<longleftrightarrow> take_bit k (unat x) = 0 \<and> take_bit k (unat y) = 0"
    by (simp add: take_bit_or or_eq_0_iff)
  finally show ?thesis by (simp add: take_bit_eq_0_iff)
qed

lemma ctz_or:
  assumes "x \<noteq> 0" "y \<noteq> 0"
  shows "ctz (unat (x OR y)) = min (ctz (unat x)) (ctz (unat y))"
proof -
  have pos: "0 < unat x" "0 < unat y" "0 < unat (x OR y)"
    using assms unat_or_nonzero [of x y] by (simp_all add: unat_gt_0)
  have "k \<le> ctz (unat (x OR y)) \<longleftrightarrow> k \<le> min (ctz (unat x)) (ctz (unat y))" for k
    using pow2_dvd_or [of k x y] pos by (simp add: pow2_dvd_iff_ctz)
  then show ?thesis by (meson le_antisym le_refl)
qed

lemma gcd_split_pow2:
  assumes "odd a" "odd b"
  shows "gcd (2 ^ i * a) (2 ^ j * b) = 2 ^ min i j * gcd a (b :: nat)"
proof (cases "i \<le> j")
  case True
  then obtain k where j: "j = i + k" using le_Suc_ex by blast
  have "gcd (2 ^ i * a) (2 ^ j * b) = 2 ^ i * gcd a (2 ^ k * b)"
    by (simp add: j power_add mult.assoc gcd_mult_left)
  also have "gcd a (2 ^ k * b) = gcd a b"
    using assms by (simp add: gcd_mult_right_left_cancel)
  finally show ?thesis using True by simp
next
  case False
  then obtain k where i: "i = j + k" using le_Suc_ex [of j i] by auto
  have "gcd (2 ^ i * a) (2 ^ j * b) = 2 ^ j * gcd (2 ^ k * a) b"
    by (simp add: i power_add mult.assoc gcd_mult_left)
  also have "gcd (2 ^ k * a) b = gcd a b"
    using assms by (simp add: gcd_mult_left_left_cancel)
  finally show ?thesis using False by simp
qed

text \<open>C24: \<open>Integer::gcd\<close> of the big integers always returns, and returns the greatest common divisor.\<close>
theorem uint_gcd_correct: "\<exists>g. uint_gcd x y = Some g \<and> unat g = gcd (unat x) (unat y)"
  for x y :: "'a::len word"
proof (cases "x = 0 \<or> y = 0")
  case True
  then show ?thesis by (auto simp: uint_gcd_def)
next
  case False
  then have nz: "x \<noteq> 0" "y \<noteq> 0" by auto
  let ?s = "min (ctz (unat x)) (ctz (unat y))"
  obtain g where g: "gcd_loop (shr_zeros x) (shr_zeros y) = Some g"
      "unat g = gcd (unat (shr_zeros x)) (unat (shr_zeros y))"
    using gcd_loop_correct [of "shr_zeros x" "shr_zeros y"] shr_zeros_odd nz by blast
  have "unat x = 2 ^ ctz (unat x) * unat (shr_zeros x)" "unat y = 2 ^ ctz (unat y) * unat (shr_zeros y)"
    using nz ctz_split [of "unat x"] ctz_split [of "unat y"] by (simp_all add: unat_shr_zeros unat_gt_0)
  then have eq: "gcd (unat x) (unat y) = 2 ^ ?s * unat g"
    using gcd_split_pow2 shr_zeros_odd nz g(2) by metis
  have "gcd (unat x) (unat y) \<le> unat x" using nz by (simp add: unat_gt_0 gcd_le1_nat)
  then have "2 ^ ?s * unat g < 2 ^ LENGTH('a)"
    unfolding eq [symmetric] using unat_lt2p [of x] by (rule le_less_trans)
  then have "take_bit LENGTH('a) (push_bit ?s (unat g)) = 2 ^ ?s * unat g"
    by (simp add: push_bit_eq_mult take_bit_nat_eq_self mult.commute)
  then have "unat (push_bit ?s g) = 2 ^ ?s * unat g"
    by (simp only: unsigned_push_bit_eq)
  with g(1) nz eq show ?thesis
    using unat_or_nonzero [OF nz(1), of y]
    by (simp add: uint_gcd_def trailing_zeros_def ctz_or)
qed

text \<open>C23: a \<open>U512\<close> is written as one length byte and at most 64 little-endian bytes, none of them a
  superfluous zero at the end, and \<open>from_bytes\<close> reads it back and leaves the rest of the stream.\<close>
theorem U512_roundtrip:
  "\<exists>bs. uint_to_bytes 64 (x :: u512) = Ok bs \<and> length bs = uint_serialized_length 64 x \<and> length bs \<le> 65 \<and>
     (x \<noteq> 0 \<longrightarrow> last bs \<noteq> 0) \<and> uint_from_bytes 64 (bs @ rest) = Ok (x, rest)"
proof -
  let ?nz = "non_zero_bytes 64 x"
  obtain bs where bs: "uint_to_bytes 64 x = Ok bs" by (simp add: uint_to_bytes_def Let_def)
  then have eq: "bs = word_of_nat (length ?nz) # rev ?nz" by (simp add: uint_to_bytes_def Let_def)
  have "last bs \<noteq> 0" if "x \<noteq> 0"
  proof -
    have "?nz \<noteq> []"
    proof
      assume "?nz = []"
      then have "x = from_le_bytes []" using from_le_non_zero_bytes [of 64 x] by simp
      with that show False by (simp add: from_le_bytes_def)
    qed
    moreover from this have "hd ?nz \<noteq> 0"
      unfolding non_zero_bytes_def by (rule hd_dropWhile)
    ultimately show ?thesis by (simp add: eq last_rev)
  qed
  with bs U512_repr.roundtrip [OF TrueI bs] U512_repr.tb_length [OF TrueI bs] length_non_zero_bytes [of 64 x]
  show ?thesis by (simp add: eq)
qed

theorem U512_roundtrip_witness:
  "\<exists>bs. uint_to_bytes 64 (258 :: u512) = Ok bs \<and> length bs = uint_serialized_length 64 (258 :: u512) \<and> length bs \<le> 65 \<and>
     ((258 :: u512) \<noteq> 0 \<longrightarrow> last bs \<noteq> 0) \<and> uint_from_bytes 64 (bs @ [1]) = Ok (258 :: u512, [1])"
  by (rule U512_roundtrip)

end
