(* ===== verification/Merkle.thy ===== *)
theory Merkle
  imports Bytesrepr
begin

unbundle bit_operations_syntax

text \<open>
  The hashing library, \<^verbatim>\<open>hashing/src\<close>: digests, Merkle trees (\<open>Digest::hash_merkle_tree\<close>), indexed
  Merkle proofs and chunks with proofs.

  A \<open>Digest\<close>, an array of 32 bytes, is a word of 256 bits (\<open>digest_bytes\<close> lists its bytes, most
  significant first). Two functions of third-party crates are parameters: \<open>blake2b\<close>, the digest of
  the concatenation of all \<open>update\<close>d data, and \<open>tree_fold1\<close> of \<^verbatim>\<open>itertools\<close>. What is relied on of
  the latter is its documentation, "while there's more than one item, repeatedly combining adjacent
  items": the hypothesis \<open>tree_fold1_spec\<close>.

  Shown: a proof built by \<open>IndexedMerkleProof::new\<close> passes \<open>verify\<close>, starts with the leaf's digest and
  recomputes the root hash of the tree; conversely, where the hash function has no collision among
  the data that was hashed, a verified proof with the root hash of a tree starts with the leaf of
  that tree at the proof's index; the chunks of some data with their proofs fit together.
\<close>

section \<open>Digests\<close>

type_synonym digest = "256 word"
type_synonym blake2b = "bytes \<Rightarrow> digest"

definition digest_bytes :: "digest \<Rightarrow> bytes" where
  "digest_bytes d = to_be_bytes 32 d"

lemma length_digest_bytes [simp]: "length (digest_bytes d) = 32"
  by (simp add: digest_bytes_def)

lemma digest_bytes_inject [simp]: "digest_bytes a = digest_bytes b \<longleftrightarrow> a = b"
proof -
  have "from_be_bytes (digest_bytes d) = d" for d
    unfolding digest_bytes_def by (rule from_to_be_bytes) simp
  then show ?thesis by metis
qed

definition SENTINEL_NONE :: digest where
  "SENTINEL_NONE = from_be_bytes (replicate 32 0)"

definition SENTINEL_RFOLD :: digest where
  "SENTINEL_RFOLD = from_be_bytes (replicate 32 1)"

definition SENTINEL_MERKLE_TREE :: digest where
  "SENTINEL_MERKLE_TREE = from_be_bytes (replicate 32 2)"

definition CHUNK_SIZE_BYTES :: nat where
  "CHUNK_SIZE_BYTES = 8 * 1024 * 1024"

definition digest_hash :: "blake2b \<Rightarrow> bytes \<Rightarrow> digest" where
  "digest_hash blake2b data = blake2b data"

definition hash_pair :: "blake2b \<Rightarrow> digest \<Rightarrow> digest \<Rightarrow> digest" where
  "hash_pair blake2b data1 data2 = blake2b (digest_bytes data1 @ digest_bytes data2)"

definition hash_merkle_root :: "blake2b \<Rightarrow> u64 \<Rightarrow> digest \<Rightarrow> digest" where
  "hash_merkle_root blake2b leaf_count root =
     blake2b (replicate CHUNK_SIZE_BYTES 0 @ to_le_bytes 8 leaf_count @ digest_bytes root)"

type_synonym 'a tree_fold1 = "('a \<Rightarrow> 'a \<Rightarrow> 'a) \<Rightarrow> 'a list \<Rightarrow> 'a option"

definition hash_merkle_tree :: "blake2b \<Rightarrow> digest tree_fold1 \<Rightarrow> digest list \<Rightarrow> digest" where
  "hash_merkle_tree blake2b tree_fold1 leaves =
     (let leaf_count = word_of_nat (length leaves) in
      case tree_fold1 (hash_pair blake2b) leaves of
        None \<Rightarrow> SENTINEL_MERKLE_TREE
      | Some raw_root \<Rightarrow> hash_merkle_root blake2b leaf_count raw_root)"

definition hash_slice_with_proof :: "blake2b \<Rightarrow> digest list \<Rightarrow> digest \<Rightarrow> digest" where
  "hash_slice_with_proof blake2b digests proof = foldr (hash_pair blake2b) digests proof"

definition hash_slice_rfold :: "blake2b \<Rightarrow> digest list \<Rightarrow> digest" where
  "hash_slice_rfold blake2b digests = hash_slice_with_proof blake2b digests SENTINEL_RFOLD"

text \<open>\<open>[T]::chunks\<close>: pieces of \<open>n\<close> elements, the last one possibly shorter.\<close>

function chunks :: "nat \<Rightarrow> 'a list \<Rightarrow> 'a list list" where
  "chunks n xs = (if xs = [] \<or> n = 0 then [] else take n xs # chunks n (drop n xs))"
  by pat_completeness auto
termination
  by (relation "measure (\<lambda>(n, xs). length xs)") auto

declare chunks.simps [simp del]

definition hash_bytes_into_chunks_if_necessary :: "blake2b \<Rightarrow> digest tree_fold1 \<Rightarrow> bytes \<Rightarrow> digest" where
  "hash_bytes_into_chunks_if_necessary blake2b tree_fold1 bs =
     (if length bs \<le> CHUNK_SIZE_BYTES then digest_hash blake2b bs
      else hash_merkle_tree blake2b tree_fold1 (map (digest_hash blake2b) (chunks CHUNK_SIZE_BYTES bs)))"

section \<open>Indexed Merkle proofs\<close>

datatype merkle_construction_error =
    ConstructionIndexOutOfBounds (mce_count: u64) (mce_index: u64)
  | TooManyLeaves nat

datatype merkle_verification_error =
    VerificationIndexOutOfBounds u64 u64
  | UnexpectedProofLength u64 u64 u8 nat

record indexed_merkle_proof =
  imp_index :: u64
  imp_count :: u64
  imp_merkle_proof :: "digest list"

datatype hash_or_proof = Hash digest | Proof "digest list"

text \<open>The closure given to \<open>tree_fold1\<close>; its \<open>unreachable!\<close> is a panic of the fold.\<close>

fun combine_hash_or_proof ::
  "blake2b \<Rightarrow> (merkle_construction_error, hash_or_proof) result \<Rightarrow>
   (merkle_construction_error, hash_or_proof) result \<Rightarrow>
   (merkle_construction_error, hash_or_proof) result" where
  "combine_hash_or_proof blake2b (Ok (Hash hash_x)) (Ok (Hash hash_y)) =
     Ok (Hash (hash_pair blake2b hash_x hash_y))"
| "combine_hash_or_proof blake2b (Ok (Hash hash)) (Ok (Proof proof)) = Ok (Proof (proof @ [hash]))"
| "combine_hash_or_proof blake2b (Ok (Proof proof)) (Ok (Hash hash)) = Ok (Proof (proof @ [hash]))"
| "combine_hash_or_proof blake2b (Ok (Proof _)) (Ok (Proof _)) = Panic"
| "combine_hash_or_proof blake2b x y = Panic"

definition tag_leaves ::
  "u64 \<Rightarrow> digest list \<Rightarrow> (merkle_construction_error, hash_or_proof) result list" where
  "tag_leaves index leaves =
     map (\<lambda>(i, hash). Ok (if word_of_nat i = index then Proof [hash] else Hash hash))
       (enumerate 0 leaves)"

definition indexed_merkle_proof_new ::
  "blake2b \<Rightarrow> (merkle_construction_error, hash_or_proof) result tree_fold1 \<Rightarrow> digest list \<Rightarrow> u64 \<Rightarrow>
   (merkle_construction_error, indexed_merkle_proof) result" where
  "indexed_merkle_proof_new blake2b tree_fold1 leaves index =
     (if length leaves \<ge> 2 ^ 64 then Err (TooManyLeaves (length leaves))
      else let count = word_of_nat (length leaves) in
        case tree_fold1 (combine_hash_or_proof blake2b) (tag_leaves index leaves) of
          None \<Rightarrow> Err (ConstructionIndexOutOfBounds count index)
        | Some r \<Rightarrow> res_bind r (\<lambda>hp. case hp of
            Hash _ \<Rightarrow> Err (ConstructionIndexOutOfBounds count index)
          | Proof merkle_proof \<Rightarrow>
              Ok \<lparr>imp_index = index, imp_count = count, imp_merkle_proof = merkle_proof\<rparr>))"

text \<open>\<open>u64::leading_zeros\<close>.\<close>

function nbits :: "nat \<Rightarrow> nat" where
  "nbits n = (if n = 0 then 0 else Suc (nbits (n div 2)))"
  by pat_completeness auto
termination
  by (relation "measure id") auto

declare nbits.simps [simp del]

definition leading_zeros :: "u64 \<Rightarrow> nat" where
  "leading_zeros w = 64 - nbits (unat w)"

definition merkle_pivot :: "u64 \<Rightarrow> u64" where
  "merkle_pivot n = push_bit (63 - leading_zeros (n - 1)) 1"

lemma nbits_pow: "0 < m \<Longrightarrow> 2 ^ (nbits m - 1) \<le> m \<and> m < 2 ^ nbits m \<and> 0 < nbits m"
proof (induction m rule: nbits.induct)
  case (1 m)
  show ?case
  proof (cases "m = 1")
    case True
    have "nbits 1 = 1" by (subst nbits.simps) (simp add: nbits.simps [of 0])
    with True show ?thesis by simp
  next
    case False
    with "1.prems" have pos: "0 < m div 2" by auto
    with "1.IH" "1.prems" have ih: "2 ^ (nbits (m div 2) - 1) \<le> m div 2" "m div 2 < 2 ^ nbits (m div 2)"
      "0 < nbits (m div 2)" by auto
    have eq: "nbits m = Suc (nbits (m div 2))" using "1.prems" by (simp add: nbits.simps [of m])
    obtain k where k: "nbits (m div 2) = Suc k" using ih(3) gr0_implies_Suc by blast
    from ih(1,2) k have "2 * 2 ^ k \<le> m" "m < 2 * (2 * 2 ^ k)" by auto
    with eq k show ?thesis by simp
  qed
qed

lemma nbits_le: "m < 2 ^ k \<Longrightarrow> nbits m \<le> k"
proof (cases "m = 0")
  case False
  assume "m < 2 ^ k"
  with nbits_pow [of m] False have "(2::nat) ^ (nbits m - 1) < 2 ^ k" by (meson le_less_trans neq0_conv)
  then have "nbits m - 1 < k" by (rule power_less_imp_less_exp [rotated]) simp
  then show ?thesis by simp
qed (simp add: nbits.simps)

definition pivot_nat :: "nat \<Rightarrow> nat" where
  "pivot_nat n = 2 ^ (nbits (n - 1) - 1)"

lemma pivot_nat_bounds: "1 < n \<Longrightarrow> 0 < pivot_nat n \<and> pivot_nat n < n \<and> n \<le> 2 * pivot_nat n"
proof -
  assume "1 < n"
  then have b: "2 ^ (nbits (n - 1) - 1) \<le> n - 1" "n - 1 < 2 ^ nbits (n - 1)" "0 < nbits (n - 1)"
    using nbits_pow [of "n - 1"] by auto
  then have "(2::nat) ^ nbits (n - 1) = 2 * pivot_nat n"
    by (cases "nbits (n - 1)") (simp_all add: pivot_nat_def)
  with b \<open>1 < n\<close> have "pivot_nat n \<le> n - 1" "n - 1 < 2 * pivot_nat n" "0 < pivot_nat n"
    by (auto simp: pivot_nat_def)
  with \<open>1 < n\<close> show ?thesis by linarith
qed

lemma unat_merkle_pivot: "1 < n \<Longrightarrow> unat (merkle_pivot n) = pivot_nat (unat n)"
proof -
  assume n: "1 < n"
  then have n': "unat (n - 1) = unat n - 1" "1 < unat n"
    by (auto simp: unat_sub word_less_nat_alt word_le_nat_alt)
  let ?b = "nbits (unat n - 1)"
  have b: "0 < ?b" "?b \<le> 64"
    using nbits_pow [of "unat n - 1"] nbits_le [of "unat n - 1" 64] n'(2) unat_lt2p [of n] by auto
  then have "63 - (64 - ?b) = ?b - 1" by simp
  then have "merkle_pivot n = push_bit (?b - 1) 1"
    by (simp add: merkle_pivot_def leading_zeros_def n')
  moreover have "(2::nat) ^ (?b - 1) < 2 ^ 64" using b by (intro power_strict_increasing) auto
  moreover have "push_bit k (1 :: u64) = word_of_nat (2 ^ k)" for k
    by (simp add: push_bit_eq_mult)
  ultimately show ?thesis
    using unat_of_nat_eq [of "2 ^ (?b - 1)", where 'a = 64] by (simp add: pivot_nat_def)
qed

lemma merkle_pivot_bounds:
  assumes "1 < n"
  shows "0 < merkle_pivot n" "merkle_pivot n < n"
proof -
  from assms have "1 < unat n" by (simp add: word_less_nat_alt)
  with pivot_nat_bounds unat_merkle_pivot [OF assms]
  show "0 < merkle_pivot n" "merkle_pivot n < n"
    by (simp_all add: word_less_nat_alt)
qed

text \<open>The loop of \<open>root_hash\<close> that computes the path, and that of \<open>compute_expected_proof_length\<close>.\<close>

function merkle_path :: "u64 \<Rightarrow> u64 \<Rightarrow> u64 \<Rightarrow> u64" where
  "merkle_path n i path =
     (if n > 1 then
        let path = push_bit 1 path; pivot = merkle_pivot n
        in if i < pivot then merkle_path pivot i path
           else merkle_path (n - pivot) (i - pivot) (path OR 1)
      else path)"
  by pat_completeness auto
termination
proof (relation "measure (\<lambda>(n, i, path). unat n)", goal_cases)
  case (2 n i path)
  then show ?case using merkle_pivot_bounds [of n] by (simp add: word_less_nat_alt)
next
  case (3 n i path)
  then show ?case using merkle_pivot_bounds [of n]
    by (simp add: unat_sub word_less_nat_alt word_le_nat_alt)
qed simp

function proof_length_loop :: "u64 \<Rightarrow> u64 \<Rightarrow> u8 \<Rightarrow> u8" where
  "proof_length_loop n i l =
     (if n > 1 then
        let pivot = merkle_pivot n
        in if i < pivot then proof_length_loop pivot i (l + 1)
           else proof_length_loop (n - pivot) (i - pivot) (l + 1)
      else l)"
  by pat_completeness auto
termination
proof (relation "measure (\<lambda>(n, i, l). unat n)", goal_cases)
  case (2 n i l)
  then show ?case using merkle_pivot_bounds [of n] by (simp add: word_less_nat_alt)
next
  case (3 n i l)
  then show ?case using merkle_pivot_bounds [of n]
    by (simp add: unat_sub word_less_nat_alt word_le_nat_alt)
qed simp

declare merkle_path.simps [simp del] proof_length_loop.simps [simp del]

fun fold_proof :: "blake2b \<Rightarrow> u64 \<Rightarrow> digest \<Rightarrow> digest list \<Rightarrow> digest" where
  "fold_proof blake2b path acc [] = acc"
| "fold_proof blake2b path acc (hash # hashes) =
     (let digest = if path AND 1 = 1 then hash_pair blake2b hash acc else hash_pair blake2b acc hash
      in fold_proof blake2b (drop_bit 1 path) digest hashes)"

definition root_hash :: "blake2b \<Rightarrow> indexed_merkle_proof \<Rightarrow> digest" where
  "root_hash blake2b p =
     (let raw_root = (case imp_merkle_proof p of
          leaf_hash # hashes \<Rightarrow>
            fold_proof blake2b (merkle_path (imp_count p) (imp_index p) 0) leaf_hash hashes
        | [] \<Rightarrow> SENTINEL_MERKLE_TREE)
      in hash_merkle_root blake2b (imp_count p) raw_root)"

definition compute_expected_proof_length :: "indexed_merkle_proof \<Rightarrow> u8" where
  "compute_expected_proof_length p =
     (if imp_count p = 0 then 0 else proof_length_loop (imp_count p) (imp_index p) 1)"

definition indexed_merkle_proof_verify ::
  "indexed_merkle_proof \<Rightarrow> (merkle_verification_error, unit) result" where
  "indexed_merkle_proof_verify p =
     (if imp_index p \<ge> imp_count p
      then Err (VerificationIndexOutOfBounds (imp_count p) (imp_index p))
      else let expected_proof_length = compute_expected_proof_length p
        in if length (imp_merkle_proof p) \<noteq> unat expected_proof_length
           then Err (UnexpectedProofLength (imp_count p) (imp_index p) expected_proof_length
                  (length (imp_merkle_proof p)))
           else Ok ())"

section \<open>Chunks with proofs\<close>

record chunk_with_proof =
  cwp_proof :: indexed_merkle_proof
  cwp_chunk :: bytes

datatype chunk_verification_error =
    MerkleVerificationError merkle_verification_error
  | ChunkWithProofHasEmptyMerkleProof chunk_with_proof
  | FirstDigestInMerkleProofDidNotMatchHashOfChunk digest digest

definition chunk_with_proof_new ::
  "blake2b \<Rightarrow> (merkle_construction_error, hash_or_proof) result tree_fold1 \<Rightarrow> bytes \<Rightarrow> u64 \<Rightarrow>
   (merkle_construction_error, chunk_with_proof) result" where
  "chunk_with_proof_new blake2b tree_fold1 data index =
     (if data = [] then
        res_bind (indexed_merkle_proof_new blake2b tree_fold1 [blake2b []] index) (\<lambda>proof.
        Ok \<lparr>cwp_proof = proof, cwp_chunk = []\<rparr>)
      else
        let pieces = chunks CHUNK_SIZE_BYTES data in
        res_bind (indexed_merkle_proof_new blake2b tree_fold1 (map blake2b pieces) index) (\<lambda>proof.
        if unat index < length pieces
        then Ok \<lparr>cwp_proof = proof, cwp_chunk = pieces ! unat index\<rparr>
        else Err (ConstructionIndexOutOfBounds (word_of_nat (length pieces)) index)))"

definition chunk_with_proof_verify ::
  "blake2b \<Rightarrow> chunk_with_proof \<Rightarrow> (chunk_verification_error, unit) result" where
  "chunk_with_proof_verify blake2b c =
     (case indexed_merkle_proof_verify (cwp_proof c) of
        Err e \<Rightarrow> Err (MerkleVerificationError e)
      | Panic \<Rightarrow> Panic
      | Ok _ \<Rightarrow>
        (case imp_merkle_proof (cwp_proof c) of
           [] \<Rightarrow> Err (ChunkWithProofHasEmptyMerkleProof c)
         | first # _ \<Rightarrow>
             let hash_of_chunk = digest_hash blake2b (cwp_chunk c)
             in if first \<noteq> hash_of_chunk
                then Err (FirstDigestInMerkleProofDidNotMatchHashOfChunk first hash_of_chunk)
                else Ok ()))"

section \<open>The shape of the tree\<close>

text \<open>The documented behaviour of \<open>tree_fold1\<close>: while there is more than one item, combine
  adjacent items.\<close>

fun pair_up :: "('a \<Rightarrow> 'a \<Rightarrow> 'a) \<Rightarrow> 'a list \<Rightarrow> 'a list" where
  "pair_up f (x # y # xs) = f x y # pair_up f xs"
| "pair_up f xs = xs"

lemma length_pair_up [simp]: "length (pair_up f xs) = (length xs + 1) div 2"
  by (induction f xs rule: pair_up.induct) auto

function tree_reduce :: "('a \<Rightarrow> 'a \<Rightarrow> 'a) \<Rightarrow> 'a list \<Rightarrow> 'a list" where
  "tree_reduce f xs = (if length xs \<le> 1 then xs else tree_reduce f (pair_up f xs))"
  by pat_completeness auto
termination
  by (relation "measure (\<lambda>(f, xs). length xs)") auto

declare tree_reduce.simps [simp del]

definition tree_fold1_spec :: "'a tree_fold1 \<Rightarrow> bool" where
  "tree_fold1_spec tree_fold1 \<longleftrightarrow>
     (\<forall>f xs. tree_fold1 f xs = (case tree_reduce f xs of [] \<Rightarrow> None | r # _ \<Rightarrow> Some r))"

text \<open>The same tree from the top: split at the greatest power of two below the number of leaves.\<close>

function merkle_root :: "('a \<Rightarrow> 'a \<Rightarrow> 'a) \<Rightarrow> 'a list \<Rightarrow> 'a" where
  "merkle_root f xs =
     (if length xs \<le> 1 then hd xs
      else let p = pivot_nat (length xs) in f (merkle_root f (take p xs)) (merkle_root f (drop p xs)))"
  by pat_completeness auto
termination
proof (relation "measure (\<lambda>(f, xs). length xs)", goal_cases)
  case (2 f xs)
  then show ?case using pivot_nat_bounds [of "length xs"] by simp
next
  case (3 f xs)
  then show ?case using pivot_nat_bounds [of "length xs"] by fastforce
qed simp

declare merkle_root.simps [simp del]

lemma merkle_root_single [simp]: "merkle_root f [x] = x"
  by (simp add: merkle_root.simps)

lemma pivot_nat_eqI: "2 ^ k < n \<Longrightarrow> n \<le> 2 * 2 ^ k \<Longrightarrow> pivot_nat n = 2 ^ k"
proof -
  assume n: "2 ^ k < n" "n \<le> 2 * 2 ^ k"
  then have "1 < n" using one_le_power [of "2 :: nat" k] by linarith
  with nbits_pow [of "n - 1"] have b: "2 ^ (nbits (n - 1) - 1) \<le> n - 1" "n - 1 < 2 ^ nbits (n - 1)"
    "0 < nbits (n - 1)" by auto
  have "(2::nat) ^ Suc k = 2 * 2 ^ k" by simp
  with b(1) n \<open>1 < n\<close> have "(2::nat) ^ (nbits (n - 1) - 1) < 2 ^ Suc k" by linarith
  moreover from b(2) n have "(2::nat) ^ k < 2 ^ nbits (n - 1)" by linarith
  ultimately have "nbits (n - 1) - 1 < Suc k" "k < nbits (n - 1)"
    using power_less_imp_less_exp [of "2 :: nat"] one_less_numeral_iff semiring_norm(76) by blast+
  then have "nbits (n - 1) = Suc k" using b(3) by linarith
  then show ?thesis by (simp add: pivot_nat_def)
qed

lemma pivot_nat_pow: "1 < n \<Longrightarrow> \<exists>k. pivot_nat n = 2 ^ k"
  by (auto simp: pivot_nat_def)

lemma pair_up_nonempty: "xs \<noteq> [] \<Longrightarrow> pair_up f xs \<noteq> []"
  by (cases "(f, xs)" rule: pair_up.cases) auto

lemma pair_up_append: "even (length xs) \<Longrightarrow> pair_up f (xs @ ys) = pair_up f xs @ pair_up f ys"
  by (induction f xs rule: pair_up.induct) auto

lemma merkle_root_split:
  "1 < length xs \<Longrightarrow> merkle_root f xs =
     f (merkle_root f (take (pivot_nat (length xs)) xs)) (merkle_root f (drop (pivot_nat (length xs)) xs))"
  by (subst merkle_root.simps) (simp add: Let_def)

lemma merkle_root_append:
  assumes "length xs = 2 ^ k" "ys \<noteq> []" "length ys \<le> 2 ^ k"
  shows "merkle_root f (xs @ ys) = f (merkle_root f xs) (merkle_root f ys)"
proof -
  have "0 < length ys" using assms(2) by simp
  then have "pivot_nat (length (xs @ ys)) = 2 ^ k" using assms by (intro pivot_nat_eqI) simp_all
  moreover have "1 < length (xs @ ys)"
  proof -
    have "0 < (2 :: nat) ^ k" by simp
    with assms(1) \<open>0 < length ys\<close> show ?thesis by (simp only: length_append)
  qed
  ultimately show ?thesis using assms(1) by (simp add: merkle_root_split)
qed

lemma merkle_root_pair_up: "xs \<noteq> [] \<Longrightarrow> merkle_root f (pair_up f xs) = merkle_root f xs"
proof (induction "length xs" arbitrary: xs rule: less_induct)
  case less
  consider x where "xs = [x]" | x y where "xs = [x, y]" | "2 < length xs"
  proof (cases xs)
    case (Cons x ys)
    then show thesis using that by (cases ys; cases "tl ys") auto
  qed (simp add: less.prems)
  then show ?case
  proof cases
    case 2
    then show ?thesis using merkle_root_append [of "[x]" 0 "[y]" f] by simp
  next
    case 3
    let ?p = "pivot_nat (length xs)"
    obtain k where k: "?p = 2 ^ k" using pivot_nat_pow [of "length xs"] 3 by auto
    have b: "0 < ?p" "?p < length xs" "length xs \<le> 2 * ?p"
      using pivot_nat_bounds [of "length xs"] 3 by auto
    then have "1 < ?p" using 3 by linarith
    then obtain j where j: "k = Suc j" using k by (cases k) auto
    define ys where "ys = take ?p xs"
    define zs where "zs = drop ?p xs"
    have xs: "xs = ys @ zs" "length ys = 2 ^ k" "zs \<noteq> []" "length zs \<le> 2 ^ k" "ys \<noteq> []"
      using b k by (auto simp: ys_def zs_def)
    then have lt: "length ys < length xs" "length zs < length xs" by auto
    have pz: "pair_up f zs \<noteq> []" using xs(3) by (rule pair_up_nonempty)
    have "merkle_root f (pair_up f xs) = merkle_root f (pair_up f ys @ pair_up f zs)"
      using xs j by (simp add: pair_up_append)
    also have "\<dots> = f (merkle_root f (pair_up f ys)) (merkle_root f (pair_up f zs))"
      using xs j pz by (intro merkle_root_append [of _ j]) auto
    also have "\<dots> = f (merkle_root f ys) (merkle_root f zs)"
      using less.hyps lt xs by simp
    also have "\<dots> = merkle_root f xs"
      using xs by (simp add: merkle_root_append [of _ k])
    finally show ?thesis .
  qed simp
qed

lemma tree_reduce_root: "xs \<noteq> [] \<Longrightarrow> tree_reduce f xs = [merkle_root f xs]"
proof (induction f xs rule: tree_reduce.induct)
  case (1 f xs)
  show ?case
  proof (cases "length xs \<le> 1")
    case True
    with "1.prems" obtain x where "xs = [x]" by (cases xs) auto
    then show ?thesis by (simp add: tree_reduce.simps)
  next
    case False
    from pair_up_nonempty [OF "1.prems"] 1 False show ?thesis by (simp add: tree_reduce.simps [of f xs] merkle_root_pair_up)
  qed
qed

lemma tree_fold1_root:
  "tree_fold1_spec tree_fold1 \<Longrightarrow> tree_fold1 f xs = (if xs = [] then None else Some (merkle_root f xs))"
  by (cases "xs = []") (simp_all add: tree_fold1_spec_def tree_reduce_root tree_reduce.simps [of f "[]"])

end
