(* ===== verification/Merkle_Proofs.thy ===== *)
theory Merkle_Proofs
  imports Merkle
begin

unbundle bit_operations_syntax

text \<open>
  Correctness of the indexed Merkle proofs of theory \<open>Merkle\<close>. The tree is seen from the top: \<open>dirs\<close>
  lists, from the leaf to the root, whether a leaf is in the right half, and \<open>siblings\<close> the roots of
  the other halves. The loops of \<open>root_hash\<close> and \<open>compute_expected_proof_length\<close> on \<open>u64\<close> values
  follow \<open>dirs\<close>, and \<open>IndexedMerkleProof::new\<close> collects \<open>siblings\<close>.
\<close>

section \<open>Paths in the tree\<close>

lemma pivot_less: "1 < n \<Longrightarrow> pivot_nat n < n"
  and pivot_pos: "1 < n \<Longrightarrow> 0 < pivot_nat n"
  and pivot_half: "1 < n \<Longrightarrow> n \<le> 2 * pivot_nat n"
  using pivot_nat_bounds by blast+

function dirs :: "nat \<Rightarrow> nat \<Rightarrow> bool list" where
  "dirs n i =
     (if n \<le> 1 then []
      else let p = pivot_nat n in if i < p then dirs p i @ [False] else dirs (n - p) (i - p) @ [True])"
  by pat_completeness auto
termination
proof (relation "measure fst", goal_cases)
  case (3 n i)
  then show ?case using pivot_pos [of n] by fastforce
qed (simp_all add: pivot_less)

function siblings :: "('a \<Rightarrow> 'a \<Rightarrow> 'a) \<Rightarrow> 'a list \<Rightarrow> nat \<Rightarrow> 'a list" where
  "siblings f xs i =
     (if length xs \<le> 1 then []
      else let p = pivot_nat (length xs) in
        if i < p then siblings f (take p xs) i @ [merkle_root f (drop p xs)]
        else siblings f (drop p xs) (i - p) @ [merkle_root f (take p xs)])"
  by pat_completeness auto
termination
proof (relation "measure (\<lambda>(f, xs, i). length xs)", goal_cases)
  case (3 f xs i)
  then show ?case using pivot_pos [of "length xs"] by fastforce
qed (simp_all add: pivot_less)

declare dirs.simps [simp del] siblings.simps [simp del]

lemma dirs_leaf [simp]: "n \<le> 1 \<Longrightarrow> dirs n i = []"
  by (simp add: dirs.simps)

lemma siblings_leaf [simp]: "length xs \<le> 1 \<Longrightarrow> siblings f xs i = []"
  by (simp add: siblings.simps)

lemma dirs_split:
  "1 < n \<Longrightarrow> dirs n i =
     (if i < pivot_nat n then dirs (pivot_nat n) i @ [False]
      else dirs (n - pivot_nat n) (i - pivot_nat n) @ [True])"
  by (subst dirs.simps) (simp add: Let_def)

lemma siblings_split:
  "1 < length xs \<Longrightarrow> siblings f xs i =
     (if i < pivot_nat (length xs)
      then siblings f (take (pivot_nat (length xs)) xs) i @ [merkle_root f (drop (pivot_nat (length xs)) xs)]
      else siblings f (drop (pivot_nat (length xs)) xs) (i - pivot_nat (length xs)) @
        [merkle_root f (take (pivot_nat (length xs)) xs)])"
  by (subst siblings.simps) (simp add: Let_def)

text \<open>Induction over the tree: a leaf list is a single leaf or splits at the pivot.\<close>

lemma tree_induct [consumes 1, case_names leaf node]:
  assumes ne: "xs \<noteq> []"
    and leaf: "\<And>x. P [x]"
    and node: "\<And>xs. \<lbrakk> 1 < length xs; P (take (pivot_nat (length xs)) xs);
      P (drop (pivot_nat (length xs)) xs) \<rbrakk> \<Longrightarrow> P xs"
  shows "P xs"
  using ne
proof (induction "length xs" arbitrary: xs rule: less_induct)
  case less
  show ?case
  proof (cases "1 < length xs")
    case True
    let ?p = "pivot_nat (length xs)"
    have p: "0 < ?p" "?p < length xs" using True pivot_nat_bounds by auto
    have "P (take ?p xs)" by (rule less.hyps) (use p in auto)
    moreover have "P (drop ?p xs)" by (rule less.hyps) (use p in auto)
    ultimately show ?thesis by (rule node [OF True])
  next
    case False
    with less.prems obtain x where "xs = [x]" by (cases xs) auto
    then show ?thesis using leaf by simp
  qed
qed

lemma length_siblings: "xs \<noteq> [] \<Longrightarrow> length (siblings f xs i) = length (dirs (length xs) i)"
proof (induction xs arbitrary: i rule: tree_induct)
  case (node xs)
  then show ?case using pivot_less [OF node(1)] by (simp add: dirs_split siblings_split)
qed simp

text \<open>The number of levels is logarithmic; with a \<open>u64\<close> number of leaves it is at most 64.\<close>

lemma length_dirs: "0 < n \<Longrightarrow> n \<le> 2 ^ k \<Longrightarrow> length (dirs n i) \<le> k"
proof (induction n i arbitrary: k rule: dirs.induct)
  case (1 n i)
  show ?case
  proof (cases "1 < n")
    case True
    then obtain j where j: "k = Suc j" using "1.prems" by (cases k) auto
    have p: "0 < pivot_nat n" "pivot_nat n < n" "n \<le> 2 * pivot_nat n"
      using True pivot_nat_bounds by auto
    obtain m where m: "pivot_nat n = 2 ^ m" using pivot_nat_pow [OF True] by blast
    have "2 ^ m < (2::nat) ^ k" using p(2) m "1.prems"(2) by linarith
    then have "m < k" by (rule power_less_imp_less_exp [rotated]) simp
    then have pj: "pivot_nat n \<le> 2 ^ j" using m j by (simp add: power_increasing)
    show ?thesis
    proof (cases "i < pivot_nat n")
      case True
      then have "length (dirs (pivot_nat n) i) \<le> j"
        using "1.IH"(1) [OF _ refl True p(1) pj] \<open>1 < n\<close> by simp
      then show ?thesis using True \<open>1 < n\<close> j by (simp add: dirs_split)
    next
      case False
      have "n - pivot_nat n \<le> 2 ^ j" "0 < n - pivot_nat n" using p pj by linarith+
      then have "length (dirs (n - pivot_nat n) (i - pivot_nat n)) \<le> j"
        using "1.IH"(2) [OF _ refl False] \<open>1 < n\<close> by simp
      then show ?thesis using False \<open>1 < n\<close> j by (simp add: dirs_split)
    qed
  qed simp
qed

text \<open>Folding the siblings along a path, as \<open>root_hash\<close> does.\<close>

fun fold_dirs :: "('a \<Rightarrow> 'a \<Rightarrow> 'a) \<Rightarrow> 'a \<Rightarrow> bool list \<Rightarrow> 'a list \<Rightarrow> 'a" where
  "fold_dirs f acc (d # ds) (h # hs) = fold_dirs f (if d then f h acc else f acc h) ds hs"
| "fold_dirs f acc ds hs = acc"

lemma fold_dirs_snoc:
  "length ds = length hs \<Longrightarrow>
   fold_dirs f acc (ds @ [d]) (hs @ [h]) =
     (if d then f h (fold_dirs f acc ds hs) else f (fold_dirs f acc ds hs) h)"
  by (induction f acc ds hs rule: fold_dirs.induct) auto

lemma fold_dirs_siblings:
  "xs \<noteq> [] \<Longrightarrow> i < length xs \<Longrightarrow> fold_dirs f (xs ! i) (dirs (length xs) i) (siblings f xs i) = merkle_root f xs"
proof (induction xs arbitrary: i rule: tree_induct)
  case (node xs)
  let ?p = "pivot_nat (length xs)"
  let ?l = "take ?p xs" and ?r = "drop ?p xs"
  have p: "0 < ?p" "?p < length xs" using node(1) pivot_nat_bounds by auto
  then have ne: "?l \<noteq> []" "?r \<noteq> []" by auto
  note len = length_siblings [OF ne(1), of f i] length_siblings [OF ne(2), of f "i - ?p"]
  show ?case
  proof (cases "i < ?p")
    case True
    then show ?thesis using node(2) [of i] node(1) p len
      by (simp add: dirs_split siblings_split fold_dirs_snoc merkle_root_split [of xs])
  next
    case False
    then show ?thesis using node(3) [of "i - ?p"] node(1,4) p len
      by (simp add: dirs_split siblings_split fold_dirs_snoc merkle_root_split [of xs])
  qed
qed simp

section \<open>Construction\<close>

text \<open>The leaves as \<open>new\<close> tags them, with the index a natural number.\<close>

definition tag_from :: "nat \<Rightarrow> nat \<Rightarrow> digest list \<Rightarrow> (merkle_construction_error, hash_or_proof) result list" where
  "tag_from j i leaves = map (\<lambda>(k, hash). Ok (if k = i then Proof [hash] else Hash hash)) (enumerate j leaves)"

lemma take_enumerate: "take p (enumerate j xs) = enumerate j (take p xs)"
  by (induction xs arbitrary: j p) (auto simp: take_Cons split: nat.split)

lemma drop_enumerate_shift: "drop p (enumerate j xs) = enumerate (j + p) (drop p xs)"
proof (induction xs arbitrary: j p)
  case (Cons x xs)
  then show ?case by (cases p) simp_all
qed simp

lemma enumerate_Nil_iff: "enumerate j xs = [] \<longleftrightarrow> xs = []"
  by (cases xs) simp_all

lemma tag_from_simps [simp]:
  "length (tag_from j i xs) = length xs"
  "tag_from j i [x] = [Ok (if j = i then Proof [x] else Hash x)]"
  "take p (tag_from j i xs) = tag_from j i (take p xs)"
  "drop p (tag_from j i xs) = tag_from (j + p) i (drop p xs)"
  "tag_from j i xs = [] \<longleftrightarrow> xs = []"
  by (auto simp: tag_from_def take_map drop_map take_enumerate drop_enumerate_shift enumerate_Nil_iff)

lemma tag_leaves_tag_from: "length leaves < 2 ^ 64 \<Longrightarrow> tag_leaves index leaves = tag_from 0 (unat index) leaves"
proof -
  assume len: "length leaves < 2 ^ 64"
  have "(word_of_nat k = index) = (k = unat index)" if "k < length leaves" for k
    using that len unat_of_nat_eq [of k, where 'a = 64] by auto
  then show ?thesis
    by (auto simp: tag_leaves_def tag_from_def in_set_enumerate_eq)
qed

lemma combine_no_proof:
  "xs \<noteq> [] \<Longrightarrow> i < j \<or> j + length xs \<le> i \<Longrightarrow>
   merkle_root (combine_hash_or_proof blake2b) (tag_from j i xs) = Ok (Hash (merkle_root (hash_pair blake2b) xs))"
proof (induction xs arbitrary: j rule: tree_induct)
  case (node xs)
  let ?p = "pivot_nat (length xs)"
  have p: "0 < ?p" "?p < length xs" using node(1) pivot_nat_bounds by auto
  have "i < j \<or> j + length (take ?p xs) \<le> i" "i < j + ?p \<or> j + ?p + length (drop ?p xs) \<le> i"
    using node(4) p by auto
  from node(2) [OF this(1)] node(3) [OF this(2)] node(1) show ?case
    by (simp add: merkle_root_split)
qed auto

lemma combine_proof:
  "xs \<noteq> [] \<Longrightarrow> j \<le> i \<Longrightarrow> i < j + length xs \<Longrightarrow>
   merkle_root (combine_hash_or_proof blake2b) (tag_from j i xs) =
     Ok (Proof (xs ! (i - j) # siblings (hash_pair blake2b) xs (i - j)))"
proof (induction xs arbitrary: j rule: tree_induct)
  case (node xs)
  let ?p = "pivot_nat (length xs)"
  have p: "0 < ?p" "?p < length xs" using node(1) pivot_nat_bounds by auto
  then have ne: "take ?p xs \<noteq> []" "drop ?p xs \<noteq> []" by auto
  show ?case
  proof (cases "i - j < ?p")
    case True
    then have "i < j + length (take ?p xs)" "i < j + ?p" using p node(4) by auto
    from node(2) [OF node(4) this(1)] combine_no_proof [OF ne(2) disjI1 [OF this(2)], of blake2b]
    show ?thesis using node(1) True by (simp add: merkle_root_split siblings_split)
  next
    case False
    then have "j + ?p \<le> i" "i < j + ?p + length (drop ?p xs)" "j + length (take ?p xs) \<le> i"
      using p node(4,5) by auto
    from node(3) [OF this(1,2)] combine_no_proof [OF ne(1) disjI2 [OF this(3)], of blake2b]
    show ?thesis using node(1,4) False p by (simp add: merkle_root_split siblings_split)
  qed
qed simp

text \<open>What \<open>IndexedMerkleProof::new\<close> returns, on every branch.\<close>

lemma indexed_merkle_proof_new_eq:
  assumes "tree_fold1_spec tree_fold1"
  shows "indexed_merkle_proof_new blake2b tree_fold1 leaves index =
    (if length leaves \<ge> 2 ^ 64 then Err (TooManyLeaves (length leaves))
     else if unat index \<ge> length leaves
     then Err (ConstructionIndexOutOfBounds (word_of_nat (length leaves)) index)
     else Ok \<lparr>imp_index = index, imp_count = word_of_nat (length leaves),
       imp_merkle_proof = leaves ! unat index # siblings (hash_pair blake2b) leaves (unat index)\<rparr>)"
proof -
  have "merkle_root (combine_hash_or_proof blake2b) (tag_from 0 (unat index) leaves) =
      (if unat index \<ge> length leaves then Ok (Hash (merkle_root (hash_pair blake2b) leaves))
       else Ok (Proof (leaves ! unat index # siblings (hash_pair blake2b) leaves (unat index))))"
    if "leaves \<noteq> []"
    using combine_no_proof [OF that, of "unat index" 0 blake2b] combine_proof [OF that, of 0 "unat index" blake2b]
    by simp
  then show ?thesis
    by (simp add: indexed_merkle_proof_new_def Let_def tree_fold1_root [OF assms] tag_leaves_tag_from)
qed

section \<open>The loops on machine integers\<close>

fun bits_nat :: "bool list \<Rightarrow> nat" where
  "bits_nat [] = 0"
| "bits_nat (d # ds) = of_bool d + 2 * bits_nat ds"

lemma bits_nat_snoc: "bits_nat (ds @ [d]) = bits_nat ds + of_bool d * 2 ^ length ds"
  by (induction ds) auto

lemma bits_nat_less: "bits_nat ds < 2 ^ length ds"
  by (induction ds) auto

lemma u64_split_cases:
  assumes "1 < (n :: u64)"
  shows "1 < unat n" "unat (n - merkle_pivot n) = unat n - pivot_nat (unat n)"
    "merkle_pivot n \<le> i \<Longrightarrow> unat (i - merkle_pivot n) = unat i - pivot_nat (unat n)"
    "i < merkle_pivot n \<longleftrightarrow> unat i < pivot_nat (unat n)"
  using assms merkle_pivot_bounds [OF assms] unat_merkle_pivot [OF assms]
  by (auto simp: word_less_nat_alt word_le_nat_alt unat_sub)

lemma merkle_path_eq:
  "merkle_path n i path =
     path * 2 ^ length (dirs (unat n) (unat i)) + word_of_nat (bits_nat (dirs (unat n) (unat i)))"
proof (induction n i path rule: merkle_path.induct)
  case (1 n i path)
  show ?case
  proof (cases "1 < n")
    case True
    note s = u64_split_cases [OF True]
    have odd: "push_bit 1 path OR 1 = 2 * path + 1"
      by (simp add: push_bit_eq_mult or_one_eq mult.commute)
    show ?thesis
    proof (cases "i < merkle_pivot n")
      case lt: True
      from "1.IH"(1) [OF True refl refl lt]
      show ?thesis using True lt s
        by (subst merkle_path.simps)
          (simp add: Let_def dirs_split unat_merkle_pivot bits_nat_snoc push_bit_eq_mult algebra_simps)
    next
      case ge: False
      from "1.IH"(2) [OF True refl refl ge]
      show ?thesis using True ge s odd
        by (subst merkle_path.simps)
          (simp add: Let_def dirs_split unat_merkle_pivot bits_nat_snoc algebra_simps)
    qed
  next
    case False
    then show ?thesis by (subst merkle_path.simps) (simp add: word_less_nat_alt)
  qed
qed

lemma odd_word_of_nat: "odd (word_of_nat k :: u64) \<longleftrightarrow> odd k"
  using bit_of_nat_iff [of k 0, where 'a = "64 word"] by (simp add: bit_0)

lemma drop_bit_word_of_nat: "k < 2 ^ 64 \<Longrightarrow> drop_bit 1 (word_of_nat k :: u64) = word_of_nat (k div 2)"
proof -
  assume k: "k < 2 ^ 64"
  then have "k div 2 < 2 ^ 64" by simp
  with k show ?thesis
    unfolding word_unat_eq_iff unat_drop_bit_eq by (simp add: unat_of_nat_eq drop_bit_eq_div)
qed

lemma fold_proof_dirs:
  "length ds = length hs \<Longrightarrow> length ds \<le> 64 \<Longrightarrow>
   fold_proof blake2b (word_of_nat (bits_nat ds)) acc hs = fold_dirs (hash_pair blake2b) acc ds hs"
proof (induction "hash_pair blake2b" acc ds hs rule: fold_dirs.induct)
  case (1 acc d ds h hs)
  have "bits_nat (d # ds) < 2 ^ 64"
    using bits_nat_less [of "d # ds"] "1.prems"(2) power_increasing [of "length (d # ds)" 64 "2 :: nat"]
    by (meson le_trans less_le_trans one_le_numeral)
  from drop_bit_word_of_nat [OF this]
  have "drop_bit 1 (word_of_nat (bits_nat (d # ds)) :: u64) = word_of_nat (bits_nat ds)" by simp
  moreover have "(word_of_nat (bits_nat (d # ds)) :: u64) AND 1 = of_bool d"
    by (simp only: and_one_eq odd_word_of_nat mod_2_eq_odd) simp
  ultimately show ?case using 1 by (simp del: bits_nat.simps)
qed simp_all

lemma proof_length_loop_eq:
  "proof_length_loop n i l = l + word_of_nat (length (dirs (unat n) (unat i)))"
proof (induction n i l rule: proof_length_loop.induct)
  case (1 n i l)
  show ?case
  proof (cases "1 < n")
    case True
    note s = u64_split_cases [OF True]
    show ?thesis
    proof (cases "i < merkle_pivot n")
      case lt: True
      from "1.IH"(1) [OF True refl lt] show ?thesis using True lt s
        by (subst proof_length_loop.simps) (simp add: Let_def dirs_split unat_merkle_pivot)
    next
      case ge: False
      from "1.IH"(2) [OF True refl ge] show ?thesis using True ge s
        by (subst proof_length_loop.simps) (simp add: Let_def dirs_split)
    qed
  next
    case False
    then show ?thesis by (subst proof_length_loop.simps) (simp add: word_less_nat_alt)
  qed
qed

lemma length_dirs_u64: "0 < n \<Longrightarrow> length (dirs (unat (n :: u64)) i) \<le> 64"
  using length_dirs [of "unat n" 64 i] unat_lt2p [of n] by (simp add: unat_gt_0 less_imp_le)

lemma expected_proof_length:
  "0 < imp_count p \<Longrightarrow>
   unat (compute_expected_proof_length p) = Suc (length (dirs (unat (imp_count p)) (unat (imp_index p))))"
proof -
  assume n: "0 < imp_count p"
  let ?l = "length (dirs (unat (imp_count p)) (unat (imp_index p)))"
  have "compute_expected_proof_length p = word_of_nat (Suc ?l)"
    using n by (simp add: compute_expected_proof_length_def proof_length_loop_eq)
  moreover have "Suc ?l < 256" using length_dirs_u64 [OF n, of "unat (imp_index p)"] by linarith
  ultimately show ?thesis using unat_of_nat_eq [of "Suc ?l", where 'a = 8] by simp
qed

lemma indexed_merkle_proof_verify_Ok:
  "indexed_merkle_proof_verify p = Ok () \<longleftrightarrow>
     imp_index p < imp_count p \<and>
     length (imp_merkle_proof p) = Suc (length (dirs (unat (imp_count p)) (unat (imp_index p))))"
proof (cases "imp_index p < imp_count p")
  case True
  then have "0 < imp_count p" by (rule le_less_trans [OF word_zero_le])
  from expected_proof_length [OF this] True not_le [THEN iffD2, OF True] show ?thesis
    by (simp add: indexed_merkle_proof_verify_def Let_def)
qed (simp add: indexed_merkle_proof_verify_def Let_def not_less)

lemma root_hash_dirs:
  assumes "indexed_merkle_proof_verify p = Ok ()" "imp_merkle_proof p = leaf # hashes"
  shows "root_hash blake2b p = hash_merkle_root blake2b (imp_count p)
    (fold_dirs (hash_pair blake2b) leaf (dirs (unat (imp_count p)) (unat (imp_index p))) hashes)"
proof -
  from assms have "0 < imp_count p" by (auto simp: indexed_merkle_proof_verify_Ok word_gt_0)
  from length_dirs_u64 [OF this] assms show ?thesis
    by (simp add: root_hash_def merkle_path_eq fold_proof_dirs indexed_merkle_proof_verify_Ok)
qed

lemma hash_merkle_tree_eq:
  "tree_fold1_spec tree_fold1 \<Longrightarrow> hash_merkle_tree blake2b tree_fold1 leaves =
     (if leaves = [] then SENTINEL_MERKLE_TREE
      else hash_merkle_root blake2b (word_of_nat (length leaves)) (merkle_root (hash_pair blake2b) leaves))"
  by (simp add: hash_merkle_tree_def tree_fold1_root)

section \<open>Uniqueness of proofs\<close>

text \<open>The pairs hashed by a tree and by folding a proof; the hash function is only assumed to have no
  collision among these and the two root inputs.\<close>

function tree_pairs :: "('a \<Rightarrow> 'a \<Rightarrow> 'a) \<Rightarrow> 'a list \<Rightarrow> ('a \<times> 'a) set" where
  "tree_pairs f xs =
     (if length xs \<le> 1 then {}
      else let p = pivot_nat (length xs) in
        insert (merkle_root f (take p xs), merkle_root f (drop p xs))
          (tree_pairs f (take p xs) \<union> tree_pairs f (drop p xs)))"
  by pat_completeness auto
termination
proof (relation "measure (\<lambda>(f, xs). length xs)", goal_cases)
  case (3 f xs)
  then show ?case using pivot_pos [of "length xs"] by fastforce
qed (simp_all add: pivot_less)

declare tree_pairs.simps [simp del]

lemma tree_pairs_leaf [simp]: "tree_pairs f [x] = {}"
  by (simp add: tree_pairs.simps)

lemma tree_pairs_split:
  "1 < length xs \<Longrightarrow> tree_pairs f xs =
     insert (merkle_root f (take (pivot_nat (length xs)) xs), merkle_root f (drop (pivot_nat (length xs)) xs))
       (tree_pairs f (take (pivot_nat (length xs)) xs) \<union> tree_pairs f (drop (pivot_nat (length xs)) xs))"
  by (subst tree_pairs.simps) (simp add: Let_def)

fun fold_pairs :: "('a \<Rightarrow> 'a \<Rightarrow> 'a) \<Rightarrow> 'a \<Rightarrow> bool list \<Rightarrow> 'a list \<Rightarrow> ('a \<times> 'a) set" where
  "fold_pairs f acc (d # ds) (h # hs) =
     insert (if d then (h, acc) else (acc, h)) (fold_pairs f (if d then f h acc else f acc h) ds hs)"
| "fold_pairs f acc ds hs = {}"

lemma fold_pairs_snoc:
  "length ds = length hs \<Longrightarrow>
   fold_pairs f acc (ds @ [d]) (hs @ [h]) =
     insert (if d then (h, fold_dirs f acc ds hs) else (fold_dirs f acc ds hs, h)) (fold_pairs f acc ds hs)"
  by (induction f acc ds hs rule: fold_dirs.induct) auto

lemma fold_dirs_unique:
  "xs \<noteq> [] \<Longrightarrow> i < length xs \<Longrightarrow> length hs = length (dirs (length xs) i) \<Longrightarrow>
   fold_dirs f acc (dirs (length xs) i) hs = merkle_root f xs \<Longrightarrow>
   inj_on (\<lambda>(x, y). f x y) (tree_pairs f xs \<union> fold_pairs f acc (dirs (length xs) i) hs) \<Longrightarrow>
   acc = xs ! i \<and> hs = siblings f xs i"
proof (induction xs arbitrary: i hs rule: tree_induct)
  case (node xs)
  let ?p = "pivot_nat (length xs)"
  let ?l = "take ?p xs" and ?r = "drop ?p xs"
  have p: "0 < ?p" "?p < length xs" using node(1) pivot_nat_bounds by auto
  define ds where "ds = (if i < ?p then dirs ?p i else dirs (length xs - ?p) (i - ?p))"
  have d: "dirs (length xs) i = ds @ [\<not> i < ?p]" using node(1) by (simp add: dirs_split ds_def)
  obtain hs' h where hs: "hs = hs' @ [h]" "length ds = length hs'"
    using node(5) d by (cases hs rule: rev_cases) auto
  let ?a = "fold_dirs f acc ds hs'"
  let ?q = "if i < ?p then (?a, h) else (h, ?a)"
  have "(\<lambda>(x, y). f x y) ?q = (\<lambda>(x, y). f x y) (merkle_root f ?l, merkle_root f ?r)"
    using node(1,6) hs by (simp add: d fold_dirs_snoc merkle_root_split [of xs] split: if_splits)
  then have q: "?q = (merkle_root f ?l, merkle_root f ?r)"
    by (rule inj_onD [OF node(7)]) (use hs node(1) in \<open>simp_all add: d fold_pairs_snoc tree_pairs_split\<close>)
  have inj: "inj_on (\<lambda>(x, y). f x y) (tree_pairs f zs \<union> fold_pairs f acc ds hs')" if "zs = ?l \<or> zs = ?r" for zs
    by (rule inj_on_subset [OF node(7)]) (use that hs node(1) in \<open>auto simp: d fold_pairs_snoc tree_pairs_split\<close>)
  show ?case
  proof (cases "i < ?p")
    case True
    with q have "acc = ?l ! i \<and> hs' = siblings f ?l i"
      by (intro node(2)) (use p True hs inj [of ?l] in \<open>simp_all add: ds_def\<close>)
    with True q hs node(1) show ?thesis by (simp add: siblings_split)
  next
    case False
    with q have "acc = ?r ! (i - ?p) \<and> hs' = siblings f ?r (i - ?p)"
      by (intro node(3)) (use p False hs inj [of ?r] node(4) in \<open>simp_all add: ds_def\<close>)
    with False q hs node(1) p show ?thesis by (simp add: siblings_split)
  qed
qed simp

definition pair_input :: "digest \<times> digest \<Rightarrow> bytes" where
  "pair_input q = digest_bytes (fst q) @ digest_bytes (snd q)"

definition root_input :: "u64 \<Rightarrow> digest \<Rightarrow> bytes" where
  "root_input leaf_count root = replicate CHUNK_SIZE_BYTES 0 @ to_le_bytes 8 leaf_count @ digest_bytes root"

text \<open>All the data hashed for the tree over \<open>leaves\<close>, and all the data hashed by \<open>root_hash\<close>.\<close>

definition tree_inputs :: "blake2b \<Rightarrow> digest list \<Rightarrow> bytes set" where
  "tree_inputs blake2b leaves =
     insert (root_input (word_of_nat (length leaves)) (merkle_root (hash_pair blake2b) leaves))
       (pair_input ` tree_pairs (hash_pair blake2b) leaves)"

definition proof_inputs :: "blake2b \<Rightarrow> indexed_merkle_proof \<Rightarrow> bytes set" where
  "proof_inputs blake2b p =
     (let ds = dirs (unat (imp_count p)) (unat (imp_index p));
          leaf = hd (imp_merkle_proof p); hashes = tl (imp_merkle_proof p)
      in insert (root_input (imp_count p) (fold_dirs (hash_pair blake2b) leaf ds hashes))
           (pair_input ` fold_pairs (hash_pair blake2b) leaf ds hashes))"

lemma hash_pair_pair_input: "hash_pair blake2b x y = blake2b (pair_input (x, y))"
  by (simp add: hash_pair_def pair_input_def)

lemma pair_input_inject [simp]: "pair_input q = pair_input r \<longleftrightarrow> q = r"
  by (auto simp: pair_input_def prod_eq_iff)

lemma root_input_inject [simp]: "root_input c r = root_input c' r' \<longleftrightarrow> c = c' \<and> r = r'"
proof -
  have "from_le_bytes (to_le_bytes 8 c) = c" for c :: u64 by (rule from_to_le_bytes) simp
  then have "to_le_bytes 8 c = to_le_bytes 8 c' \<longleftrightarrow> c = c'" by metis
  then show ?thesis by (simp add: root_input_def)
qed

lemma verified_proof_Cons:
  assumes "indexed_merkle_proof_verify p = Ok ()"
  obtains leaf hashes where "imp_merkle_proof p = leaf # hashes"
  using assms by (cases "imp_merkle_proof p") (auto simp: indexed_merkle_proof_verify_Ok)

lemma hash_merkle_root_input: "hash_merkle_root blake2b c r = blake2b (root_input c r)"
  by (simp add: hash_merkle_root_def root_input_def)

section \<open>Properties\<close>

text \<open>A fold that satisfies the documented behaviour, for the witnesses.\<close>

definition tree_fold1_ref :: "'a tree_fold1" where
  "tree_fold1_ref f xs = (case tree_reduce f xs of [] \<Rightarrow> None | r # _ \<Rightarrow> Some r)"

lemma tree_fold1_ref_spec: "tree_fold1_spec tree_fold1_ref"
  by (simp add: tree_fold1_spec_def tree_fold1_ref_def)

lemma merkle_proof_complete_eq:
  assumes "tree_fold1_spec tree_fold1" "tree_fold1_spec tree_fold1'"
    and "length leaves < 2 ^ 64" "unat index < length leaves"
  shows "\<exists>p. indexed_merkle_proof_new blake2b tree_fold1 leaves index = Ok p \<and>
    imp_index p = index \<and> unat (imp_count p) = length leaves \<and>
    indexed_merkle_proof_verify p = Ok () \<and>
    hd (imp_merkle_proof p) = leaves ! unat index \<and>
    root_hash blake2b p = hash_merkle_tree blake2b tree_fold1' leaves"
proof -
  define p where "p = \<lparr>imp_index = index, imp_count = word_of_nat (length leaves),
    imp_merkle_proof = leaves ! unat index # siblings (hash_pair blake2b) leaves (unat index)\<rparr>"
  have new: "indexed_merkle_proof_new blake2b tree_fold1 leaves index = Ok p"
    using assms by (simp add: indexed_merkle_proof_new_eq p_def)
  have n: "unat (word_of_nat (length leaves) :: u64) = length leaves"
    using assms(3) by (simp add: unat_of_nat_eq)
  have ne: "leaves \<noteq> []" using assms(4) by auto
  have "index < word_of_nat (length leaves)" using n assms(4) by (simp add: word_less_nat_alt)
  then have ver: "indexed_merkle_proof_verify p = Ok ()"
    by (simp add: indexed_merkle_proof_verify_Ok p_def n length_siblings [OF ne])
  have "root_hash blake2b p = hash_merkle_tree blake2b tree_fold1' leaves"
    using root_hash_dirs [OF ver, of "leaves ! unat index" "siblings (hash_pair blake2b) leaves (unat index)"]
      fold_dirs_siblings [OF ne assms(4)] ne
    by (simp add: p_def n hash_merkle_tree_eq [OF assms(2)])
  with new ver show ?thesis by (simp add: p_def n)
qed

text \<open>C17: for every index within the leaves \<open>IndexedMerkleProof::new\<close> returns a proof of that index,
  which \<open>verify\<close> accepts, which starts with the leaf at the index, and whose \<open>root_hash\<close> is the
  \<open>Digest::hash_merkle_tree\<close> of the leaves.\<close>
theorem merkle_proof_complete:
  assumes "tree_fold1_spec tree_fold1" "tree_fold1_spec tree_fold1'"
    and "length leaves < 2 ^ 64" "unat index < length leaves"
  shows "\<exists>p. indexed_merkle_proof_new blake2b tree_fold1 leaves index = Ok p \<and>
    imp_index p = index \<and> unat (imp_count p) = length leaves \<and>
    indexed_merkle_proof_verify p = Ok () \<and>
    hd (imp_merkle_proof p) = leaves ! unat index \<and>
    root_hash blake2b p = hash_merkle_tree blake2b tree_fold1' leaves"
  using assms by (rule merkle_proof_complete_eq)

theorem merkle_proof_complete_witness:
  "\<exists>p. indexed_merkle_proof_new (\<lambda>bs. word_of_nat (length bs)) tree_fold1_ref [7, 8, 9] 2 = Ok p \<and>
    imp_index p = 2 \<and> unat (imp_count p) = length [7, 8, 9 :: digest] \<and>
    indexed_merkle_proof_verify p = Ok () \<and>
    hd (imp_merkle_proof p) = [7, 8, 9] ! unat (2 :: u64) \<and>
    root_hash (\<lambda>bs. word_of_nat (length bs)) p =
      hash_merkle_tree (\<lambda>bs. word_of_nat (length bs)) tree_fold1_ref [7, 8, 9]"
  by (rule merkle_proof_complete) (simp_all add: tree_fold1_ref_spec)



text \<open>C7: a proof that \<open>verify\<close> accepts and whose \<open>root_hash\<close> is that of the tree over some leaves is
  the very proof \<open>IndexedMerkleProof::new\<close> builds for its index over those leaves, if the hash function
  has no collision among the data hashed for the tree and for the proof. So neither the leaf, the
  index nor the count of a proof can be forged.\<close>
theorem merkle_proof_sound:
  assumes "tree_fold1_spec tree_fold1" "tree_fold1_spec tree_fold1'"
    and "indexed_merkle_proof_verify p = Ok ()"
    and "leaves \<noteq> []" "length leaves < 2 ^ 64"
    and "root_hash blake2b p = hash_merkle_tree blake2b tree_fold1' leaves"
    and "inj_on blake2b (tree_inputs blake2b leaves \<union> proof_inputs blake2b p)"
  shows "indexed_merkle_proof_new blake2b tree_fold1 leaves (imp_index p) = Ok p"
proof -
  let ?f = "hash_pair blake2b" and ?ds = "dirs (unat (imp_count p)) (unat (imp_index p))"
  obtain leaf hashes where lh: "imp_merkle_proof p = leaf # hashes"
    using verified_proof_Cons [OF assms(3)] by blast
  let ?rp = "fold_dirs ?f leaf ?ds hashes" and ?n = "word_of_nat (length leaves)"
  have "blake2b (root_input (imp_count p) ?rp) = blake2b (root_input ?n (merkle_root ?f leaves))"
    using root_hash_dirs [OF assms(3) lh] assms(4,6)
    by (simp add: hash_merkle_tree_eq [OF assms(2)] hash_merkle_root_input)
  then have "root_input (imp_count p) ?rp = root_input ?n (merkle_root ?f leaves)"
    by (rule inj_onD [OF assms(7)]) (simp_all add: tree_inputs_def proof_inputs_def Let_def lh)
  then have c: "imp_count p = ?n" and r: "?rp = merkle_root ?f leaves" by auto
  have n: "unat (imp_count p) = length leaves" using assms(5) by (simp add: c unat_of_nat_eq)
  have i: "unat (imp_index p) < length leaves"
    using assms(3) n by (simp add: indexed_merkle_proof_verify_Ok word_less_nat_alt)
  have "inj_on blake2b (pair_input ` (tree_pairs ?f leaves \<union> fold_pairs ?f leaf ?ds hashes))"
    by (rule inj_on_subset [OF assms(7)]) (auto simp: tree_inputs_def proof_inputs_def Let_def lh)
  then have "inj_on (\<lambda>(x, y). ?f x y) (tree_pairs ?f leaves \<union> fold_pairs ?f leaf ?ds hashes)"
    by (auto simp: inj_on_def hash_pair_pair_input)
  then have "leaf = leaves ! unat (imp_index p) \<and> hashes = siblings ?f leaves (unat (imp_index p))"
    using fold_dirs_unique [OF assms(4) i, of hashes ?f leaf] assms(3) n r lh
    by (simp add: indexed_merkle_proof_verify_Ok)
  then show ?thesis using assms(5) i c lh by (simp add: indexed_merkle_proof_new_eq [OF assms(1)] not_le)
qed

lemma pivot_nat_2: "pivot_nat 2 = 1" "pivot_nat (Suc (Suc 0)) = 1"
  using pivot_nat_eqI [of 0 2] by (simp_all add: numeral_2_eq_2)

theorem merkle_proof_sound_witness:
  "indexed_merkle_proof_new (\<lambda>bs. word_of_nat (length bs)) tree_fold1_ref [7, 8]
     (imp_index \<lparr>imp_index = 1, imp_count = 2, imp_merkle_proof = [8, 7]\<rparr>) =
   Ok \<lparr>imp_index = 1, imp_count = 2, imp_merkle_proof = [8, 7]\<rparr>"
proof (rule merkle_proof_sound [OF tree_fold1_ref_spec tree_fold1_ref_spec])
  let ?p = "\<lparr>imp_index = 1, imp_count = 2, imp_merkle_proof = [8, 7]\<rparr>"
  let ?b = "\<lambda>bs. word_of_nat (length bs) :: digest"
  show v: "indexed_merkle_proof_verify ?p = Ok ()"
    by (simp add: indexed_merkle_proof_verify_Ok dirs_split pivot_nat_2)
  show "root_hash ?b ?p = hash_merkle_tree ?b tree_fold1_ref [7, 8]"
    by (simp add: root_hash_dirs [OF v] hash_merkle_tree_eq [OF tree_fold1_ref_spec] hash_merkle_root_def)
  show "inj_on ?b (tree_inputs ?b [7, 8] \<union> proof_inputs ?b ?p)"
    by (simp add: tree_inputs_def proof_inputs_def tree_pairs_split dirs_split pivot_nat_2 merkle_root_split
      root_input_def pair_input_def hash_pair_def CHUNK_SIZE_BYTES_def image_iff)
qed simp_all

subsection \<open>Chunks\<close>

lemma concat_chunks: "0 < n \<Longrightarrow> concat (chunks n xs) = xs"
  by (induction n xs rule: chunks.induct) (subst chunks.simps, simp)

lemma chunks_bounds: "c \<in> set (chunks n xs) \<Longrightarrow> 0 < length c \<and> length c \<le> n"
proof (induction n xs rule: chunks.induct)
  case (1 n xs)
  then show ?case by (subst (asm) (2) chunks.simps) (auto split: if_splits)
qed

lemma length_chunks: "length (chunks n xs) \<le> length xs"
proof (induction n xs rule: chunks.induct)
  case (1 n xs)
  show ?case
  proof (cases "xs = [] \<or> n = 0")
    case False
    then have "length (chunks n xs) = Suc (length (chunks n (drop n xs)))" by (subst chunks.simps) simp
    moreover from False have "length (drop n xs) < length xs" by simp
    ultimately show ?thesis using 1 [OF False] by linarith
  qed (simp add: chunks.simps)
qed

lemma length_chunks_exact: "0 < n \<Longrightarrow> length (chunks n xs) = (length xs + n - 1) div n"
proof (induction n xs rule: chunks.induct)
  case (1 n xs)
  show ?case
  proof (cases "xs = []")
    case False
    then have c: "length (chunks n xs) = Suc (length (chunks n (drop n xs)))" using 1(2) by (subst chunks.simps) simp
    have "length (chunks n (drop n xs)) = (length (drop n xs) + n - 1) div n" using 1 False by simp
    also have "\<dots> = (length xs - 1) div n"
      using 1(2) False by (cases "n \<le> length xs") simp_all
    finally show ?thesis using c False 1(2) by (cases xs) (simp_all add: div_add_self2)
  qed (use 1(2) in \<open>simp add: chunks.simps\<close>)
qed

lemma chunks_single: "xs \<noteq> [] \<Longrightarrow> length xs \<le> n \<Longrightarrow> chunks n xs = [xs]"
  by (cases "n = 0") (simp, subst chunks.simps, simp add: chunks.simps)

lemma chunks_Nil_iff: "0 < n \<Longrightarrow> chunks n xs = [] \<longleftrightarrow> xs = []"
  by (subst chunks.simps) simp

lemma CHUNK_SIZE_BYTES_pos: "0 < CHUNK_SIZE_BYTES"
  by (simp add: CHUNK_SIZE_BYTES_def)

lemma chunk_with_proof_new_Ok:
  assumes spec: "tree_fold1_spec tree_fold1" "tree_fold1_spec tree_fold1'"
    and data: "data \<noteq> []" and len: "length data < 2 ^ 64"
    and i: "i < length (chunks CHUNK_SIZE_BYTES data)"
  shows "\<exists>p. chunk_with_proof_new blake2b tree_fold1 data (word_of_nat i) =
      Ok \<lparr>cwp_proof = p, cwp_chunk = chunks CHUNK_SIZE_BYTES data ! i\<rparr> \<and>
    chunk_with_proof_verify blake2b \<lparr>cwp_proof = p, cwp_chunk = chunks CHUNK_SIZE_BYTES data ! i\<rparr> = Ok () \<and>
    root_hash blake2b p =
      hash_merkle_tree blake2b tree_fold1' (map (digest_hash blake2b) (chunks CHUNK_SIZE_BYTES data))"
proof -
  let ?pieces = "chunks CHUNK_SIZE_BYTES data"
  have n: "length (map blake2b ?pieces) < 2 ^ 64"
    using len length_chunks [of CHUNK_SIZE_BYTES data] by (simp only: length_map)
  have u: "unat (word_of_nat i :: u64) = i" using n i by (simp add: unat_of_nat_eq)
  with i have "unat (word_of_nat i :: u64) < length (map blake2b ?pieces)" by simp
  from merkle_proof_complete_eq [OF spec n this] obtain p where
    p: "indexed_merkle_proof_new blake2b tree_fold1 (map blake2b ?pieces) (word_of_nat i) = Ok p"
      "indexed_merkle_proof_verify p = Ok ()" "hd (imp_merkle_proof p) = map blake2b ?pieces ! i"
      "root_hash blake2b p = hash_merkle_tree blake2b tree_fold1' (map blake2b ?pieces)"
    unfolding u by blast
  obtain leaf hashes where lh: "imp_merkle_proof p = leaf # hashes"
    using verified_proof_Cons [OF p(2)] by blast
  have "digest_hash blake2b = blake2b" by (simp add: fun_eq_iff digest_hash_def)
  with p lh i u data show ?thesis
    by (intro exI [of _ p]) (simp add: chunk_with_proof_new_def chunk_with_proof_verify_def)
qed

text \<open>C19: splitting data that is not empty and has fewer than \<open>2\<^sup>6\<^sup>4\<close> bytes with \<open>ChunkWithProof::new\<close> at every index gives
  chunks that all pass \<open>ChunkWithProof::verify\<close>, none longer than \<open>CHUNK_SIZE_BYTES\<close>, as many as the size of the
  data needs, whose concatenation is the data. If the data is longer than \<open>CHUNK_SIZE_BYTES\<close>, the proofs' root
  hash is \<open>Digest::hash_bytes_into_chunks_if_necessary\<close> of the data; otherwise it is the Merkle tree hash of the one
  chunk, while that function hashes the data directly.\<close>
theorem chunks_with_proofs_reassemble:
  assumes "tree_fold1_spec tree_fold1" "tree_fold1_spec tree_fold1'"
    and "data \<noteq> []" "length data < 2 ^ 64"
  shows "\<exists>cs. concat (map cwp_chunk cs) = data \<and>
    length cs = (length data + CHUNK_SIZE_BYTES - 1) div CHUNK_SIZE_BYTES \<and>
    (\<forall>i<length cs. chunk_with_proof_new blake2b tree_fold1 data (word_of_nat i) = Ok (cs ! i) \<and>
      chunk_with_proof_verify blake2b (cs ! i) = Ok () \<and>
      length (cwp_chunk (cs ! i)) \<le> CHUNK_SIZE_BYTES \<and>
      root_hash blake2b (cwp_proof (cs ! i)) =
        (if CHUNK_SIZE_BYTES < length data then hash_bytes_into_chunks_if_necessary blake2b tree_fold1' data
         else hash_merkle_tree blake2b tree_fold1' [digest_hash blake2b data]))"
proof -
  let ?pieces = "chunks CHUNK_SIZE_BYTES data"
  note ex = chunk_with_proof_new_Ok [OF assms, of _ blake2b]
  define pr where "pr = (\<lambda>i. SOME p. chunk_with_proof_new blake2b tree_fold1 data (word_of_nat i) =
      Ok \<lparr>cwp_proof = p, cwp_chunk = ?pieces ! i\<rparr> \<and>
    chunk_with_proof_verify blake2b \<lparr>cwp_proof = p, cwp_chunk = ?pieces ! i\<rparr> = Ok () \<and>
    root_hash blake2b p = hash_merkle_tree blake2b tree_fold1' (map (digest_hash blake2b) ?pieces))"
  have pr: "chunk_with_proof_new blake2b tree_fold1 data (word_of_nat i) =
      Ok \<lparr>cwp_proof = pr i, cwp_chunk = ?pieces ! i\<rparr> \<and>
    chunk_with_proof_verify blake2b \<lparr>cwp_proof = pr i, cwp_chunk = ?pieces ! i\<rparr> = Ok () \<and>
    root_hash blake2b (pr i) = hash_merkle_tree blake2b tree_fold1' (map (digest_hash blake2b) ?pieces)"
    if "i < length ?pieces" for i
    unfolding pr_def by (rule someI_ex) (rule ex [OF that])
  define cs where "cs = map (\<lambda>i. \<lparr>cwp_proof = pr i, cwp_chunk = ?pieces ! i\<rparr>) [0..<length ?pieces]"
  have "map cwp_chunk cs = ?pieces" by (auto simp: cs_def intro: nth_equalityI)
  then have "concat (map cwp_chunk cs) = data" by (simp add: concat_chunks CHUNK_SIZE_BYTES_pos)
  moreover have "length (?pieces ! i) \<le> CHUNK_SIZE_BYTES" if "i < length ?pieces" for i
    using chunks_bounds nth_mem [OF that] by blast
  moreover have "hash_merkle_tree blake2b tree_fold1' (map (digest_hash blake2b) ?pieces) =
      (if CHUNK_SIZE_BYTES < length data then hash_bytes_into_chunks_if_necessary blake2b tree_fold1' data
       else hash_merkle_tree blake2b tree_fold1' [digest_hash blake2b data])"
    using assms(3) by (simp add: hash_bytes_into_chunks_if_necessary_def chunks_single)
  moreover have "length cs = (length data + CHUNK_SIZE_BYTES - 1) div CHUNK_SIZE_BYTES"
    by (simp add: cs_def length_chunks_exact CHUNK_SIZE_BYTES_pos)
  ultimately show ?thesis using pr
    by (intro exI [of _ cs]) (simp add: cs_def)
qed

theorem chunks_with_proofs_reassemble_witness:
  "\<exists>c d. cwp_chunk c @ cwp_chunk d = replicate (CHUNK_SIZE_BYTES + 1) 7 \<and>
    chunk_with_proof_new (\<lambda>bs. word_of_nat (length bs)) tree_fold1_ref (replicate (CHUNK_SIZE_BYTES + 1) 7) 1 = Ok d \<and>
    chunk_with_proof_verify (\<lambda>bs. word_of_nat (length bs)) c = Ok () \<and>
    chunk_with_proof_verify (\<lambda>bs. word_of_nat (length bs)) d = Ok () \<and>
    root_hash (\<lambda>bs. word_of_nat (length bs)) (cwp_proof d) =
      hash_bytes_into_chunks_if_necessary (\<lambda>bs. word_of_nat (length bs)) tree_fold1_ref (replicate (CHUNK_SIZE_BYTES + 1) 7)"
proof -
  let ?b = "\<lambda>bs. word_of_nat (length bs) :: digest" and ?data = "replicate (CHUNK_SIZE_BYTES + 1) (7 :: u8)"
  have l: "length ?data = CHUNK_SIZE_BYTES + 1" "?data \<noteq> []" by simp_all
  have "length ?data < 2 ^ 64" unfolding l by (simp add: CHUNK_SIZE_BYTES_def)
  from chunks_with_proofs_reassemble [OF tree_fold1_ref_spec tree_fold1_ref_spec l(2) this, of ?b] obtain cs where
    cs: "concat (map cwp_chunk cs) = ?data" "length cs = (CHUNK_SIZE_BYTES + 1 + CHUNK_SIZE_BYTES - 1) div CHUNK_SIZE_BYTES"
    "\<And>i. i < length cs \<Longrightarrow> chunk_with_proof_new ?b tree_fold1_ref ?data (word_of_nat i) = Ok (cs ! i) \<and>
      chunk_with_proof_verify ?b (cs ! i) = Ok () \<and>
      root_hash ?b (cwp_proof (cs ! i)) = hash_bytes_into_chunks_if_necessary ?b tree_fold1_ref ?data"
    unfolding l by auto
  from cs(2) have "length cs = 2" by (simp add: CHUNK_SIZE_BYTES_def)
  then obtain c d where "cs = [c, d]" by (auto simp: numeral_2_eq_2 length_Suc_conv)
  with cs(1) cs(3) [of 0] cs(3) [of 1] show ?thesis by (intro exI [of _ c] exI [of _ d]) simp
qed

end
