(* ===== verification/Hashing_Bytes.thy ===== *)
theory Hashing_Bytes
  imports Merkle_Proofs
begin

text \<open>
  Serialisation of \<open>Digest\<close>, \<open>IndexedMerkleProof\<close> and \<open>ChunkWithProof\<close> (\<^verbatim>\<open>hashing/src\<close>), each an instance
  of the contract \<open>bytesrepr\<close>, and \<open>Digest::hash_btree_map\<close>.
\<close>

section \<open>Digests\<close>

definition digest_serialized_length :: "digest \<Rightarrow> nat" where
  "digest_serialized_length d = 32"

definition digest_to_bytes :: "digest to_bytes" where
  "digest_to_bytes d = array_to_bytes (digest_bytes d)"

definition digest_write_bytes :: "digest write_bytes" where
  "digest_write_bytes d writer = Ok (writer @ digest_bytes d)"

definition digest_from_bytes :: "digest from_bytes" where
  "digest_from_bytes bs = res_bind (array_from_bytes 32 bs) (\<lambda>(arr, rem). Ok (from_be_bytes arr, rem))"

lemma from_digest_bytes [simp]: "from_be_bytes (digest_bytes d) = d"
  unfolding digest_bytes_def by (rule from_to_be_bytes) simp

interpretation digest_repr: bytesrepr "\<lambda>_. True" digest_serialized_length digest_to_bytes
  digest_write_bytes digest_from_bytes
  by unfold_locales
    (auto simp: digest_to_bytes_def digest_write_bytes_def digest_from_bytes_def array_to_bytes_def
      array_from_bytes_def digest_serialized_length_def)

text \<open>The hash of a map: a Merkle tree over the hashes of its entries.\<close>

definition hash_btree_map ::
  "blake2b \<Rightarrow> digest tree_fold1 \<Rightarrow> 'k to_bytes \<Rightarrow> 'v to_bytes \<Rightarrow> ('k \<times> 'v) list \<Rightarrow> (bytes_error, digest) result" where
  "hash_btree_map blake2b tree_fold1 ktb vtb btree_map =
     res_bind (res_fold (\<lambda>(key, value) kv_hashes.
       res_bind (ktb key) (\<lambda>kb.
       res_bind (vtb value) (\<lambda>vb.
       Ok (kv_hashes @ [hash_pair blake2b (digest_hash blake2b kb) (digest_hash blake2b vb)])))) btree_map [])
     (\<lambda>kv_hashes. Ok (hash_merkle_tree blake2b tree_fold1 kv_hashes))"

section \<open>Proofs and chunks\<close>

definition indexed_merkle_proof_serialized_length :: "indexed_merkle_proof \<Rightarrow> nat" where
  "indexed_merkle_proof_serialized_length p =
     8 + 8 + iterator_serialized_length digest_serialized_length (imp_merkle_proof p)"

definition indexed_merkle_proof_to_bytes :: "(nat \<Rightarrow> bool) \<Rightarrow> indexed_merkle_proof to_bytes" where
  "indexed_merkle_proof_to_bytes alloc p =
     append_parts (indexed_merkle_proof_serialized_length p)
       [u64_to_bytes (imp_index p), u64_to_bytes (imp_count p),
        vec_to_bytes alloc digest_serialized_length digest_to_bytes (imp_merkle_proof p)]"

definition indexed_merkle_proof_from_bytes :: "(nat \<Rightarrow> bool) \<Rightarrow> indexed_merkle_proof from_bytes" where
  "indexed_merkle_proof_from_bytes alloc bs =
     res_bind (u64_from_bytes bs) (\<lambda>(index, remainder).
     res_bind (u64_from_bytes remainder) (\<lambda>(count, remainder).
     res_bind (vec_from_bytes alloc 32 1 digest_from_bytes remainder) (\<lambda>(merkle_proof, remainder).
     Ok (\<lparr>imp_index = index, imp_count = count, imp_merkle_proof = merkle_proof\<rparr>, remainder))))"

abbreviation proof_fits :: "(nat \<Rightarrow> bool) \<Rightarrow> indexed_merkle_proof \<Rightarrow> bool" where
  "proof_fits alloc p \<equiv> capacity_granted alloc 32 1 (length (imp_merkle_proof p))"

interpretation proof_repr: bytesrepr "proof_fits alloc" indexed_merkle_proof_serialized_length
  "indexed_merkle_proof_to_bytes alloc'" "default_write_bytes (indexed_merkle_proof_to_bytes alloc')"
  "indexed_merkle_proof_from_bytes alloc" for alloc alloc'
proof (rule bytesrepr_default, goal_cases)
  note vec = bytesrepr_vec [OF digest_repr.bytesrepr_axioms, where alloc = alloc and es = 32 and al = 1, unfolded One_nat_def]
  case (1 p bs)
  then show ?case
    by (auto simp: indexed_merkle_proof_to_bytes_def indexed_merkle_proof_serialized_length_def
        append_parts_def append_items_parts res_simps u64_repr.tb_length dest!: bytesrepr.tb_length [OF vec, rotated])
next
  note vec = bytesrepr_vec [OF digest_repr.bytesrepr_axioms, where alloc = alloc and es = 32 and al = 1, unfolded One_nat_def]
  case (2 p bs rest)
  then show ?case
    by (auto simp: indexed_merkle_proof_to_bytes_def indexed_merkle_proof_from_bytes_def
        append_parts_def append_items_parts res_simps u64_repr.roundtrip bytesrepr.roundtrip [OF vec] digest_repr.bytesrepr_axioms)
qed

definition chunk_with_proof_serialized_length :: "chunk_with_proof \<Rightarrow> nat" where
  "chunk_with_proof_serialized_length c =
     indexed_merkle_proof_serialized_length (cwp_proof c) + u8_slice_serialized_length (cwp_chunk c)"

definition chunk_with_proof_write_bytes :: "(nat \<Rightarrow> bool) \<Rightarrow> chunk_with_proof write_bytes" where
  "chunk_with_proof_write_bytes alloc c buf =
     res_bind (indexed_merkle_proof_to_bytes alloc (cwp_proof c)) (\<lambda>pb.
     res_bind (Bytes_to_bytes alloc (cwp_chunk c)) (\<lambda>cb. Ok (buf @ pb @ cb)))"

definition chunk_with_proof_to_bytes :: "(nat \<Rightarrow> bool) \<Rightarrow> chunk_with_proof to_bytes" where
  "chunk_with_proof_to_bytes alloc c =
     res_bind (allocate_buffer (chunk_with_proof_serialized_length c)) (\<lambda>result.
     chunk_with_proof_write_bytes alloc c result)"

definition chunk_with_proof_from_bytes :: "(nat \<Rightarrow> bool) \<Rightarrow> chunk_with_proof from_bytes" where
  "chunk_with_proof_from_bytes alloc bs =
     res_bind (indexed_merkle_proof_from_bytes alloc bs) (\<lambda>(proof, remainder).
     res_bind (Bytes_from_bytes remainder) (\<lambda>(chunk, remainder).
     Ok (\<lparr>cwp_proof = proof, cwp_chunk = chunk\<rparr>, remainder)))"

interpretation chunk_repr: bytesrepr "\<lambda>c. proof_fits alloc (cwp_proof c)" chunk_with_proof_serialized_length
  "chunk_with_proof_to_bytes alloc'" "chunk_with_proof_write_bytes alloc'" "chunk_with_proof_from_bytes alloc"
  for alloc alloc'
  by unfold_locales
    (auto simp: chunk_with_proof_to_bytes_def chunk_with_proof_write_bytes_def chunk_with_proof_from_bytes_def
      chunk_with_proof_serialized_length_def res_simps Bytes_repr.roundtrip
      proof_repr.roundtrip [unfolded One_nat_def] Bytes_repr.tb_length [OF TrueI]
      proof_repr.tb_length [unfolded One_nat_def])

text \<open>C21: the encoding of a \<open>ChunkWithProof\<close> is read back unchanged and its announced length is the real
  one, so a chunk that was sent over the network verifies at the receiver exactly as at the sender.\<close>
theorem chunk_with_proof_roundtrip:
  assumes "capacity_granted alloc 32 1 (length (imp_merkle_proof (cwp_proof c)))"
    and "chunk_with_proof_to_bytes alloc' c = Ok bs"
  shows "chunk_with_proof_from_bytes alloc (bs @ rest) = Ok (c, rest) \<and>
    length bs = chunk_with_proof_serialized_length c \<and> deserialize (chunk_with_proof_from_bytes alloc) bs = Ok c"
  using chunk_repr.roundtrip [OF assms] chunk_repr.tb_length [OF assms] chunk_repr.roundtrip_deserialize [OF assms]
  by simp

theorem chunk_with_proof_roundtrip_witness:
  "\<exists>bs. chunk_with_proof_from_bytes (\<lambda>_. True) (bs @ [3]) =
      Ok (\<lparr>cwp_proof = \<lparr>imp_index = 0, imp_count = 1, imp_merkle_proof = []\<rparr>, cwp_chunk = [4, 5]\<rparr>, [3]) \<and>
    length bs = chunk_with_proof_serialized_length
      \<lparr>cwp_proof = \<lparr>imp_index = 0, imp_count = 1, imp_merkle_proof = []\<rparr>, cwp_chunk = [4, 5]\<rparr> \<and>
    deserialize (chunk_with_proof_from_bytes (\<lambda>_. True)) bs =
      Ok \<lparr>cwp_proof = \<lparr>imp_index = 0, imp_count = 1, imp_merkle_proof = []\<rparr>, cwp_chunk = [4, 5]\<rparr>"
proof (rule exI, rule chunk_with_proof_roundtrip)
  show "chunk_with_proof_to_bytes (\<lambda>_. True)
      \<lparr>cwp_proof = \<lparr>imp_index = 0, imp_count = 1, imp_merkle_proof = []\<rparr>, cwp_chunk = [4, 5]\<rparr> =
    Ok ([0, 0, 0, 0, 0, 0, 0, 0, 1, 0, 0, 0, 0, 0, 0, 0, 0, 0, 0, 0] @ [2, 0, 0, 0, 4, 5])"
    by (simp add: chunk_with_proof_to_bytes_def chunk_with_proof_write_bytes_def allocate_buffer_def
      chunk_with_proof_serialized_length_def indexed_merkle_proof_serialized_length_def
      u8_slice_serialized_length_def indexed_merkle_proof_to_bytes_def append_parts_def append_items_parts
      u64_to_bytes_def u32_to_bytes_def le_to_bytes_def to_le_bytes_def nat_to_le_numeral
      vec_to_bytes_def try_vec_with_capacity_def iterator_serialized_length_def usize_max_def
      u32_try_from_def u32_max_def append_items_def Bytes_to_bytes_def u8_slice_to_bytes_def)
qed (simp add: capacity_granted_def usize_max_def)

end
