(* ===== verification/Trie.thy ===== *)
theory Trie
  imports Hashing_Bytes
begin

text \<open>
  The nodes of the Merkle trie of the global state: \<^verbatim>\<open>execution_engine/src/storage/trie/mod.rs\<close>.

  A \<open>PointerBlock\<close> is an array of \<open>RADIX = 256\<close> entries that is always indexed by a byte; it is a
  function on \<open>u8\<close>. The types \<open>K\<close> and \<open>V\<close> of keys and values enter through their serialisation
  functions. \<open>Trie::to_bytes\<close> is written with the \<open>write_bytes\<close> of its parts, so the contract of the
  parts is the locale \<open>bytes_writer\<close>, which also says what a successful \<open>write_bytes\<close> has appended.
\<close>

section \<open>Writers\<close>

locale bytes_writer = bytesrepr +
  assumes wb_sound: "valid x \<Longrightarrow> wb x w = Ok out \<Longrightarrow>
    \<exists>bs. out = w @ bs \<and> length bs = sl x \<and> (\<forall>rest. fb (bs @ rest) = Ok (x, rest)) \<and>
      (\<forall>w'. wb x w' = Ok (w' @ bs))"

lemmas bytes_writerI = bytes_writer.intro [OF _ bytes_writer_axioms.intro]

lemma bytes_writer_default:
  assumes "bytesrepr valid sl tb (default_write_bytes tb) fb"
  shows "bytes_writer valid sl tb (default_write_bytes tb) fb"
  using assms
  by (intro bytes_writerI)
    (auto simp: default_write_bytes_def res_simps bytesrepr.tb_length [OF assms] bytesrepr.roundtrip [OF assms])

interpretation u8_writer: bytes_writer "\<lambda>_. True" u8_serialized_length u8_to_bytes u8_write_bytes u8_from_bytes
  by unfold_locales (auto simp: u8_write_bytes_def u8_serialized_length_def)

interpretation digest_writer: bytes_writer "\<lambda>_. True" digest_serialized_length digest_to_bytes
  digest_write_bytes digest_from_bytes
  by unfold_locales
    (auto simp: digest_write_bytes_def digest_serialized_length_def digest_from_bytes_def array_from_bytes_def)

interpretation Bytes_writer: bytes_writer "\<lambda>_. True" u8_slice_serialized_length "Bytes_to_bytes alloc"
  write_u8_slice Bytes_from_bytes for alloc
  by unfold_locales
    (auto simp: write_u8_slice_def u8_slice_serialized_length_def Bytes_from_bytes_def res_simps)

lemma write_items_sound:
  assumes "bytes_writer valid sl tb wb fb"
  shows "\<forall>x\<in>set xs. valid x \<Longrightarrow> write_items wb xs w = Ok out \<Longrightarrow>
    \<exists>bs. out = w @ bs \<and> length bs = sum_list (map sl xs) \<and>
      (\<forall>acc rest. read_items fb (\<lambda>t r. r @ [t]) (length xs) acc (bs @ rest) = Ok (acc @ xs, rest)) \<and>
      (\<forall>w'. write_items wb xs w' = Ok (w' @ bs))"
proof (induction xs arbitrary: w)
  case (Cons x xs)
  then obtain m where m: "wb x w = Ok m" "write_items wb xs m = Ok out"
    by (auto simp: write_items_def res_simps)
  obtain bs where bs: "m = w @ bs" "length bs = sl x" "\<And>rest. fb (bs @ rest) = Ok (x, rest)"
      "\<And>w'. wb x w' = Ok (w' @ bs)"
    using bytes_writer.wb_sound [OF assms _ m(1)] Cons.prems by auto
  obtain cs where cs: "out = m @ cs" "length cs = sum_list (map sl xs)"
      "\<And>acc rest. read_items fb (\<lambda>t r. r @ [t]) (length xs) acc (cs @ rest) = Ok (acc @ xs, rest)"
      "\<And>w'. write_items wb xs w' = Ok (w' @ cs)"
    using Cons.IH [OF _ m(2)] Cons.prems(1) by auto
  show ?case
    using bs cs by (intro exI [of _ "bs @ cs"]) (simp add: write_items_def)
qed (simp add: write_items_def)

section \<open>Pointers\<close>

datatype pointer = LeafPointer digest | NodePointer digest

fun pointer_hash :: "pointer \<Rightarrow> digest" where
  "pointer_hash (LeafPointer hash) = hash"
| "pointer_hash (NodePointer hash) = hash"

fun pointer_update :: "pointer \<Rightarrow> digest \<Rightarrow> pointer" where
  "pointer_update (LeafPointer _) hash = LeafPointer hash"
| "pointer_update (NodePointer _) hash = NodePointer hash"

fun pointer_tag :: "pointer \<Rightarrow> u8" where
  "pointer_tag (LeafPointer _) = 0"
| "pointer_tag (NodePointer _) = 1"

definition pointer_serialized_length :: "pointer \<Rightarrow> nat" where
  "pointer_serialized_length p = 1 + 32"

definition pointer_write_bytes :: "pointer write_bytes" where
  "pointer_write_bytes p writer = Ok (writer @ [pointer_tag p] @ digest_bytes (pointer_hash p))"

definition pointer_to_bytes :: "pointer to_bytes" where
  "pointer_to_bytes p = pointer_write_bytes p []"

definition pointer_from_bytes :: "pointer from_bytes" where
  "pointer_from_bytes bs =
     res_bind (u8_from_bytes bs) (\<lambda>(tag, rem).
     if tag = 0 then res_bind (digest_from_bytes rem) (\<lambda>(hash, rem). Ok (LeafPointer hash, rem))
     else if tag = 1 then res_bind (digest_from_bytes rem) (\<lambda>(hash, rem). Ok (NodePointer hash, rem))
     else Err Formatting)"

lemma digest_from_digest_bytes [simp]: "digest_from_bytes (digest_bytes d @ rest) = Ok (d, rest)"
  using digest_repr.roundtrip [of d] by (simp add: digest_to_bytes_def array_to_bytes_def)

interpretation pointer_writer: bytes_writer "\<lambda>_. True" pointer_serialized_length pointer_to_bytes
  pointer_write_bytes pointer_from_bytes
proof (unfold_locales, goal_cases)
  case (3 p bs rest)
  then show ?case by (cases p) (auto simp: pointer_to_bytes_def pointer_write_bytes_def pointer_from_bytes_def)
next
  case (4 p w out)
  then show ?case by (cases p) (auto simp: pointer_serialized_length_def pointer_write_bytes_def pointer_from_bytes_def)
qed (auto simp: pointer_to_bytes_def pointer_write_bytes_def pointer_serialized_length_def)

section \<open>Pointer blocks\<close>

type_synonym pointer_block = "u8 \<Rightarrow> pointer option"

definition RADIX :: nat where "RADIX = 256"

definition pointer_block_new :: pointer_block where
  "pointer_block_new = (\<lambda>_. None)"

definition from_indexed_pointers :: "(u8 \<times> pointer) list \<Rightarrow> pointer_block" where
  "from_indexed_pointers indexed_pointers =
     fold (\<lambda>(idx, ptr) ret. ret(idx := Some ptr)) indexed_pointers pointer_block_new"

text \<open>The entries of the array in order.\<close>

definition block_entries :: "pointer_block \<Rightarrow> pointer option list" where
  "block_entries pb = map (\<lambda>i. pb (word_of_nat i)) [0..<RADIX]"

definition as_indexed_pointers :: "pointer_block \<Rightarrow> (u8 \<times> pointer) list" where
  "as_indexed_pointers pb =
     List.map_filter (\<lambda>i. map_option (Pair (word_of_nat i)) (pb (word_of_nat i))) [0..<RADIX]"

definition child_count :: "pointer_block \<Rightarrow> nat" where
  "child_count pb = length (as_indexed_pointers pb)"

definition pointer_block_serialized_length :: "pointer_block \<Rightarrow> nat" where
  "pointer_block_serialized_length pb =
     sum_list (map (option_serialized_length pointer_serialized_length) (block_entries pb))"

definition pointer_block_to_bytes :: "pointer_block to_bytes" where
  "pointer_block_to_bytes pb =
     res_bind (allocate_buffer (pointer_block_serialized_length pb)) (\<lambda>result.
     append_items (option_to_bytes pointer_serialized_length pointer_to_bytes) (block_entries pb) result)"

definition pointer_block_write_bytes :: "pointer_block write_bytes" where
  "pointer_block_write_bytes pb writer =
     write_items (option_write_bytes pointer_write_bytes) (block_entries pb) writer"

definition pointer_block_from_bytes :: "pointer_block from_bytes" where
  "pointer_block_from_bytes bs =
     res_bind (read_items (option_from_bytes pointer_from_bytes) (\<lambda>t result. result @ [t]) RADIX [] bs)
       (\<lambda>(arr, bytes). Ok (\<lambda>i. arr ! unat i, bytes))"

lemma length_block_entries [simp]: "length (block_entries pb) = RADIX"
  by (simp add: block_entries_def)

lemma block_entries_nth [simp]: "block_entries pb ! unat i = pb i"
  by (simp add: block_entries_def RADIX_def)

lemma as_indexed_pointers_set: "(i, p) \<in> set (as_indexed_pointers pb) \<longleftrightarrow> pb i = Some p"
proof
  assume "pb i = Some p"
  then have "unat i \<in> set [0..<RADIX] \<and> map_option (Pair (word_of_nat (unat i))) (pb (word_of_nat (unat i))) = Some (i, p)"
    by (simp add: RADIX_def)
  then show "(i, p) \<in> set (as_indexed_pointers pb)"
    unfolding as_indexed_pointers_def List.map_filter_def by force
qed (auto simp: as_indexed_pointers_def List.map_filter_def)

lemma option_pointer_writer:
  "bytes_writer (\<lambda>_. True) (option_serialized_length pointer_serialized_length)
     (option_to_bytes pointer_serialized_length pointer_to_bytes) (option_write_bytes pointer_write_bytes)
     (option_from_bytes pointer_from_bytes)"
proof (rule bytes_writerI, goal_cases)
  case 1
  have "pred_option (\<lambda>_ :: pointer. True) = (\<lambda>_. True)" by (auto simp: fun_eq_iff pred_option_def)
  with bytesrepr_option [OF pointer_writer.bytesrepr_axioms] show ?case by simp
next
  case (2 x w out)
  show ?case
  proof (cases x)
    case None
    with 2 show ?thesis by (auto simp: option_from_bytes_def tag_defs)
  next
    case (Some p)
    with 2 pointer_writer.wb_sound [of p "w @ [OPTION_SOME_TAG]" out]
    show ?thesis by (auto simp: option_from_bytes_def tag_defs)
  qed
qed

interpretation pointer_block_writer: bytes_writer "\<lambda>_. True" pointer_block_serialized_length
  pointer_block_to_bytes pointer_block_write_bytes pointer_block_from_bytes
proof (unfold_locales, goal_cases)
  note opt = bytes_writer.axioms(1) [OF option_pointer_writer]
  case (1 pb bs)
  then show ?case
    by (auto simp: pointer_block_to_bytes_def pointer_block_serialized_length_def res_simps append_items_Ok
      bytesrepr.concat_length [OF opt])
next
  note opt = bytes_writer.axioms(1) [OF option_pointer_writer]
  case (2 pb bs w)
  then show ?case
    by (auto simp: pointer_block_to_bytes_def pointer_block_write_bytes_def res_simps append_items_Ok
      bytesrepr.write_items [OF opt])
next
  note opt = bytes_writer.axioms(1) [OF option_pointer_writer]
  case (3 pb bs rest)
  then obtain bss where "encodes (option_to_bytes pointer_serialized_length pointer_to_bytes) (block_entries pb) bss"
      "bs = concat bss"
    by (auto simp: pointer_block_to_bytes_def res_simps append_items_Ok)
  with bytesrepr.read_items [OF opt this(1), of "\<lambda>t r. r @ [t]" "[]" rest] show ?case
    by (simp add: pointer_block_from_bytes_def fold_snoc)
next
  case (4 pb w out)
  then obtain bs where bs: "out = w @ bs"
      "length bs = sum_list (map (option_serialized_length pointer_serialized_length) (block_entries pb))"
      "\<And>rest. read_items (option_from_bytes pointer_from_bytes) (\<lambda>t r. r @ [t]) RADIX [] (bs @ rest) =
        Ok (block_entries pb, rest)"
      "\<And>w'. write_items (option_write_bytes pointer_write_bytes) (block_entries pb) w' = Ok (w' @ bs)"
    using write_items_sound [OF option_pointer_writer, of "block_entries pb" w out]
    by (fastforce simp: pointer_block_write_bytes_def)
  then show ?case
    by (intro exI [of _ bs]) (simp add: pointer_block_serialized_length_def pointer_block_from_bytes_def
      pointer_block_write_bytes_def fold_snoc)
qed

section \<open>Tries\<close>

text \<open>The serialisation functions of a type, the dictionary of its \<open>ToBytes + FromBytes\<close> bound.\<close>

record 'a codec =
  cd_sl :: "'a \<Rightarrow> nat"
  cd_tb :: "'a to_bytes"
  cd_wb :: "'a write_bytes"
  cd_fb :: "'a from_bytes"

abbreviation codec_ok :: "('a \<Rightarrow> bool) \<Rightarrow> 'a codec \<Rightarrow> bool" where
  "codec_ok valid c \<equiv> bytes_writer valid (cd_sl c) (cd_tb c) (cd_wb c) (cd_fb c)"

datatype ('k, 'v) trie = Leaf 'k 'v | Node pointer_block | Extension bytes pointer

definition LEAF_TAG :: u8 where "LEAF_TAG = 0"
definition NODE_TAG :: u8 where "NODE_TAG = 1"
definition EXTENSION_TAG :: u8 where "EXTENSION_TAG = 2"

lemmas trie_tag_defs = LEAF_TAG_def NODE_TAG_def EXTENSION_TAG_def

fun trie_tag :: "('k, 'v) trie \<Rightarrow> u8" where
  "trie_tag (Leaf _ _) = LEAF_TAG"
| "trie_tag (Node _) = NODE_TAG"
| "trie_tag (Extension _ _) = EXTENSION_TAG"

definition trie_node :: "(u8 \<times> pointer) list \<Rightarrow> ('k, 'v) trie" where
  "trie_node indexed_pointers = Node (from_indexed_pointers indexed_pointers)"

fun trie_serialized_length :: "'k codec \<Rightarrow> 'v codec \<Rightarrow> ('k, 'v) trie \<Rightarrow> nat" where
  "trie_serialized_length kc vc (Leaf key value) = 1 + (cd_sl kc key + cd_sl vc value)"
| "trie_serialized_length kc vc (Node pointer_block) = 1 + pointer_block_serialized_length pointer_block"
| "trie_serialized_length kc vc (Extension affix pointer) =
     1 + (u8_slice_serialized_length affix + pointer_serialized_length pointer)"

definition trie_write_bytes :: "'k codec \<Rightarrow> 'v codec \<Rightarrow> ('k, 'v) trie write_bytes" where
  "trie_write_bytes kc vc t writer =
     (let writer = writer @ [trie_tag t] in
      case t of
        Leaf key value \<Rightarrow> res_bind (cd_wb kc key writer) (\<lambda>writer. cd_wb vc value writer)
      | Node pointer_block \<Rightarrow> pointer_block_write_bytes pointer_block writer
      | Extension affix pointer \<Rightarrow>
          res_bind (write_u8_slice affix writer) (\<lambda>writer. pointer_write_bytes pointer writer))"

lemma trie_write_bytes_simps [simp]:
  "trie_write_bytes kc vc (Leaf key value) writer =
     res_bind (cd_wb kc key (writer @ [LEAF_TAG])) (\<lambda>writer. cd_wb vc value writer)"
  "trie_write_bytes kc vc (Node pointer_block) writer =
     pointer_block_write_bytes pointer_block (writer @ [NODE_TAG])"
  "trie_write_bytes kc vc (Extension affix pointer) writer =
     res_bind (write_u8_slice affix (writer @ [EXTENSION_TAG])) (\<lambda>writer. pointer_write_bytes pointer writer)"
  by (simp_all add: trie_write_bytes_def)

definition trie_to_bytes :: "'k codec \<Rightarrow> 'v codec \<Rightarrow> ('k, 'v) trie to_bytes" where
  "trie_to_bytes kc vc t =
     res_bind (allocate_buffer (trie_serialized_length kc vc t)) (\<lambda>ret. trie_write_bytes kc vc t ret)"

definition trie_from_bytes :: "'k codec \<Rightarrow> 'v codec \<Rightarrow> ('k, 'v) trie from_bytes" where
  "trie_from_bytes kc vc bs =
     res_bind (u8_from_bytes bs) (\<lambda>(tag, rem).
     if tag = LEAF_TAG then
       res_bind (cd_fb kc rem) (\<lambda>(key, rem).
       res_bind (cd_fb vc rem) (\<lambda>(value, rem). Ok (Leaf key value, rem)))
     else if tag = NODE_TAG then
       res_bind (pointer_block_from_bytes rem) (\<lambda>(pointer_block, rem). Ok (Node pointer_block, rem))
     else if tag = EXTENSION_TAG then
       res_bind (Bytes_from_bytes rem) (\<lambda>(affix, rem).
       res_bind (pointer_from_bytes rem) (\<lambda>(pointer, rem). Ok (Extension affix pointer, rem)))
     else Err Formatting)"

definition trie_hash ::
  "'k codec \<Rightarrow> 'v codec \<Rightarrow> blake2b \<Rightarrow> digest tree_fold1 \<Rightarrow> ('k, 'v) trie \<Rightarrow> (bytes_error, digest) result" where
  "trie_hash kc vc blake2b tree_fold1 t =
     res_bind (trie_to_bytes kc vc t) (\<lambda>bs. Ok (hash_bytes_into_chunks_if_necessary blake2b tree_fold1 bs))"

fun trie_key :: "('k, 'v) trie \<Rightarrow> 'k option" where
  "trie_key (Leaf key _) = Some key"
| "trie_key _ = None"

fun as_pointer_block :: "('k, 'v) trie \<Rightarrow> pointer_block option" where
  "as_pointer_block (Node pointer_block) = Some pointer_block"
| "as_pointer_block _ = None"

text \<open>All the items of the \<open>DescendantsIterator\<close>.\<close>

fun iter_descendants :: "('k, 'v) trie \<Rightarrow> digest list" where
  "iter_descendants (Leaf _ _) = []"
| "iter_descendants (Node pointer_block) = map pointer_hash (map snd (as_indexed_pointers pointer_block))"
| "iter_descendants (Extension _ pointer) = [pointer_hash pointer]"

definition create_hashed_empty_trie ::
  "'k codec \<Rightarrow> 'v codec \<Rightarrow> blake2b \<Rightarrow> (bytes_error, digest \<times> ('k, 'v) trie) result" where
  "create_hashed_empty_trie kc vc blake2b =
     (let root = Node pointer_block_new in
      res_bind (trie_to_bytes kc vc root) (\<lambda>root_bytes. Ok (digest_hash blake2b root_bytes, root)))"

fun trie_valid :: "('k \<Rightarrow> bool) \<Rightarrow> ('v \<Rightarrow> bool) \<Rightarrow> ('k, 'v) trie \<Rightarrow> bool" where
  "trie_valid kv vv (Leaf key value) \<longleftrightarrow> kv key \<and> vv value"
| "trie_valid kv vv _ \<longleftrightarrow> True"

lemma trie_writer_sound:
  assumes kc: "codec_ok kv kc" and vc: "codec_ok vv vc"
    and "trie_valid kv vv t" "trie_write_bytes kc vc t w = Ok out"
  shows "\<exists>bs. out = w @ bs \<and> length bs = trie_serialized_length kc vc t \<and>
    (\<forall>rest. trie_from_bytes kc vc (bs @ rest) = Ok (t, rest)) \<and>
    (\<forall>w'. trie_write_bytes kc vc t w' = Ok (w' @ bs))"
proof (cases t)
  case (Leaf k v)
  with assms(3,4) obtain m where m: "cd_wb kc k (w @ [LEAF_TAG]) = Ok m" "cd_wb vc v m = Ok out"
    "kv k" "vv v" by (auto simp: res_simps)
  from bytes_writer.wb_sound [OF kc m(3,1)] bytes_writer.wb_sound [OF vc m(4,2)]
  obtain ks vs where "m = (w @ [LEAF_TAG]) @ ks" "length ks = cd_sl kc k" "\<And>rest. cd_fb kc (ks @ rest) = Ok (k, rest)"
      "\<And>w'. cd_wb kc k w' = Ok (w' @ ks)"
      "out = m @ vs" "length vs = cd_sl vc v" "\<And>rest. cd_fb vc (vs @ rest) = Ok (v, rest)"
      "\<And>w'. cd_wb vc v w' = Ok (w' @ vs)" by auto
  with Leaf show ?thesis
    by (intro exI [of _ "[LEAF_TAG] @ ks @ vs"]) (simp add: trie_from_bytes_def)
next
  case (Node pb)
  with assms(4) have "pointer_block_write_bytes pb (w @ [NODE_TAG]) = Ok out" by simp
  from pointer_block_writer.wb_sound [OF TrueI this] obtain bs where
    "out = (w @ [NODE_TAG]) @ bs" "length bs = pointer_block_serialized_length pb"
    "\<And>rest. pointer_block_from_bytes (bs @ rest) = Ok (pb, rest)"
    "\<And>w'. pointer_block_write_bytes pb w' = Ok (w' @ bs)" by auto
  with Node show ?thesis
    by (intro exI [of _ "[NODE_TAG] @ bs"]) (simp add: trie_from_bytes_def trie_tag_defs)
next
  case (Extension affix p)
  with assms(4) obtain m where m: "write_u8_slice affix (w @ [EXTENSION_TAG]) = Ok m" "pointer_write_bytes p m = Ok out"
    by (auto simp: res_simps)
  from Bytes_writer.wb_sound [OF TrueI m(1)] pointer_writer.wb_sound [OF TrueI m(2)]
  obtain ks vs where "m = (w @ [EXTENSION_TAG]) @ ks" "length ks = u8_slice_serialized_length affix"
      "\<And>rest. Bytes_from_bytes (ks @ rest) = Ok (affix, rest)" "\<And>w'. write_u8_slice affix w' = Ok (w' @ ks)"
      "out = m @ vs" "length vs = pointer_serialized_length p" "\<And>rest. pointer_from_bytes (vs @ rest) = Ok (p, rest)"
      "\<And>w'. pointer_write_bytes p w' = Ok (w' @ vs)" by auto
  with Extension show ?thesis
    by (intro exI [of _ "[EXTENSION_TAG] @ ks @ vs"]) (simp add: trie_from_bytes_def trie_tag_defs)
qed

lemma trie_to_bytes_Ok:
  "trie_to_bytes kc vc t = Ok bs \<longleftrightarrow>
   trie_serialized_length kc vc t \<le> u32_max \<and> trie_write_bytes kc vc t [] = Ok bs"
  by (auto simp: trie_to_bytes_def res_simps)

lemma trie_writer:
  assumes "codec_ok kv kc" "codec_ok vv vc"
  shows "bytes_writer (trie_valid kv vv) (trie_serialized_length kc vc) (trie_to_bytes kc vc)
    (trie_write_bytes kc vc) (trie_from_bytes kc vc)"
proof (rule bytes_writerI, rule bytesreprI, goal_cases)
  case (1 t bs)
  then show ?case using trie_writer_sound [OF assms 1(1), of "[]" bs] by (auto simp: trie_to_bytes_Ok)
next
  case (2 t bs w)
  then show ?case using trie_writer_sound [OF assms 2(1), of "[]" bs] by (auto simp: trie_to_bytes_Ok)
next
  case (3 t bs rest)
  then show ?case using trie_writer_sound [OF assms 3(1), of "[]" bs] by (auto simp: trie_to_bytes_Ok)
next
  case (4 t w out)
  then show ?case by (rule trie_writer_sound [OF assms])
qed

section \<open>Tries or chunks\<close>

datatype trie_or_chunk = TocTrie bytes | TocChunkWithProof chunk_with_proof

definition TRIE_TAG :: u8 where "TRIE_TAG = 0"
definition CHUNK_TAG :: u8 where "CHUNK_TAG = 1"

fun trie_or_chunk_tag :: "trie_or_chunk \<Rightarrow> u8" where
  "trie_or_chunk_tag (TocTrie _) = TRIE_TAG"
| "trie_or_chunk_tag (TocChunkWithProof _) = CHUNK_TAG"

definition trie_or_chunk_write_bytes :: "(nat \<Rightarrow> bool) \<Rightarrow> trie_or_chunk write_bytes" where
  "trie_or_chunk_write_bytes alloc t buf =
     (let buf = buf @ [trie_or_chunk_tag t] in
      case t of
        TocTrie trie \<Rightarrow> res_bind (Bytes_to_bytes alloc trie) (\<lambda>b. Ok (buf @ b))
      | TocChunkWithProof chunk \<Rightarrow> res_bind (chunk_with_proof_to_bytes alloc chunk) (\<lambda>b. Ok (buf @ b)))"

definition trie_or_chunk_serialized_length :: "trie_or_chunk \<Rightarrow> nat" where
  "trie_or_chunk_serialized_length t =
     1 + (case t of TocTrie trie \<Rightarrow> u8_slice_serialized_length trie
          | TocChunkWithProof chunk \<Rightarrow> chunk_with_proof_serialized_length chunk)"

definition trie_or_chunk_to_bytes :: "(nat \<Rightarrow> bool) \<Rightarrow> trie_or_chunk to_bytes" where
  "trie_or_chunk_to_bytes alloc t =
     res_bind (allocate_buffer (trie_or_chunk_serialized_length t)) (\<lambda>ret. trie_or_chunk_write_bytes alloc t ret)"

definition trie_or_chunk_from_bytes :: "(nat \<Rightarrow> bool) \<Rightarrow> trie_or_chunk from_bytes" where
  "trie_or_chunk_from_bytes alloc bs =
     res_bind (u8_from_bytes bs) (\<lambda>(tag, rem).
     if tag = TRIE_TAG then res_bind (Bytes_from_bytes rem) (\<lambda>(trie_bytes, rem). Ok (TocTrie trie_bytes, rem))
     else if tag = CHUNK_TAG then
       res_bind (chunk_with_proof_from_bytes alloc rem) (\<lambda>(chunk, rem). Ok (TocChunkWithProof chunk, rem))
     else Err Formatting)"

fun trie_or_chunk_fits :: "(nat \<Rightarrow> bool) \<Rightarrow> trie_or_chunk \<Rightarrow> bool" where
  "trie_or_chunk_fits alloc (TocTrie _) \<longleftrightarrow> True"
| "trie_or_chunk_fits alloc (TocChunkWithProof c) \<longleftrightarrow> proof_fits alloc (cwp_proof c)"

lemma trie_or_chunk_to_bytes_Ok:
  "trie_or_chunk_to_bytes alloc t = Ok bs \<longleftrightarrow> trie_or_chunk_serialized_length t \<le> u32_max \<and>
   (case t of TocTrie b \<Rightarrow> \<exists>bb. Bytes_to_bytes alloc b = Ok bb \<and> bs = TRIE_TAG # bb
    | TocChunkWithProof c \<Rightarrow> \<exists>cb. chunk_with_proof_to_bytes alloc c = Ok cb \<and> bs = CHUNK_TAG # cb)"
  by (cases t) (auto simp: trie_or_chunk_to_bytes_def trie_or_chunk_write_bytes_def res_simps)

interpretation trie_or_chunk_repr: bytesrepr "trie_or_chunk_fits alloc" trie_or_chunk_serialized_length
  "trie_or_chunk_to_bytes alloc'" "trie_or_chunk_write_bytes alloc'" "trie_or_chunk_from_bytes alloc"
  for alloc alloc'
proof (unfold_locales, goal_cases)
  case (1 x bs)
  then show ?case
    by (cases x) (auto simp: trie_or_chunk_to_bytes_Ok trie_or_chunk_serialized_length_def
      Bytes_repr.tb_length chunk_repr.tb_length [unfolded One_nat_def])
next
  case (2 x bs w)
  then show ?case
    by (cases x) (auto simp: trie_or_chunk_to_bytes_Ok trie_or_chunk_write_bytes_def)
next
  case (3 x bs rest)
  then show ?case
    by (cases x) (auto simp: trie_or_chunk_to_bytes_Ok trie_or_chunk_from_bytes_def
      TRIE_TAG_def CHUNK_TAG_def Bytes_repr.roundtrip chunk_repr.roundtrip [unfolded One_nat_def])
qed

section \<open>Properties\<close>

text \<open>C26: the encoding of a node of the global state trie is read back by \<open>Trie::from_bytes\<close>, its length is
  the announced one, and \<open>deserialize\<close> rejects it when any byte follows.\<close>
theorem trie_roundtrip:
  assumes "codec_ok kv kc" "codec_ok vv vc" "trie_valid kv vv t" "trie_to_bytes kc vc t = Ok bs"
  shows "trie_from_bytes kc vc (bs @ rest) = Ok (t, rest) \<and> length bs = trie_serialized_length kc vc t \<and>
    (rest \<noteq> [] \<longrightarrow> deserialize (trie_from_bytes kc vc) (bs @ rest) = Err LeftOverBytes)"
proof -
  note repr = bytes_writer.axioms(1) [OF trie_writer [OF assms(1,2)]]
  show ?thesis
    using bytesrepr.roundtrip [OF repr assms(3,4)] bytesrepr.tb_length [OF repr assms(3,4)]
      bytesrepr.trailing_bytes_rejected [OF repr assms(3,4)] by simp
qed

definition u8_codec :: "u8 codec" where
  "u8_codec = \<lparr>cd_sl = u8_serialized_length, cd_tb = u8_to_bytes, cd_wb = u8_write_bytes, cd_fb = u8_from_bytes\<rparr>"

lemma u8_codec_ok: "codec_ok (\<lambda>_. True) u8_codec"
  using u8_writer.bytes_writer_axioms by (simp add: u8_codec_def)

theorem trie_roundtrip_witness:
  "trie_from_bytes u8_codec u8_codec ([0, 7, 8] @ [9]) = Ok (Leaf 7 8, [9]) \<and>
    length [0, 7, 8 :: u8] = trie_serialized_length u8_codec u8_codec (Leaf 7 8) \<and>
    deserialize (trie_from_bytes u8_codec u8_codec) ([0, 7, 8] @ [9]) = Err LeftOverBytes"
  using trie_roundtrip [OF u8_codec_ok u8_codec_ok, of "Leaf 7 8" "[0, 7, 8]" "[9]"]
  by (simp add: trie_to_bytes_Ok u8_codec_def u8_write_bytes_def u8_serialized_length_def u32_max_def LEAF_TAG_def)

end
