(* ===== verification/Trie_Store.thy ===== *)
theory Trie_Store
  imports Trie
begin

text \<open>
  The storage layer under the trie: the trait \<open>Store\<close> (\<^verbatim>\<open>storage/store/mod.rs\<close>, \<^verbatim>\<open>store_ext.rs\<close>) over the
  traits \<open>Readable\<close> and \<open>Writable\<close>, and the in-memory environment with its transactions
  (\<^verbatim>\<open>storage/transaction_source/in_memory.rs\<close>, \<^verbatim>\<open>storage/trie_store/in_memory.rs\<close>).

  The functions of a transaction are arguments of the store's functions, as the type \<open>T\<close> is in the
  code. What a transaction promises is the locale \<open>raw_store\<close>; it is interpreted on the in-memory
  transaction, and the LMDB one, whose code is a third-party library, is any other instance. The
  locale \<open>value_store\<close> is what the operations on tries rely on.
\<close>

section \<open>Errors\<close>

datatype storage_error =
    BytesRepr bytes_error | Poison | MerkleConstruction merkle_construction_error

text \<open>The conversion \<open>From<bytesrepr::Error>\<close> that the operator \<open>?\<close> applies.\<close>

fun lift_bytes :: "(bytes_error, 'a) result \<Rightarrow> (storage_error, 'a) result" where
  "lift_bytes (Ok x) = Ok x"
| "lift_bytes (Err e) = Err (BytesRepr e)"
| "lift_bytes Panic = Panic"

lemma lift_bytes_eq_Ok [res_simps]: "lift_bytes m = Ok x \<longleftrightarrow> m = Ok x"
  by (cases m) auto

lemma lift_bytes_eq_Panic [res_simps]: "lift_bytes m = Panic \<longleftrightarrow> m = Panic"
  by (cases m) auto

section \<open>The store trait\<close>

type_synonym handle = "string option"
type_synonym 't reader = "'t \<Rightarrow> handle \<Rightarrow> bytes \<Rightarrow> (storage_error, bytes option) result"
type_synonym 't writer = "'t \<Rightarrow> handle \<Rightarrow> bytes \<Rightarrow> bytes \<Rightarrow> (storage_error, 't) result"

definition store_get_raw :: "'t reader \<Rightarrow> handle \<Rightarrow> 't \<Rightarrow> digest \<Rightarrow> (storage_error, bytes option) result" where
  "store_get_raw read_txn handle txn key = read_txn txn handle (digest_bytes key)"

definition store_get ::
  "'t reader \<Rightarrow> 'v from_bytes \<Rightarrow> handle \<Rightarrow> 't \<Rightarrow> digest \<Rightarrow> (storage_error, 'v option) result" where
  "store_get read_txn fb handle txn key =
     res_bind (store_get_raw read_txn handle txn key) (\<lambda>raw. case raw of
       Some bytes \<Rightarrow> res_bind (lift_bytes (deserialize_from_slice fb bytes)) (\<lambda>v. Ok (Some v))
     | None \<Rightarrow> Ok None)"

definition store_put_raw ::
  "'t writer \<Rightarrow> handle \<Rightarrow> 't \<Rightarrow> digest \<Rightarrow> bytes \<Rightarrow> (storage_error, 't) result" where
  "store_put_raw write_txn handle txn key trie_bytes = write_txn txn handle (digest_bytes key) trie_bytes"

definition store_put ::
  "'t writer \<Rightarrow> 'v to_bytes \<Rightarrow> handle \<Rightarrow> 't \<Rightarrow> digest \<Rightarrow> 'v \<Rightarrow> (storage_error, 't) result" where
  "store_put write_txn tb handle txn key v =
     res_bind (lift_bytes (tb v)) (\<lambda>bs. store_put_raw write_txn handle txn key bs)"

definition get_many ::
  "'t reader \<Rightarrow> 'v from_bytes \<Rightarrow> handle \<Rightarrow> 't \<Rightarrow> digest list \<Rightarrow> (storage_error, 'v option list) result" where
  "get_many read_txn fb handle txn keys =
     res_fold (\<lambda>key ret. res_bind (store_get read_txn fb handle txn key) (\<lambda>r. Ok (ret @ [r]))) keys []"

definition put_many ::
  "'t writer \<Rightarrow> 'v to_bytes \<Rightarrow> handle \<Rightarrow> 't \<Rightarrow> (digest \<times> 'v) list \<Rightarrow> (storage_error, 't) result" where
  "put_many write_txn tb handle txn pairs =
     res_fold (\<lambda>(key, v) txn. store_put write_txn tb handle txn key v) pairs txn"

text \<open>What a transaction promises: a read gives what was last written, other entries stay.\<close>

locale raw_store =
  fixes read_txn :: "'t reader" and write_txn :: "'t writer"
  assumes read_write: "write_txn txn h k v = Ok txn' \<Longrightarrow>
    read_txn txn' h' k' = (if h' = h \<and> k' = k then Ok (Some v) else read_txn txn h' k')"

text \<open>What the operations on tries rely on.\<close>

locale value_store =
  fixes ok :: "'v \<Rightarrow> bool"
    and get :: "'s \<Rightarrow> digest \<Rightarrow> (storage_error, 'v option) result"
    and put :: "'s \<Rightarrow> digest \<Rightarrow> 'v \<Rightarrow> (storage_error, 's) result"
  assumes get_put: "ok v \<Longrightarrow> put st d v = Ok st' \<Longrightarrow> get st' d' = (if d' = d then Ok (Some v) else get st d')"

locale typed_store = raw_store read_txn write_txn + bytesrepr valid sl tb wb fb
  for read_txn :: "'t reader" and write_txn :: "'t writer"
    and valid :: "'v \<Rightarrow> bool" and sl tb wb fb

sublocale typed_store \<subseteq> value_store valid "store_get read_txn fb h" "store_put write_txn tb h" for h
proof
  fix v st d st' d'
  assume v: "valid v" and "store_put write_txn tb h st d v = Ok st'"
  then obtain bs where bs: "tb v = Ok bs" "write_txn st h (digest_bytes d) bs = Ok st'"
    by (auto simp: store_put_def store_put_raw_def res_simps)
  show "store_get read_txn fb h st' d' = (if d' = d then Ok (Some v) else store_get read_txn fb h st d')"
    using roundtrip_from_slice [OF v bs(1)] by (simp add: store_get_def store_get_raw_def read_write [OF bs(2)])
qed

section \<open>The in-memory environment\<close>

type_synonym bytes_map = "bytes \<rightharpoonup> bytes"
type_synonym tables = "handle \<rightharpoonup> bytes_map"

definition in_memory_default :: tables where
  "in_memory_default = [None \<mapsto> Map.empty]"

definition in_memory_read :: "tables reader" where
  "in_memory_read view handle key =
     (case view handle of Some sub_view \<Rightarrow> Ok (sub_view key) | None \<Rightarrow> Ok None)"

definition in_memory_write :: "tables writer" where
  "in_memory_write view handle key v =
     (let sub_view = (case view handle of Some s \<Rightarrow> s | None \<Rightarrow> Map.empty)
      in Ok (view(handle \<mapsto> sub_view(key \<mapsto> v))))"

definition in_memory_commit :: "tables \<Rightarrow> tables \<Rightarrow> tables" where
  "in_memory_commit data view = data ++ view"

definition TRIE_STORE_NAME :: string where
  "TRIE_STORE_NAME = ''TRIE_STORE''"

definition in_memory_trie_store_new :: "string option \<Rightarrow> handle" where
  "in_memory_trie_store_new maybe_name =
     Some (case maybe_name of Some name \<Rightarrow> TRIE_STORE_NAME @ ''-'' @ name | None \<Rightarrow> TRIE_STORE_NAME)"

interpretation memory: raw_store in_memory_read in_memory_write
  by unfold_locales (auto simp: in_memory_read_def in_memory_write_def Let_def split: option.splits if_splits)

text \<open>A trie store in memory, for any types of keys and values whose serialisation is lawful.\<close>

abbreviation trie_ok :: "('k \<Rightarrow> bool) \<Rightarrow> 'k codec \<Rightarrow> ('v \<Rightarrow> bool) \<Rightarrow> 'v codec \<Rightarrow> ('k, 'v) trie \<Rightarrow> bool" where
  "trie_ok kv kc vv vc t \<equiv> codec_ok kv kc \<and> codec_ok vv vc \<and> trie_valid kv vv t"

interpretation trie_repr: bytesrepr "trie_ok kv kc vv vc" "trie_serialized_length kc vc" "trie_to_bytes kc vc"
  "trie_write_bytes kc vc" "trie_from_bytes kc vc" for kv kc vv vc
proof (unfold_locales, goal_cases)
  case (1 x bs)
  then show ?case using bytesrepr.tb_length [OF bytes_writer.axioms(1) [OF trie_writer]] by blast
next
  case (2 x bs w)
  then show ?case using bytesrepr.tb_write [OF bytes_writer.axioms(1) [OF trie_writer]] by blast
next
  case (3 x bs rest)
  then show ?case using bytesrepr.roundtrip [OF bytes_writer.axioms(1) [OF trie_writer]] by blast
qed

interpretation memory_tries: typed_store in_memory_read in_memory_write "trie_ok kv kc vv vc"
  "trie_serialized_length kc vc" "trie_to_bytes kc vc" "trie_write_bytes kc vc" "trie_from_bytes kc vc"
  for kv kc vv vc
  by unfold_locales

subsection \<open>Transactions in interleaved order\<close>

text \<open>
  \<open>InMemoryReadWriteTransaction::new\<close> copies the data under one mutex and only then takes the write
  mutex, which it keeps until it is dropped. Each client of the environment is idle, waiting for the
  write mutex with its copy, or active.
\<close>

datatype txn_phase = Idle | Waiting tables | Active tables

record env_state =
  env_data :: tables
  env_writer :: "nat option"
  env_txn :: "nat \<Rightarrow> txn_phase"

definition env_init :: env_state where
  "env_init = \<lparr>env_data = in_memory_default, env_writer = None, env_txn = (\<lambda>_. Idle)\<rparr>"

inductive env_step :: "env_state \<Rightarrow> env_state \<Rightarrow> bool" where
  env_copy: "env_txn s c = Idle \<Longrightarrow> env_step s (s\<lparr>env_txn := (env_txn s)(c := Waiting (env_data s))\<rparr>)"
| env_lock: "env_txn s c = Waiting view \<Longrightarrow> env_writer s = None \<Longrightarrow>
    env_step s (s\<lparr>env_writer := Some c, env_txn := (env_txn s)(c := Active view)\<rparr>)"
| env_write: "env_txn s c = Active view \<Longrightarrow> in_memory_write view h k v = Ok view' \<Longrightarrow>
    env_step s (s\<lparr>env_txn := (env_txn s)(c := Active view')\<rparr>)"
| env_commit: "env_txn s c = Active view \<Longrightarrow>
    env_step s (s\<lparr>env_data := in_memory_commit (env_data s) view, env_writer := None, env_txn := (env_txn s)(c := Idle)\<rparr>)"
| env_abort: "env_txn s c = Active view \<Longrightarrow>
    env_step s (s\<lparr>env_writer := None, env_txn := (env_txn s)(c := Idle)\<rparr>)"

inductive_cases env_stepE: "env_step s s'"

definition env_inv :: "env_state \<Rightarrow> bool" where
  "env_inv s \<longleftrightarrow> (\<forall>c view. env_txn s c = Active view \<longrightarrow> env_writer s = Some c)"

text \<open>At most one read-write transaction is active at a time.\<close>

lemma env_inv_unique: "env_inv s \<Longrightarrow> env_txn s c = Active view \<Longrightarrow> env_txn s c' = Active view' \<Longrightarrow> c = c'"
  unfolding env_inv_def by (metis option.inject)

lemma env_inv_step: "env_step s s' \<Longrightarrow> env_inv s \<Longrightarrow> env_inv s'"
proof (induction rule: env_step.induct)
  case (env_commit s c view)
  then have "env_txn s c' \<noteq> Active view'" if "c' \<noteq> c" for c' view'
    using that env_inv_unique by blast
  then show ?case by (simp add: env_inv_def)
next
  case (env_abort s c view)
  then have "env_txn s c' \<noteq> Active view'" if "c' \<noteq> c" for c' view'
    using that env_inv_unique by blast
  then show ?case by (simp add: env_inv_def)
qed (simp_all add: env_inv_def)

lemma env_inv_reachable: "env_step\<^sup>*\<^sup>* env_init s \<Longrightarrow> env_inv s"
proof (induction rule: rtranclp_induct)
  case base
  then show ?case by (simp add: env_inv_def env_init_def)
next
  case (step s s')
  then show ?case using env_inv_step by blast
qed

section \<open>Properties\<close>

text \<open>What is put into the in-memory trie store under a digest is what \<open>get\<close> returns for it, until it is
  overwritten; every other digest keeps its value.\<close>
lemma in_memory_get_put:
  assumes "codec_ok kv kc" "codec_ok vv vc" "trie_valid kv vv t"
    and "store_put in_memory_write (trie_to_bytes kc vc) h txn d t = Ok txn'"
  shows "store_get in_memory_read (trie_from_bytes kc vc) h txn' d' =
    (if d' = d then Ok (Some t) else store_get in_memory_read (trie_from_bytes kc vc) h txn d')"
  using assms by (intro memory_tries.get_put [where kv = kv and vv = vv]) simp_all

text \<open>C27: the copy of the data is taken before the write mutex, so a committed write can be lost. Client 2
  copies the data and waits; client 1 writes a value and commits; client 2 then becomes active with
  its old copy, writes another key and commits: its table replaces the one client 1 committed.\<close>
theorem in_memory_lost_update:
  "\<exists>s s'. env_step\<^sup>*\<^sup>* env_init s \<and> env_step\<^sup>*\<^sup>* s s' \<and> (\<forall>c. env_txn s' c = Idle) \<and>
     in_memory_read (env_data s) None [1] = Ok (Some [10]) \<and>
     in_memory_read (env_data s') None [1] = Ok None \<and>
     in_memory_read (env_data s') None [2] = Ok (Some [20])"
proof -
  let ?d = "in_memory_default"
  let ?d1 = "?d(None \<mapsto> [[1] \<mapsto> [10]])" and ?d2 = "?d(None \<mapsto> [[2] \<mapsto> [20]])"
  have w1: "in_memory_write ?d None [1] [10] = Ok ?d1" and w2: "in_memory_write ?d None [2] [20] = Ok ?d2"
    by (simp_all add: in_memory_write_def in_memory_default_def)
  define a where "a = env_init\<lparr>env_txn := (env_txn env_init)(2 := Waiting ?d)\<rparr>"
  define b where "b = a\<lparr>env_txn := (env_txn a)(1 := Waiting ?d)\<rparr>"
  define c where "c = b\<lparr>env_writer := Some 1, env_txn := (env_txn b)(1 := Active ?d)\<rparr>"
  define e where "e = c\<lparr>env_txn := (env_txn c)(1 := Active ?d1)\<rparr>"
  define s where "s = e\<lparr>env_data := in_memory_commit (env_data e) ?d1, env_writer := None, env_txn := (env_txn e)(1 := Idle)\<rparr>"
  define f where "f = s\<lparr>env_writer := Some 2, env_txn := (env_txn s)(2 := Active ?d)\<rparr>"
  define g where "g = f\<lparr>env_txn := (env_txn f)(2 := Active ?d2)\<rparr>"
  define s' where "s' = g\<lparr>env_data := in_memory_commit (env_data g) ?d2, env_writer := None, env_txn := (env_txn g)(2 := Idle)\<rparr>"
  note defs = a_def b_def c_def e_def s_def f_def g_def s'_def env_init_def
  have "env_step env_init a" using env_copy [of env_init 2] by (simp add: a_def env_init_def)
  moreover have "env_step a b" using env_copy [of a 1] by (simp add: b_def a_def env_init_def)
  moreover have "env_step b c" unfolding c_def by (rule env_lock) (simp_all add: b_def a_def env_init_def)
  moreover have "env_step c e" unfolding e_def by (rule env_write [OF _ w1]) (simp add: c_def)
  moreover have "env_step e s" unfolding s_def by (rule env_commit) (simp add: e_def)
  ultimately have 1: "env_step\<^sup>*\<^sup>* env_init s" by (meson converse_rtranclp_into_rtranclp rtranclp.rtrancl_refl)
  have "env_step s f" unfolding f_def by (rule env_lock) (simp_all add: defs)
  moreover have "env_step f g" unfolding g_def by (rule env_write [OF _ w2]) (simp add: f_def)
  moreover have "env_step g s'" unfolding s'_def by (rule env_commit) (simp add: g_def)
  ultimately have 2: "env_step\<^sup>*\<^sup>* s s'" by (meson converse_rtranclp_into_rtranclp rtranclp.rtrancl_refl)
  have "in_memory_read (env_data s) None [1] = Ok (Some [10])"
    "in_memory_read (env_data s') None [1] = Ok None" "in_memory_read (env_data s') None [2] = Ok (Some [20])"
    "\<forall>c. env_txn s' c = Idle"
    by (simp_all add: defs in_memory_commit_def in_memory_read_def in_memory_default_def)
  with 1 2 show ?thesis by blast
qed

end
