(* ===== verification/Trie_Ops.thy ===== *)
theory Trie_Ops
  imports Trie_Store
begin

text \<open>
  The operations on the trie of the global state:
  \<^verbatim>\<open>execution_engine/src/storage/trie_store/operations/mod.rs\<close>.

  The store's \<open>get\<close> and \<open>put\<close>, the \<open>to_bytes\<close> of keys and the \<open>trie_hash\<close> of nodes are arguments. The
  loops that follow pointers of the store need not end on a store with a cycle, so they are partial
  functions: \<open>None\<close> is a loop that does not return. A failed \<open>assert!\<close> or a slice out of range is
  \<open>Panic\<close>.
\<close>

section \<open>Loops that may not end\<close>

definition loop_bind :: "('e, 'a) result \<Rightarrow> ('a \<Rightarrow> ('e, 'b) result option) \<Rightarrow> ('e, 'b) result option" where
  "loop_bind m f = (case m of Ok x \<Rightarrow> f x | Err e \<Rightarrow> Some (Err e) | Panic \<Rightarrow> Some Panic)"

lemma loop_bind_simps [simp]:
  "loop_bind (Ok x) f = f x" "loop_bind (Err e) f = Some (Err e)" "loop_bind Panic f = Some Panic"
  by (simp_all add: loop_bind_def)

lemma loop_bind_mono [partial_function_mono]:
  "(\<And>x. mono_option (\<lambda>f. B f x)) \<Longrightarrow> mono_option (\<lambda>f. loop_bind m (B f))"
  by (cases m) (simp_all add: loop_bind_def monotone_def flat_ord_def fun_ord_def)

section \<open>Reading\<close>

datatype 'a read_result = Found 'a | NotFound | RootNotFound

type_synonym ('k, 'v) getter = "digest \<Rightarrow> (storage_error, ('k, 'v) trie option) result"

partial_function (option) read_loop ::
  "('k, 'v) getter \<Rightarrow> 'k \<Rightarrow> bytes \<Rightarrow> nat \<Rightarrow> ('k, 'v) trie \<Rightarrow> (storage_error, 'v read_result) result option" where
  "read_loop get key path depth current =
     (case current of
        Leaf leaf_key leaf_value \<Rightarrow> Some (Ok (if key = leaf_key then Found leaf_value else NotFound))
      | Node pointer_block \<Rightarrow>
          if depth < length path then
            (case pointer_block (path ! depth) of
               Some pointer \<Rightarrow> loop_bind (get (pointer_hash pointer)) (\<lambda>r. case r of
                   Some next \<Rightarrow> read_loop get key path (depth + 1) next
                 | None \<Rightarrow> Some (Ok NotFound))
             | None \<Rightarrow> Some (Ok NotFound))
          else Some Panic
      | Extension affix pointer \<Rightarrow>
          if depth + length affix \<le> length path then
            if take (length affix) (drop depth path) = affix then
              loop_bind (get (pointer_hash pointer)) (\<lambda>r. case r of
                Some next \<Rightarrow> read_loop get key path (depth + length affix) next
              | None \<Rightarrow> Some (Ok NotFound))
            else Some (Ok NotFound)
          else Some Panic)"

definition trie_read ::
  "('k, 'v) getter \<Rightarrow> 'k to_bytes \<Rightarrow> digest \<Rightarrow> 'k \<Rightarrow> (storage_error, 'v read_result) result option" where
  "trie_read get ktb root key =
     loop_bind (lift_bytes (ktb key)) (\<lambda>path.
     loop_bind (get root) (\<lambda>r. case r of
       Some root \<Rightarrow> read_loop get key path 0 root
     | None \<Rightarrow> Some (Ok RootNotFound)))"

section \<open>Scanning\<close>

type_synonym ('k, 'v) parents = "(u8 \<times> ('k, 'v) trie) list"

record ('k, 'v) trie_scan =
  ts_tip :: "('k, 'v) trie"
  ts_parents :: "('k, 'v) parents"

partial_function (option) scan_loop ::
  "('k, 'v) getter \<Rightarrow> bytes \<Rightarrow> nat \<Rightarrow> ('k, 'v) trie \<Rightarrow> ('k, 'v) parents \<Rightarrow>
   (storage_error, ('k, 'v) trie_scan option) result option" where
  "scan_loop get path depth current acc =
     (case current of
        Leaf leaf_key leaf_value \<Rightarrow> Some (Ok (Some \<lparr>ts_tip = Leaf leaf_key leaf_value, ts_parents = acc\<rparr>))
      | Node pointer_block \<Rightarrow>
          if depth < length path then
            let index = path ! depth in
            (case pointer_block index of
               None \<Rightarrow> Some (Ok (Some \<lparr>ts_tip = Node pointer_block, ts_parents = acc\<rparr>))
             | Some pointer \<Rightarrow> loop_bind (get (pointer_hash pointer)) (\<lambda>r. case r of
                   Some next \<Rightarrow> scan_loop get path (depth + 1) next (acc @ [(index, Node pointer_block)])
                 | None \<Rightarrow> Some (Ok None)))
          else Some Panic
      | Extension affix pointer \<Rightarrow>
          if depth + length affix \<le> length path then
            if take (length affix) (drop depth path) \<noteq> affix
            then Some (Ok (Some \<lparr>ts_tip = Extension affix pointer, ts_parents = acc\<rparr>))
            else loop_bind (get (pointer_hash pointer)) (\<lambda>r. case r of
                Some next \<Rightarrow>
                  if depth < length path
                  then scan_loop get path (depth + length affix) next
                    (acc @ [(path ! depth, Extension affix pointer)])
                  else Some Panic
              | None \<Rightarrow> Some (Ok None))
          else Some Panic)"

definition scan ::
  "('k, 'v) getter \<Rightarrow> bytes \<Rightarrow> ('k, 'v) trie \<Rightarrow> (storage_error, ('k, 'v) trie_scan option) result option" where
  "scan get key_bytes root = scan_loop get key_bytes 0 root []"

section \<open>Writing\<close>

type_synonym ('k, 'v) hasher = "('k, 'v) trie \<Rightarrow> (bytes_error, digest) result"
type_synonym ('k, 'v) elements = "(digest \<times> ('k, 'v) trie) list"

definition tip_pointer :: "('k, 'v) trie \<Rightarrow> digest \<Rightarrow> pointer" where
  "tip_pointer tip tip_hash =
     (case tip of Leaf _ _ \<Rightarrow> LeafPointer tip_hash | Node _ \<Rightarrow> NodePointer tip_hash
      | Extension _ _ \<Rightarrow> NodePointer tip_hash)"

fun rehash_loop ::
  "('k, 'v) hasher \<Rightarrow> ('k, 'v) trie \<Rightarrow> digest \<Rightarrow> ('k, 'v) parents \<Rightarrow> ('k, 'v) elements \<Rightarrow>
   (bytes_error, ('k, 'v) elements) result" where
  "rehash_loop hash_of tip tip_hash [] ret = Ok ret"
| "rehash_loop hash_of tip tip_hash ((index, parent) # parents) ret =
     (case parent of
        Leaf _ _ \<Rightarrow> Panic
      | Node pointer_block \<Rightarrow>
          let tip = Node (pointer_block(index := Some (tip_pointer tip tip_hash)))
          in res_bind (hash_of tip) (\<lambda>tip_hash.
             rehash_loop hash_of tip tip_hash parents (ret @ [(tip_hash, tip)]))
      | Extension affix pointer \<Rightarrow>
          let tip = Extension affix (pointer_update pointer tip_hash)
          in res_bind (hash_of tip) (\<lambda>tip_hash.
             rehash_loop hash_of tip tip_hash parents (ret @ [(tip_hash, tip)])))"

definition rehash ::
  "('k, 'v) hasher \<Rightarrow> ('k, 'v) trie \<Rightarrow> ('k, 'v) parents \<Rightarrow> (bytes_error, ('k, 'v) elements) result" where
  "rehash hash_of tip parents =
     res_bind (hash_of tip) (\<lambda>tip_hash. rehash_loop hash_of tip tip_hash (rev parents) [(tip_hash, tip)])"

definition common_prefix :: "'a list \<Rightarrow> 'a list \<Rightarrow> 'a list" where
  "common_prefix ls rs = map fst (takeWhile (\<lambda>(l, r). l = r) (zip ls rs))"

fun parent_path :: "u8 \<times> ('k, 'v) trie \<Rightarrow> bytes" where
  "parent_path (index, Extension affix _) = affix"
| "parent_path (index, _) = [index]"

definition get_parents_path :: "('k, 'v) parents \<Rightarrow> bytes" where
  "get_parents_path parents = concat (map parent_path parents)"

definition is_node :: "('k, 'v) trie \<Rightarrow> bool" where
  "is_node t = (case t of Node _ \<Rightarrow> True | _ \<Rightarrow> False)"

definition add_node_to_parents ::
  "bytes \<Rightarrow> ('k, 'v) trie \<Rightarrow> ('k, 'v) parents \<Rightarrow> (bytes_error, ('k, 'v) parents) result" where
  "add_node_to_parents path_to_leaf new_parent_node parents =
     (if \<not> is_node new_parent_node then Panic
      else let path_to_node = get_parents_path parents;
               current_path = common_prefix path_to_leaf path_to_node
        in if current_path \<noteq> path_to_node then Panic
           else let depth = length path_to_node
             in if \<not> depth < length path_to_leaf then Panic
                else Ok (parents @ [(path_to_leaf ! depth, new_parent_node)]))"

definition reparent_leaf ::
  "('k, 'v) hasher \<Rightarrow> bytes \<Rightarrow> bytes \<Rightarrow> ('k, 'v) parents \<Rightarrow>
   (bytes_error, ('k, 'v) trie \<times> ('k, 'v) parents) result" where
  "reparent_leaf hash_of new_leaf_path existing_leaf_path parents =
     (if parents = [] then Panic
      else let (child_index, parent) = last parents
        in case parent of
          Node pointer_block \<Rightarrow>
            let shared_path = common_prefix new_leaf_path existing_leaf_path
            in if \<not> length shared_path < length existing_leaf_path then Panic
               else case pointer_block child_index of
                 None \<Rightarrow> Panic
               | Some existing_leaf_pointer \<Rightarrow>
                   let new_node = trie_node [(existing_leaf_path ! length shared_path, existing_leaf_pointer)];
                       parents_path = get_parents_path parents
                   in if length shared_path < length parents_path then Panic
                      else let affix = drop (length parents_path) shared_path
                        in if affix \<noteq> []
                           then res_bind (hash_of new_node) (\<lambda>new_node_hash.
                             Ok (new_node, parents @ [(child_index, Extension affix (NodePointer new_node_hash))]))
                           else Ok (new_node, parents)
        | _ \<Rightarrow> Panic)"

record ('k, 'v) split_result =
  sr_new_node :: "('k, 'v) trie"
  sr_parents :: "('k, 'v) parents"
  sr_child :: "(digest \<times> ('k, 'v) trie) option"

definition split_extension ::
  "('k, 'v) hasher \<Rightarrow> bytes \<Rightarrow> ('k, 'v) trie \<Rightarrow> ('k, 'v) parents \<Rightarrow> (bytes_error, ('k, 'v) split_result) result" where
  "split_extension hash_of new_leaf_path existing_extension parents =
     (case existing_extension of
        Extension affix pointer \<Rightarrow>
          let parents_path = get_parents_path parents;
              existing_extension_path = parents_path @ affix;
              shared_path = common_prefix new_leaf_path existing_extension_path
          in if length shared_path < length parents_path then Panic
             else let parent_extension_affix = drop (length parents_path) shared_path
               in if length affix < length parent_extension_affix + 1 then Panic
                  else let child_extension_affix = drop (length parent_extension_affix + 1) affix
                    in res_bind (if child_extension_affix = [] then Ok None
                         else let child_extension = Extension child_extension_affix pointer
                           in res_bind (hash_of child_extension) (\<lambda>child_extension_hash.
                              Ok (Some (child_extension_hash, child_extension)))) (\<lambda>maybe_hashed_child_extension.
                       if \<not> length shared_path < length existing_extension_path then Panic
                       else let index = existing_extension_path ! length shared_path;
                                pointer = (case maybe_hashed_child_extension of
                                    None \<Rightarrow> pointer | Some (hash, _) \<Rightarrow> NodePointer hash);
                                new_node = trie_node [(index, pointer)]
                         in res_bind (if parent_extension_affix \<noteq> []
                              then res_bind (hash_of new_node) (\<lambda>new_node_hash.
                                Ok (parents @ [(parent_extension_affix ! 0,
                                  Extension parent_extension_affix (NodePointer new_node_hash))]))
                              else Ok parents) (\<lambda>parents.
                            Ok \<lparr>sr_new_node = new_node, sr_parents = parents,
                              sr_child = maybe_hashed_child_extension\<rparr>))
      | _ \<Rightarrow> Panic)"

datatype write_result = Written digest | AlreadyExists | WriteRootNotFound

text \<open>The \<open>match tip\<close> of \<open>write\<close>: the nodes to be put, in order, the new root last.\<close>

definition write_elements ::
  "('k, 'v) hasher \<Rightarrow> 'k to_bytes \<Rightarrow> 'k \<Rightarrow> 'v \<Rightarrow> bytes \<Rightarrow> ('k, 'v) trie_scan \<Rightarrow>
   (bytes_error, ('k, 'v) elements) result" where
  "write_elements hash_of ktb key v path ts =
     (let new_leaf = Leaf key v; parents = ts_parents ts in
      case ts_tip ts of
        Leaf leaf_key leaf_value \<Rightarrow>
          if key = leaf_key \<and> v = leaf_value then Ok []
          else if key = leaf_key \<and> v \<noteq> leaf_value then rehash hash_of new_leaf parents
          else if key \<noteq> leaf_key then
            res_bind (ktb leaf_key) (\<lambda>existing_leaf_path.
            res_bind (reparent_leaf hash_of path existing_leaf_path parents) (\<lambda>(new_node, parents).
            res_bind (add_node_to_parents path new_node parents) (\<lambda>parents.
            rehash hash_of new_leaf parents)))
          else Panic
      | Node pointer_block \<Rightarrow>
          res_bind (add_node_to_parents path (Node pointer_block) parents) (\<lambda>parents.
          rehash hash_of new_leaf parents)
      | Extension affix pointer \<Rightarrow>
          res_bind (split_extension hash_of path (Extension affix pointer) parents) (\<lambda>sr.
          res_bind (add_node_to_parents path (sr_new_node sr) (sr_parents sr)) (\<lambda>parents.
          case sr_child sr of
            Some hashed_extension \<Rightarrow>
              res_bind (rehash hash_of new_leaf parents) (\<lambda>els. Ok ([hashed_extension] @ els))
          | None \<Rightarrow> rehash hash_of new_leaf parents)))"

definition put_elements ::
  "('s \<Rightarrow> digest \<Rightarrow> ('k, 'v) trie \<Rightarrow> (storage_error, 's) result) \<Rightarrow> ('k, 'v) elements \<Rightarrow> 's \<Rightarrow> digest \<Rightarrow>
   (storage_error, 's \<times> digest) result" where
  "put_elements put new_elements txn root =
     res_fold (\<lambda>(hash, element) (txn, root_hash). res_bind (put txn hash element) (\<lambda>txn. Ok (txn, hash)))
       new_elements (txn, root)"

definition trie_write ::
  "('s \<Rightarrow> ('k, 'v) getter) \<Rightarrow> ('s \<Rightarrow> digest \<Rightarrow> ('k, 'v) trie \<Rightarrow> (storage_error, 's) result) \<Rightarrow>
   ('k, 'v) hasher \<Rightarrow> 'k to_bytes \<Rightarrow> 's \<Rightarrow> digest \<Rightarrow> 'k \<Rightarrow> 'v \<Rightarrow>
   (storage_error, 's \<times> write_result) result option" where
  "trie_write get put hash_of ktb txn root key v =
     loop_bind (get txn root) (\<lambda>r. case r of
       None \<Rightarrow> Some (Ok (txn, WriteRootNotFound))
     | Some current_root \<Rightarrow>
         loop_bind (lift_bytes (ktb key)) (\<lambda>path.
         case scan (get txn) path current_root of
           None \<Rightarrow> None
         | Some scanned \<Rightarrow> loop_bind scanned (\<lambda>r. case r of
             None \<Rightarrow> Some (Ok (txn, WriteRootNotFound))
           | Some ts \<Rightarrow>
               loop_bind (lift_bytes (write_elements hash_of ktb key v path ts)) (\<lambda>new_elements.
               if new_elements = [] then Some (Ok (txn, AlreadyExists))
               else loop_bind (put_elements put new_elements txn root) (\<lambda>(txn, root_hash).
                 Some (Ok (txn, Written root_hash)))))))"

definition put_trie ::
  "blake2b \<Rightarrow> digest tree_fold1 \<Rightarrow> 't writer \<Rightarrow> handle \<Rightarrow> 't \<Rightarrow> bytes \<Rightarrow> (storage_error, 't \<times> digest) result" where
  "put_trie blake2b tree_fold1 write_txn handle txn trie_bytes =
     (let trie_hash = hash_bytes_into_chunks_if_necessary blake2b tree_fold1 trie_bytes
      in res_bind (store_put_raw write_txn handle txn trie_hash trie_bytes) (\<lambda>txn. Ok (txn, trie_hash)))"

end
