(* ===== verification/Trie_Correct.thy ===== *)
theory Trie_Correct
  imports Trie_Ops
begin

text \<open>
  Correctness of reading and writing the trie of the global state.

  \<open>wf_trie\<close> is the well-formedness of the nodes stored below a node (paths, kinds of pointers, at least
  two children except at the root, no extension at the root, over a leaf or over an extension).
  \<open>lookup\<close> is what a trie says of a key, as an inductive relation over the remaining path; on a
  well-formed trie it is total, and \<open>read\<close> computes it. \<open>chain\<close> describes the parents that \<open>scan\<close>
  collects. A write replaces the tip by a node that says the same of every other key
  (\<open>simulates\<close>), and rehashing the parents carries this up to the new root.
\<close>

section \<open>Well-formed tries and what they say of a key\<close>

fun is_leaf :: "('k, 'v) trie \<Rightarrow> bool" where
  "is_leaf (Leaf _ _) = True"
| "is_leaf _ = False"

fun is_leaf_pointer :: "pointer \<Rightarrow> bool" where
  "is_leaf_pointer (LeafPointer _) = True"
| "is_leaf_pointer (NodePointer _) = False"

lemma is_node_simps [simp]: "is_node (Node pb)" "\<not> is_node (Leaf k v)" "\<not> is_node (Extension a p)"
  by (simp_all add: is_node_def)

inductive wf_trie ::
  "('k \<Rightarrow> bool) \<Rightarrow> ('k \<Rightarrow> bytes) \<Rightarrow> ('k, 'v) getter \<Rightarrow> bytes \<Rightarrow> ('k, 'v) trie \<Rightarrow> bool"
  for kok path get where
  wf_leaf: "kok k \<Longrightarrow> path k = p @ q \<Longrightarrow> wf_trie kok path get p (Leaf k v)"
| wf_node: "\<forall>i ptr. pb i = Some ptr \<longrightarrow> (\<exists>t. get (pointer_hash ptr) = Ok (Some t) \<and>
      is_leaf_pointer ptr = is_leaf t \<and> wf_trie kok path get (p @ [i]) t) \<Longrightarrow>
    p = [] \<or> (\<exists>i j. i \<noteq> j \<and> pb i \<noteq> None \<and> pb j \<noteq> None) \<Longrightarrow> wf_trie kok path get p (Node pb)"
| wf_ext: "p \<noteq> [] \<Longrightarrow> affix \<noteq> [] \<Longrightarrow> get h = Ok (Some (Node pb)) \<Longrightarrow>
    wf_trie kok path get (p @ affix) (Node pb) \<Longrightarrow> wf_trie kok path get p (Extension affix (NodePointer h))"

inductive_cases wf_leafE: "wf_trie kok path get p (Leaf k v)"
inductive_cases wf_nodeE: "wf_trie kok path get p (Node pb)"
inductive_cases wf_extE: "wf_trie kok path get p (Extension affix ptr)"

inductive lookup :: "('k, 'v) getter \<Rightarrow> 'k \<Rightarrow> bytes \<Rightarrow> ('k, 'v) trie \<Rightarrow> 'v option \<Rightarrow> bool" for get k where
  lk_leaf: "r = (if k = k' then Some v else None) \<Longrightarrow> lookup get k q (Leaf k' v) r"
| lk_none: "pb i = None \<Longrightarrow> lookup get k (i # q) (Node pb) None"
| lk_node: "pb i = Some ptr \<Longrightarrow> get (pointer_hash ptr) = Ok (Some t) \<Longrightarrow> lookup get k q t r \<Longrightarrow>
    lookup get k (i # q) (Node pb) r"
| lk_ext: "get (pointer_hash ptr) = Ok (Some t) \<Longrightarrow> lookup get k q t r \<Longrightarrow>
    lookup get k (affix @ q) (Extension affix ptr) r"
| lk_miss: "length affix \<le> length q \<Longrightarrow> take (length affix) q \<noteq> affix \<Longrightarrow>
    lookup get k q (Extension affix ptr) None"

inductive_simps lookup_leaf_iff [simp]: "lookup get k q (Leaf k' v) r"
inductive_simps lookup_node_iff: "lookup get k q (Node pb) r"
inductive_simps lookup_ext_iff: "lookup get k q (Extension affix ptr) r"

lemma lookup_nodeE [consumes 1, case_names none some]:
  assumes "lookup get k q (Node pb) r"
  obtains i q' where "q = i # q'" "pb i = None" "r = None"
  | i ptr t q' where "q = i # q'" "pb i = Some ptr" "get (pointer_hash ptr) = Ok (Some t)" "lookup get k q' t r"
  using assms by (auto simp: lookup_node_iff)

lemma lookup_extE [consumes 1, case_names match miss]:
  assumes "lookup get k q (Extension affix ptr) r"
  obtains t q' where "q = affix @ q'" "get (pointer_hash ptr) = Ok (Some t)" "lookup get k q' t r"
  | "length affix \<le> length q" "take (length affix) q \<noteq> affix" "r = None"
  using assms by (auto simp: lookup_ext_iff)

definition as_read_result :: "'v option \<Rightarrow> 'v read_result" where
  "as_read_result r = (case r of Some v \<Rightarrow> Found v | None \<Rightarrow> NotFound)"

lemma lookup_read_loop:
  "lookup get k q t r \<Longrightarrow> depth \<le> length path \<Longrightarrow> q = drop depth path \<Longrightarrow>
   read_loop get k path depth t = Some (Ok (as_read_result r))"
proof (induction arbitrary: depth rule: lookup.induct)
  case (lk_leaf r k' v q)
  then show ?case by (subst read_loop.simps) (simp add: as_read_result_def)
next
  case (lk_none pb i q)
  from lk_none(3) have "depth < length path" by (metis drop_eq_Nil2 leI list.distinct(1))
  moreover from this lk_none(3) have "path ! depth = i" by (metis hd_drop_conv_nth list.sel(1))
  ultimately show ?case using lk_none(1) by (subst read_loop.simps) (simp add: as_read_result_def)
next
  case (lk_node pb i ptr t q r)
  from lk_node(6) have d: "depth < length path" by (metis drop_eq_Nil2 leI list.distinct(1))
  moreover from this lk_node(6) have "path ! depth = i" "q = drop (depth + 1) path"
    by (metis hd_drop_conv_nth list.sel(1), metis Suc_eq_plus1 drop_Suc list.sel(3) tl_drop)
  ultimately show ?case using lk_node(1,2) lk_node(4) [of "depth + 1"] by (subst read_loop.simps) simp
next
  case (lk_ext ptr t q r affix)
  have len: "depth + length affix \<le> length path"
    using arg_cong [OF lk_ext(5), of length] lk_ext(4) by simp
  have "take (length affix) (drop depth path) = affix" using lk_ext(5) by (metis append_eq_conv_conj)
  moreover have "q = drop (depth + length affix) path"
    using lk_ext(5) by (metis append_eq_conv_conj drop_drop add.commute)
  ultimately show ?case using len lk_ext(1) lk_ext(3) [of "depth + length affix"] by (subst read_loop.simps) simp
next
  case (lk_miss affix q ptr)
  then show ?case by (subst read_loop.simps) (auto simp: as_read_result_def)
qed

text \<open>Extending the store keeps what it says.\<close>

lemma lookup_mono:
  assumes "\<And>h t. get h = Ok (Some t) \<Longrightarrow> get' h = Ok (Some t)"
  shows "lookup get k q t r \<Longrightarrow> lookup get' k q t r"
  by (induction rule: lookup.induct) (auto intro: lookup.intros assms)

lemma wf_trie_mono:
  assumes "\<And>h t. get h = Ok (Some t) \<Longrightarrow> get' h = Ok (Some t)"
  shows "wf_trie kok path get p t \<Longrightarrow> wf_trie kok path get' p t"
proof (induction rule: wf_trie.induct)
  case (wf_node pb p)
  then show ?case using assms by (intro wf_trie.wf_node) blast+
qed (auto intro: wf_trie.intros assms)

text \<open>What is relied on of the keys: \<open>to_bytes\<close> succeeds with a non-empty path, determines the key, and
  keys whose paths start with the same byte have paths of the same length.\<close>

locale trie_keys =
  fixes kok :: "'k \<Rightarrow> bool" and path :: "'k \<Rightarrow> bytes"
  assumes path_nonempty: "kok k \<Longrightarrow> path k \<noteq> []"
    and path_inj: "kok k \<Longrightarrow> kok k' \<Longrightarrow> path k = path k' \<Longrightarrow> k = k'"
    and path_length: "kok k \<Longrightarrow> kok k' \<Longrightarrow> hd (path k) = hd (path k') \<Longrightarrow> length (path k) = length (path k')"
begin

abbreviation wf :: "('k, 'v) getter \<Rightarrow> bytes \<Rightarrow> ('k, 'v) trie \<Rightarrow> bool" where
  "wf \<equiv> wf_trie kok path"

lemma same_length:
  "kok k \<Longrightarrow> kok k' \<Longrightarrow> path k = p @ q \<Longrightarrow> path k' = p @ q' \<Longrightarrow> p \<noteq> [] \<Longrightarrow> length q = length q'"
  using path_length [of k k'] by simp

text \<open>Below every node but the root there is a key.\<close>

lemma wf_has_key:
  "wf get p t \<Longrightarrow> p \<noteq> [] \<Longrightarrow>
   \<exists>k q. kok k \<and> path k = p @ q \<and> (is_node t \<longrightarrow> q \<noteq> []) \<and> (\<forall>affix ptr. t = Extension affix ptr \<longrightarrow> (\<exists>q'. q = affix @ q' \<and> q' \<noteq> []))"
proof (induction rule: wf_trie.induct)
  case (wf_leaf k p q v)
  then show ?case by auto
next
  case (wf_node pb p)
  then obtain i ptr where "pb i = Some ptr" by auto
  with wf_node obtain k q where "kok k" "path k = (p @ [i]) @ q" by blast
  then show ?case by (intro exI [of _ k] exI [of _ "i # q"]) simp
next
  case (wf_ext p affix h pb)
  then obtain k q where "kok k" "path k = (p @ affix) @ q" "q \<noteq> []" by auto
  then show ?case by (intro exI [of _ k] exI [of _ "affix @ q"]) simp
qed

lemma wf_node_path:
  assumes "wf get p (Node pb)" "kok k" "path k = p @ q"
  shows "q \<noteq> []"
proof (cases "p = []")
  case True
  then show ?thesis using assms path_nonempty by auto
next
  case False
  with wf_has_key [OF assms(1)] obtain k' q' where "kok k'" "path k' = p @ q'" "q' \<noteq> []" by auto
  with same_length [OF assms(2) this(1) assms(3) this(2)] False show ?thesis by auto
qed

lemma wf_ext_path:
  assumes "wf get p (Extension affix ptr)" "kok k" "path k = p @ q"
  shows "length affix < length q"
proof -
  have "p \<noteq> []" using assms(1) by (auto elim: wf_extE)
  with wf_has_key [OF assms(1)] obtain k' q' where "kok k'" "path k' = p @ affix @ q'" "q' \<noteq> []" by auto
  with same_length [OF assms(2) this(1) assms(3) this(2)] \<open>p \<noteq> []\<close> show ?thesis by simp
qed

lemma wf_lookup_total: "wf get p t \<Longrightarrow> kok k \<Longrightarrow> path k = p @ q \<Longrightarrow> \<exists>r. lookup get k q t r"
proof (induction arbitrary: q rule: wf_trie.induct)
  case (wf_node pb p)
  have w: "wf get p (Node pb)" using wf_node(1,2) by (intro wf_trie.wf_node) meson+
  obtain i q' where q: "q = i # q'" using wf_node_path [OF w wf_node(3,4)] by (cases q) auto
  show ?case
  proof (cases "pb i")
    case None
    then show ?thesis using q lk_none [of pb i get k q'] by auto
  next
    case (Some ptr)
    with wf_node(1) obtain t where t: "get (pointer_hash ptr) = Ok (Some t)"
        "\<And>q. kok k \<Longrightarrow> path k = (p @ [i]) @ q \<Longrightarrow> \<exists>r. lookup get k q t r" by blast
    from t(2) [of q'] wf_node(3,4) q obtain r where "lookup get k q' t r" by auto
    with lk_node [of pb i ptr get t k q' r] Some t(1) q show ?thesis by auto
  qed
next
  case (wf_ext p affix h pb)
  have w: "wf get p (Extension affix (NodePointer h))" by (rule wf_trie.wf_ext [OF wf_ext(1-4)])
  have len: "length affix \<le> length q" using wf_ext_path [OF w wf_ext(6,7)] by simp
  show ?case
  proof (cases "take (length affix) q = affix")
    case True
    define q' where "q' = drop (length affix) q"
    have q: "q = affix @ q'" using True append_take_drop_id [of "length affix" q] by (simp add: q'_def)
    with wf_ext(5) [OF wf_ext(6), of q'] wf_ext(7) obtain r where "lookup get k q' (Node pb) r" by auto
    with lk_ext [of get "NodePointer h" "Node pb" k q' r affix] q wf_ext(3) show ?thesis by auto
  next
    case False
    then show ?thesis using lk_miss [OF len, of get k "NodePointer h"] by blast
  qed
qed auto

end

section \<open>Scanning\<close>

text \<open>\<open>chain get q t ps tip q'\<close>: along the path \<open>q\<close> the pointers lead from \<open>t\<close> through the parents \<open>ps\<close> to
  \<open>tip\<close>, where \<open>q'\<close> remains.\<close>

inductive chain ::
  "('k, 'v) getter \<Rightarrow> bytes \<Rightarrow> ('k, 'v) trie \<Rightarrow> ('k, 'v) parents \<Rightarrow> ('k, 'v) trie \<Rightarrow> bytes \<Rightarrow> bool" for get where
  chain_nil: "chain get q t [] t q"
| chain_node: "pb i = Some ptr \<Longrightarrow> get (pointer_hash ptr) = Ok (Some t) \<Longrightarrow> chain get q t ps tip q' \<Longrightarrow>
    chain get (i # q) (Node pb) ((i, Node pb) # ps) tip q'"
| chain_ext: "affix \<noteq> [] \<Longrightarrow> get (pointer_hash ptr) = Ok (Some t) \<Longrightarrow> chain get q t ps tip q' \<Longrightarrow>
    chain get (affix @ q) (Extension affix ptr) ((hd affix, Extension affix ptr) # ps) tip q'"

inductive_cases chain_nilE: "chain get q t [] tip q'"
inductive_cases chain_ConsE: "chain get q t (x # ps) tip q'"

lemma chain_path: "chain get q t ps tip q' \<Longrightarrow> q = get_parents_path ps @ q'"
  by (induction rule: chain.induct) (simp_all add: get_parents_path_def)

lemma chain_append:
  "chain get q t (ps @ ps') tip q' \<longleftrightarrow> (\<exists>m qm. chain get q t ps m qm \<and> chain get qm m ps' tip q')"
proof (induction ps arbitrary: q t)
  case Nil
  then show ?case by (auto intro: chain_nil elim: chain_nilE)
next
  case (Cons x ps)
  show ?case
  proof
    assume "chain get q t ((x # ps) @ ps') tip q'"
    then show "\<exists>m qm. chain get q t (x # ps) m qm \<and> chain get qm m ps' tip q'"
      by (auto elim!: chain_ConsE simp: Cons) (blast intro: chain_node chain_ext)+
  next
    assume "\<exists>m qm. chain get q t (x # ps) m qm \<and> chain get qm m ps' tip q'"
    then show "chain get q t ((x # ps) @ ps') tip q'"
      by (auto elim!: chain_ConsE) (use Cons in \<open>blast intro: chain_node chain_ext\<close>)+
  qed
qed

text \<open>Where a scan stops.\<close>

fun scan_stops :: "bytes \<Rightarrow> ('k, 'v) trie \<Rightarrow> bool" where
  "scan_stops q (Leaf _ _) \<longleftrightarrow> True"
| "scan_stops q (Node pb) \<longleftrightarrow> q \<noteq> [] \<and> pb (hd q) = None"
| "scan_stops q (Extension affix _) \<longleftrightarrow> length affix < length q \<and> take (length affix) q \<noteq> affix"

lemma drop_Cons_nth: "drop d xs = i # q \<Longrightarrow> d < length xs \<and> xs ! d = i \<and> drop (d + 1) xs = q"
  by (metis Suc_eq_plus1 drop_Suc drop_eq_Nil2 hd_drop_conv_nth leI list.distinct(1) list.sel(1,3) tl_drop)

lemma drop_append_split:
  "d \<le> length xs \<Longrightarrow> drop d xs = a @ q \<Longrightarrow>
   d + length a \<le> length xs \<and> take (length a) (drop d xs) = a \<and> drop (d + length a) xs = q"
proof -
  assume d: "d \<le> length xs" and e: "drop d xs = a @ q"
  have "length xs - d = length a + length q" using arg_cong [OF e, of length] by simp
  moreover have "drop (d + length a) xs = drop (length a) (drop d xs)" by (simp add: add.commute)
  ultimately show ?thesis using d e by auto
qed

lemma chain_scan_loop:
  "chain get q t ps tip q' \<Longrightarrow> scan_stops q' tip \<Longrightarrow> depth \<le> length path \<Longrightarrow> drop depth path = q \<Longrightarrow>
   scan_loop get path depth t acc = Some (Ok (Some \<lparr>ts_tip = tip, ts_parents = acc @ ps\<rparr>))"
proof (induction arbitrary: depth acc rule: chain.induct)
  case (chain_nil q t)
  show ?case
  proof (cases t)
    case (Node pb)
    with chain_nil(1,3) have "depth < length path" by auto
    moreover from this have "path ! depth = hd q" using chain_nil(3) by (metis hd_drop_conv_nth)
    ultimately show ?thesis using Node chain_nil(1) by (subst scan_loop.simps) (simp add: Let_def)
  next
    case (Extension affix ptr)
    with chain_nil have "depth + length affix \<le> length path" "take (length affix) (drop depth path) \<noteq> affix" by auto
    then show ?thesis using Extension by (subst scan_loop.simps) simp
  qed (subst scan_loop.simps, simp)
next
  case (chain_node pb i ptr t q ps tip q')
  from drop_Cons_nth [OF chain_node(7)] chain_node show ?case
    by (subst scan_loop.simps) (simp add: Let_def)
next
  case (chain_ext affix ptr t q ps tip q')
  from drop_append_split [OF chain_ext(6,7)] have d: "depth + length affix \<le> length path"
      "take (length affix) (drop depth path) = affix" "drop (depth + length affix) path = q" by auto
  have "depth < length path" using d(1) chain_ext(1) by (cases affix) auto
  moreover have "path ! depth = hd affix"
    using chain_ext(1,7) hd_drop_conv_nth [OF \<open>depth < length path\<close>] by simp
  ultimately show ?case using d chain_ext by (subst scan_loop.simps) simp
qed

context trie_keys
begin

lemma wf_leafI: "kok k \<Longrightarrow> path k = p @ q \<Longrightarrow> wf get p (Leaf k v)"
  by (rule wf_trie.wf_leaf)

lemma wf_nodeI:
  "(\<And>i ptr. pb i = Some ptr \<Longrightarrow> \<exists>t. get (pointer_hash ptr) = Ok (Some t) \<and>
      is_leaf_pointer ptr = is_leaf t \<and> wf get (p @ [i]) t) \<Longrightarrow>
   p = [] \<or> (\<exists>i j. i \<noteq> j \<and> pb i \<noteq> None \<and> pb j \<noteq> None) \<Longrightarrow> wf get p (Node pb)"
  by (rule wf_trie.wf_node) blast+

lemma wf_nodeD:
  assumes "wf get p (Node pb)"
  shows "pb i = Some ptr \<Longrightarrow> \<exists>t. get (pointer_hash ptr) = Ok (Some t) \<and>
      is_leaf_pointer ptr = is_leaf t \<and> wf get (p @ [i]) t"
    and "p = [] \<or> (\<exists>i j. i \<noteq> j \<and> pb i \<noteq> None \<and> pb j \<noteq> None)"
  using assms by (auto elim: wf_nodeE)

text \<open>A scan of a well-formed trie comes to a stop, and its parents form a chain.\<close>

lemma wf_scan:
  "wf get p t \<Longrightarrow> kok k \<Longrightarrow> path k = p @ q \<Longrightarrow>
   \<exists>ps tip q'. chain get q t ps tip q' \<and> scan_stops q' tip \<and> wf get (p @ get_parents_path ps) tip"
proof (induction arbitrary: q rule: wf_trie.induct)
  case (wf_leaf k' p q' v)
  then show ?case
    by (intro exI [of _ "[]"] exI [of _ "Leaf k' v"] exI [of _ q])
      (auto simp: get_parents_path_def intro: chain_nil wf_trie.wf_leaf)
next
  case (wf_node pb p)
  have w: "wf get p (Node pb)" using wf_node(1,2) by (intro wf_trie.wf_node) meson+
  obtain i q1 where q: "q = i # q1" using wf_node_path [OF w wf_node(3,4)] by (cases q) auto
  show ?case
  proof (cases "pb i")
    case None
    then show ?thesis using w q
      by (intro exI [of _ "[]"] exI [of _ "Node pb"] exI [of _ q]) (auto simp: get_parents_path_def intro: chain_nil)
  next
    case (Some ptr)
    with wf_node(1) obtain t where t: "get (pointer_hash ptr) = Ok (Some t)"
        "\<And>q. kok k \<Longrightarrow> path k = (p @ [i]) @ q \<Longrightarrow> \<exists>ps tip q'. chain get q t ps tip q' \<and> scan_stops q' tip \<and>
          wf get ((p @ [i]) @ get_parents_path ps) tip" by blast
    from t(2) [of q1] wf_node(3,4) q obtain ps tip q' where c: "chain get q1 t ps tip q'" "scan_stops q' tip"
        "wf get (p @ i # get_parents_path ps) tip" by auto
    from chain_node [of pb i ptr get t q1 ps tip q', OF Some t(1) c(1)] q c(2,3) show ?thesis
      by (intro exI [of _ "(i, Node pb) # ps"] exI [of _ tip] exI [of _ q']) (simp add: get_parents_path_def)
  qed
next
  case (wf_ext p affix h pb)
  have w: "wf get p (Extension affix (NodePointer h))" by (rule wf_trie.wf_ext [OF wf_ext(1-4)])
  have len: "length affix < length q" using wf_ext_path [OF w wf_ext(6,7)] .
  show ?case
  proof (cases "take (length affix) q = affix")
    case True
    define q1 where "q1 = drop (length affix) q"
    have q: "q = affix @ q1" using True append_take_drop_id [of "length affix" q] by (simp add: q1_def)
    with wf_ext(5) [OF wf_ext(6), of q1] wf_ext(7) obtain ps tip q' where c: "chain get q1 (Node pb) ps tip q'"
        "scan_stops q' tip" "wf get (p @ affix @ get_parents_path ps) tip" by auto
    from chain_ext [of affix get "NodePointer h" "Node pb" q1 ps tip q'] wf_ext(2,3) c q show ?thesis
      by (intro exI [of _ "(hd affix, Extension affix (NodePointer h)) # ps"] exI [of _ tip] exI [of _ q'])
        (simp add: get_parents_path_def)
  next
    case False
    then show ?thesis using w len
      by (intro exI [of _ "[]"] exI [of _ "Extension affix (NodePointer h)"] exI [of _ q])
        (auto simp: get_parents_path_def intro: chain_nil)
  qed
qed

end

section \<open>Rehashing\<close>

text \<open>The parent with the pointer to its child replaced.\<close>

fun reseat :: "('k, 'v) trie \<Rightarrow> u8 \<Rightarrow> ('k, 'v) trie \<Rightarrow> digest \<Rightarrow> ('k, 'v) trie" where
  "reseat (Node pointer_block) index tip h = Node (pointer_block(index := Some (tip_pointer tip h)))"
| "reseat (Extension affix pointer) index tip h = Extension affix (pointer_update pointer h)"
| "reseat (Leaf k v) index tip h = Leaf k v"

lemma rehash_loop_Cons:
  "rehash_loop hash_of tip h ((i, parent) # ps) ret =
     (if is_leaf parent then Panic
      else res_bind (hash_of (reseat parent i tip h)) (\<lambda>h'.
        rehash_loop hash_of (reseat parent i tip h) h' ps (ret @ [(h', reseat parent i tip h)])))"
  by (cases parent) (simp_all add: Let_def)

declare rehash_loop.simps(2) [simp del]

lemma rehash_loop_extends: "rehash_loop hash_of tip h ps ret = Ok els \<Longrightarrow> \<exists>more. els = ret @ more"
proof (induction ps arbitrary: tip h ret)
  case (Cons x ps)
  obtain i parent where x: "x = (i, parent)" by fastforce
  with Cons.prems obtain h' where
    "rehash_loop hash_of (reseat parent i tip h) h' ps (ret @ [(h', reseat parent i tip h)]) = Ok els"
    by (auto simp: rehash_loop_Cons res_simps split: if_splits)
  from Cons.IH [OF this] show ?case by auto
qed simp

lemma rehash_loop_hashes:
  "rehash_loop hash_of tip h ps ret = Ok els \<Longrightarrow> \<forall>(h, t)\<in>set ret. hash_of t = Ok h \<Longrightarrow>
   \<forall>(h, t)\<in>set els. hash_of t = Ok h"
proof (induction ps arbitrary: tip h ret)
  case (Cons x ps)
  obtain i parent where x: "x = (i, parent)" by fastforce
  with Cons.prems(1) obtain h' where "hash_of (reseat parent i tip h) = Ok h'"
    "rehash_loop hash_of (reseat parent i tip h) h' ps (ret @ [(h', reseat parent i tip h)]) = Ok els"
    by (auto simp: rehash_loop_Cons res_simps split: if_splits)
  with Cons.IH [OF this(2)] Cons.prems(2) show ?case by auto
qed simp

lemma rehash_loop_no_panic:
  "(\<And>t. \<not> is_leaf t \<Longrightarrow> hash_of t \<noteq> Panic) \<Longrightarrow> \<forall>(i, t)\<in>set ps. \<not> is_leaf t \<Longrightarrow>
   rehash_loop hash_of tip h ps ret \<noteq> Panic"
proof (induction ps arbitrary: tip h ret)
  case (Cons x ps)
  obtain i parent where x: "x = (i, parent)" by fastforce
  with Cons.prems(2) have "\<not> is_leaf parent" "\<not> is_leaf (reseat parent i tip h)" by (cases parent; auto)+
  with Cons x show ?case by (auto simp: rehash_loop_Cons res_simps)
qed simp

lemma tip_pointer_hash [simp]: "pointer_hash (tip_pointer t h) = h" "is_leaf_pointer (tip_pointer t h) = is_leaf t"
  by (cases t; simp add: tip_pointer_def)+

definition simulates ::
  "('k \<Rightarrow> bool) \<Rightarrow> ('k \<Rightarrow> bytes) \<Rightarrow> ('k, 'v) getter \<Rightarrow> ('k, 'v) getter \<Rightarrow> 'k \<Rightarrow> 'v \<Rightarrow> bytes \<Rightarrow>
   ('k, 'v) trie \<Rightarrow> ('k, 'v) trie \<Rightarrow> bool" where
  "simulates kok path get get' k v p t t' \<longleftrightarrow>
     wf_trie kok path get' p t' \<and> (is_node t \<longrightarrow> is_node t') \<and>
     (\<forall>k' q r. kok k' \<longrightarrow> path k' = p @ q \<longrightarrow> k' \<noteq> k \<longrightarrow> lookup get k' q t r \<longrightarrow> lookup get' k' q t' r) \<and>
     (\<forall>q. path k = p @ q \<longrightarrow> lookup get' k q t' (Some v))"

definition extends :: "('k, 'v) getter \<Rightarrow> ('k, 'v) getter \<Rightarrow> bool" where
  "extends get get' \<longleftrightarrow> (\<forall>h t. get h = Ok (Some t) \<longrightarrow> get' h = Ok (Some t))"

lemma extendsD: "extends get get' \<Longrightarrow> get h = Ok (Some t) \<Longrightarrow> get' h = Ok (Some t)"
  by (simp add: extends_def)

context trie_keys
begin

abbreviation sim where "sim \<equiv> simulates kok path"

lemma simI:
  "wf get' p t' \<Longrightarrow> (is_node t \<Longrightarrow> is_node t') \<Longrightarrow>
   (\<And>k' q r. kok k' \<Longrightarrow> path k' = p @ q \<Longrightarrow> k' \<noteq> k \<Longrightarrow> lookup get k' q t r \<Longrightarrow> lookup get' k' q t' r) \<Longrightarrow>
   (\<And>q. path k = p @ q \<Longrightarrow> lookup get' k q t' (Some v)) \<Longrightarrow> sim get get' k v p t t'"
  by (auto simp: simulates_def)

lemma simD:
  assumes "sim get get' k v p t t'"
  shows "wf get' p t'" "is_node t \<Longrightarrow> is_node t'"
    "kok k' \<Longrightarrow> path k' = p @ q \<Longrightarrow> k' \<noteq> k \<Longrightarrow> lookup get k' q t r \<Longrightarrow> lookup get' k' q t' r"
    "path k = p @ q \<Longrightarrow> lookup get' k q t' (Some v)"
  using assms by (auto simp: simulates_def)

lemma sim_node:
  assumes ext: "extends get get'" and w: "wf get p (Node pb)"
    and i: "pb i = Some ptr" "get (pointer_hash ptr) = Ok (Some t)"
    and s: "sim get get' k v (p @ [i]) t t'" and h: "get' h = Ok (Some t')"
    and k: "path k = p @ i # qk"
  shows "sim get get' k v p (Node pb) (Node (pb(i := Some (tip_pointer t' h))))"
proof (rule simI)
  show "wf get' p (Node (pb(i := Some (tip_pointer t' h))))"
  proof (rule wf_nodeI)
    fix j ptr'
    assume j: "(pb(i := Some (tip_pointer t' h))) j = Some ptr'"
    show "\<exists>t. get' (pointer_hash ptr') = Ok (Some t) \<and> is_leaf_pointer ptr' = is_leaf t \<and> wf get' (p @ [j]) t"
    proof (cases "j = i")
      case True
      then show ?thesis using j h simD(1) [OF s] by auto
    next
      case False
      with j wf_nodeD(1) [OF w, of j ptr'] show ?thesis
        using ext wf_trie_mono [of get get'] by (auto simp: extends_def)
    qed
  next
    show "p = [] \<or> (\<exists>x y. x \<noteq> y \<and> (pb(i := Some (tip_pointer t' h))) x \<noteq> None \<and> (pb(i := Some (tip_pointer t' h))) y \<noteq> None)"
    proof (cases "p = []")
      case False
      with wf_nodeD(2) [OF w] obtain x y where "x \<noteq> y" "pb x \<noteq> None" "pb y \<noteq> None" by blast
      then have "\<exists>x y. x \<noteq> y \<and> (pb(i := Some (tip_pointer t' h))) x \<noteq> None \<and> (pb(i := Some (tip_pointer t' h))) y \<noteq> None"
        by (intro exI [of _ x] exI [of _ y]) simp
      then show ?thesis ..
    qed simp
  qed
next
  fix k' q r
  assume k': "kok k'" "path k' = p @ q" "k' \<noteq> k" and l: "lookup get k' q (Node pb) r"
  from l show "lookup get' k' q (Node (pb(i := Some (tip_pointer t' h)))) r"
  proof (cases rule: lookup_nodeE)
    case (none j q')
    then have "j \<noteq> i" using i by auto
    with none show ?thesis using lk_none [of "pb(i := Some (tip_pointer t' h))" j get' k' q'] by simp
  next
    case (some j ptr' u q')
    show ?thesis
    proof (cases "j = i")
      case True
      with some i have "u = t" by simp
      with simD(3) [OF s k'(1) _ k'(3)] some True k'(2) have "lookup get' k' q' t' r" by simp
      with some True h lk_node [of "pb(i := Some (tip_pointer t' h))" i "tip_pointer t' h" get' t' k' q' r]
      show ?thesis by simp
    next
      case False
      have "lookup get' k' q' u r" using lookup_mono [of get get'] some ext by (auto simp: extends_def)
      with some False ext lk_node [of "pb(i := Some (tip_pointer t' h))" j ptr' get' u k' q' r]
      show ?thesis by (simp add: extends_def)
    qed
  qed
next
  fix q assume "path k = p @ q"
  with k have q: "q = i # qk" by simp
  from simD(4) [OF s] k have "lookup get' k qk t' (Some v)" by simp
  with h lk_node [of "pb(i := Some (tip_pointer t' h))" i "tip_pointer t' h" get' t' k qk "Some v"] q
  show "lookup get' k q (Node (pb(i := Some (tip_pointer t' h)))) (Some v)" by simp
qed simp

lemma sim_ext:
  assumes w: "wf get p (Extension affix ptr)" and i: "get (pointer_hash ptr) = Ok (Some t)"
    and s: "sim get get' k v (p @ affix) t t'" and h: "get' h = Ok (Some t')"
    and k: "path k = p @ affix @ qk"
  shows "sim get get' k v p (Extension affix ptr) (Extension affix (pointer_update ptr h))"
proof -
  from w obtain h0 pb where ptr: "ptr = NodePointer h0" "get h0 = Ok (Some (Node pb))" "p \<noteq> []" "affix \<noteq> []"
    by (auto elim: wf_extE)
  with i have t: "t = Node pb" by simp
  with simD(2) [OF s] obtain pb' where t': "t' = Node pb'" by (cases t') auto
  show ?thesis
  proof (rule simI)
    show "wf get' p (Extension affix (pointer_update ptr h))"
      using ptr t' h simD(1) [OF s] by (auto intro: wf_trie.wf_ext)
  next
    fix k' q r
    assume k': "kok k'" "path k' = p @ q" "k' \<noteq> k" and l: "lookup get k' q (Extension affix ptr) r"
    from l show "lookup get' k' q (Extension affix (pointer_update ptr h)) r"
    proof (cases rule: lookup_extE)
      case (match u q')
      with i have "u = t" by simp
      with simD(3) [OF s k'(1) _ k'(3)] match k'(2) have "lookup get' k' q' t' r" by simp
      with match h ptr lk_ext [of get' "NodePointer h" t' k' q' r affix] show ?thesis by simp
    next
      case miss
      then show ?thesis by (auto intro: lk_miss)
    qed
  next
    fix q assume "path k = p @ q"
    with k have q: "q = affix @ qk" by simp
    from simD(4) [OF s] k have "lookup get' k qk t' (Some v)" by simp
    with h q ptr lk_ext [of get' "NodePointer h" t' k qk "Some v" affix]
    show "lookup get' k q (Extension affix (pointer_update ptr h)) (Some v)" by simp
  qed simp
qed

lemma chain_wf: "chain get q t ps tip q' \<Longrightarrow> wf get p t \<Longrightarrow> wf get (p @ get_parents_path ps) tip"
proof (induction arbitrary: p rule: chain.induct)
  case (chain_node pb i ptr t q ps tip q')
  from wf_nodeD(1) [OF chain_node(5,1)] chain_node(2) have "wf get (p @ [i]) t" by auto
  from chain_node(4) [OF this] show ?case by (simp add: get_parents_path_def)
next
  case (chain_ext affix ptr t q ps tip q')
  from chain_ext(5,2) have "wf get (p @ affix) t" by (auto elim: wf_extE)
  from chain_ext(4) [OF this] show ?case by (simp add: get_parents_path_def)
qed (simp add: get_parents_path_def)

lemma chain_single:
  assumes "chain get q t [(i, parent)] tip q'"
  shows "t = parent \<and> q = parent_path (i, parent) @ q' \<and> \<not> is_leaf parent \<and>
    (\<forall>pb. parent = Node pb \<longrightarrow> (\<exists>ptr. pb i = Some ptr \<and> get (pointer_hash ptr) = Ok (Some tip))) \<and>
    (\<forall>affix ptr. parent = Extension affix ptr \<longrightarrow> get (pointer_hash ptr) = Ok (Some tip))"
  using assms by (auto elim!: chain_ConsE chain_nilE)

text \<open>Rehashing the parents of a tip that was replaced by a simulating one.\<close>

lemma rehash_loop_sim:
  assumes ext: "extends get get'"
  shows "chain get q t ps tip q' \<Longrightarrow> wf get p t \<Longrightarrow> path k = p @ q \<Longrightarrow>
    sim get get' k v (p @ get_parents_path ps) tip tip' \<Longrightarrow> get' h = Ok (Some tip') \<Longrightarrow>
    rehash_loop hash_of tip' h (rev ps) (ret @ [(h, tip')]) = Ok els \<Longrightarrow>
    \<forall>(h, t)\<in>set els. get' h = Ok (Some t) \<Longrightarrow>
    \<exists>h' t'. last els = (h', t') \<and> sim get get' k v p t t'"
proof (induction ps arbitrary: tip q' tip' h ret rule: rev_induct)
  case Nil
  then have "tip = t" by (auto elim: chain_nilE)
  with Nil show ?case by (auto simp: get_parents_path_def)
next
  case (snoc x ps)
  obtain i parent where x: "x = (i, parent)" by fastforce
  from snoc.prems(1) obtain m qm where c: "chain get q t ps m qm" "chain get qm m [(i, parent)] tip q'"
    by (auto simp: chain_append x)
  from chain_single [OF c(2)] have m: "m = parent" "qm = parent_path (i, parent) @ q'" "\<not> is_leaf parent"
      "\<And>pb. parent = Node pb \<Longrightarrow> \<exists>ptr. pb i = Some ptr \<and> get (pointer_hash ptr) = Ok (Some tip)"
      "\<And>affix ptr. parent = Extension affix ptr \<Longrightarrow> get (pointer_hash ptr) = Ok (Some tip)" by auto
  let ?P = "p @ get_parents_path ps"
  have wp: "wf get ?P parent" using chain_wf [OF c(1) snoc.prems(2)] m(1) by simp
  have pk: "path k = ?P @ parent_path (i, parent) @ q'"
    using snoc.prems(3) chain_path [OF c(1)] m(2) by simp
  have pp: "p @ get_parents_path (ps @ [x]) = ?P @ parent_path (i, parent)"
    by (simp add: get_parents_path_def x)
  have sp: "sim get get' k v ?P parent (reseat parent i tip' h)"
  proof (cases parent)
    case (Node pb)
    then obtain ptr where "pb i = Some ptr" "get (pointer_hash ptr) = Ok (Some tip)" using m(4) by blast
    with sim_node [OF ext, of ?P pb i ptr tip k v tip' h q'] wp Node snoc.prems(4,5) pp pk show ?thesis by simp
  next
    case (Extension affix ptr)
    with sim_ext [of get ?P affix ptr tip get' k v tip' h q'] m(5) wp snoc.prems(4,5) pp pk show ?thesis by simp
  qed (use m in simp)
  from snoc.prems(6) m(3) obtain h' where h': "hash_of (reseat parent i tip' h) = Ok h'"
    "rehash_loop hash_of (reseat parent i tip' h) h' (rev ps) ((ret @ [(h, tip')]) @ [(h', reseat parent i tip' h)]) = Ok els"
    by (auto simp: x rehash_loop_Cons res_simps)
  from rehash_loop_extends [OF h'(2)] have "(h', reseat parent i tip' h) \<in> set els" by auto
  with snoc.prems(7) have "get' h' = Ok (Some (reseat parent i tip' h))" by auto
  from snoc.IH [OF c(1) snoc.prems(2,3) _ this h'(2) snoc.prems(7)] sp m(1) show ?case by simp
qed

text \<open>A node with two children, the new leaf and the displaced subtrie, below a possible extension.\<close>

lemma sim_fork:
  fixes j pj i hl
  defines "N \<equiv> Node ((from_indexed_pointers [(j, pj)])(i := Some (LeafPointer hl)))"
  assumes P: "P \<noteq> []" and tj: "get' (pointer_hash pj) = Ok (Some tj)" "is_leaf_pointer pj = is_leaf tj" "wf get' (P @ a @ [j]) tj"
    and hl: "get' hl = Ok (Some (Leaf k v))" and hN: "get' hN = Ok (Some N)"
    and k: "kok k" "path k = P @ a @ i # qk" and ij: "i \<noteq> j" and nn: "\<not> is_node t"
    and old: "\<And>k' q r. kok k' \<Longrightarrow> path k' = P @ q \<Longrightarrow> k' \<noteq> k \<Longrightarrow> lookup get k' q t r \<Longrightarrow>
      (\<forall>q3. q = a @ j # q3 \<longrightarrow> lookup get' k' q3 tj r) \<and> ((\<nexists>q3. q = a @ j # q3) \<longrightarrow> r = None)"
  shows "sim get get' k v P t (if a = [] then N else Extension a (NodePointer hN))"
proof -
  let ?pb = "(from_indexed_pointers [(j, pj)])(i := Some (LeafPointer hl))"
  have pb: "?pb i = Some (LeafPointer hl)" "?pb j = Some pj" "\<And>x. x \<noteq> i \<Longrightarrow> x \<noteq> j \<Longrightarrow> ?pb x = None"
    using ij by (simp_all add: from_indexed_pointers_def pointer_block_new_def)
  have wN: "wf get' (P @ a) N"
    unfolding N_def
  proof (rule wf_nodeI)
    fix x ptr
    assume x: "?pb x = Some ptr"
    then consider "x = i" | "x = j" using pb(3) by fastforce
    then show "\<exists>t. get' (pointer_hash ptr) = Ok (Some t) \<and> is_leaf_pointer ptr = is_leaf t \<and> wf get' ((P @ a) @ [x]) t"
    proof cases
      case 1
      with x pb(1) hl k wf_trie.wf_leaf [of kok k path "(P @ a) @ [i]" qk] show ?thesis by auto
    next
      case 2
      with x pb(2) tj show ?thesis by auto
    qed
  qed (use pb ij in blast)
  have lN: "lookup get' k' q' N r"
    if "q' = c # q3" "k' \<noteq> k" "c = j \<Longrightarrow> lookup get' k' q3 tj r" "c \<noteq> j \<Longrightarrow> r = None" for k' q' c q3 r
  proof -
    consider "c = i" | "c = j" | "c \<noteq> i" "c \<noteq> j" by blast
    then show ?thesis
    proof cases
      case 1
      with that ij hl pb(1) lk_node [of ?pb i "LeafPointer hl" get' "Leaf k v" k' q3 r] show ?thesis by (simp add: N_def)
    next
      case 2
      with that pb(2) tj(1) lk_node [of ?pb j pj get' tj k' q3 r] show ?thesis by (simp add: N_def)
    next
      case 3
      with that pb(3) lk_none [of ?pb c get' k' q3] show ?thesis by (simp add: N_def)
    qed
  qed
  have kN: "lookup get' k (i # qk) N (Some v)"
    using hl pb(1) lk_node [of ?pb i "LeafPointer hl" get' "Leaf k v" k qk "Some v"] by (simp add: N_def)
  show ?thesis
  proof (rule simI)
    show "wf get' P (if a = [] then N else Extension a (NodePointer hN))"
      using wN P hN by (auto simp: N_def intro: wf_trie.wf_ext)
  next
    fix k' q r
    assume k': "kok k'" "path k' = P @ q" "k' \<noteq> k" and l: "lookup get k' q t r"
    note o = old [OF k' l]
    have "length q = length (a @ i # qk)" by (rule same_length [OF k'(1) k(1) k'(2) k(2) P])
    then have len: "length a < length q" by simp
    show "lookup get' k' q (if a = [] then N else Extension a (NodePointer hN)) r"
    proof (cases "take (length a) q = a")
      case True
      obtain c q3 where "drop (length a) q = c # q3" using len by (cases "drop (length a) q") auto
      then have q: "q = a @ c # q3" using True append_take_drop_id [of "length a" q] by simp
      have "lookup get' k' (c # q3) N r" using lN [OF refl k'(3), of c q3 r] o q by auto
      then show ?thesis using q hN lk_ext [of get' "NodePointer hN" N k' "c # q3" r a] by simp
    next
      case False
      then have "r = None" "a \<noteq> []" using o by auto
      with False len lk_miss [of a q get' k' "NodePointer hN"] show ?thesis by simp
    qed
  next
    fix q assume "path k = P @ q"
    with k have "q = a @ i # qk" by simp
    with kN hN lk_ext [of get' "NodePointer hN" N k "i # qk" "Some v" a]
    show "lookup get' k q (if a = [] then N else Extension a (NodePointer hN)) (Some v)" by simp
  qed (use nn in simp)
qed

end

lemma common_prefix_append: "common_prefix (p @ xs) (p @ ys) = p @ common_prefix xs ys"
  by (induction p) (simp_all add: common_prefix_def)

lemma common_prefix_split:
  "\<exists>xs' ys'. xs = common_prefix xs ys @ xs' \<and> ys = common_prefix xs ys @ ys' \<and>
    (xs' = [] \<or> ys' = [] \<or> hd xs' \<noteq> hd ys')"
proof (induction xs arbitrary: ys)
  case (Cons x xs)
  show ?case
  proof (cases ys)
    case c: (Cons y ys')
    show ?thesis
    proof (cases "x = y")
      case True
      with Cons [of ys'] c show ?thesis by (simp add: common_prefix_def)
    qed (use c in \<open>simp add: common_prefix_def\<close>)
  qed (simp add: common_prefix_def)
qed (simp add: common_prefix_def)

lemma common_prefix_same: "common_prefix (p @ q) p = p"
  using common_prefix_append [of p q "[]"] by (simp add: common_prefix_def)

section \<open>Writing\<close>

text \<open>The interface of the operations: a store of nodes, the serialisation of keys and the hash of nodes.\<close>

locale trie_world = trie_keys kok path + value_store ok get put
  for kok :: "'k \<Rightarrow> bool" and path :: "'k \<Rightarrow> bytes" and ok :: "('k, 'v) trie \<Rightarrow> bool"
    and get :: "'s \<Rightarrow> digest \<Rightarrow> (storage_error, ('k, 'v) trie option) result"
    and put :: "'s \<Rightarrow> digest \<Rightarrow> ('k, 'v) trie \<Rightarrow> (storage_error, 's) result" +
  fixes vok :: "'v \<Rightarrow> bool" and ktb :: "'k to_bytes" and hash_of :: "('k, 'v) hasher"
  assumes ktb_path: "kok k \<Longrightarrow> ktb k = Ok (path k)"
    and ok_new: "kok k \<Longrightarrow> vok v \<Longrightarrow> \<not> is_leaf t \<or> t = Leaf k v \<Longrightarrow> ok t"
    and hash_no_panic: "ok t \<Longrightarrow> hash_of t \<noteq> Panic"
    and put_no_panic: "ok t \<Longrightarrow> put st d t \<noteq> Panic"
begin

lemma rehash_no_panic:
  "kok k \<Longrightarrow> vok v \<Longrightarrow> \<forall>(i, t)\<in>set ps. \<not> is_leaf t \<Longrightarrow> rehash hash_of (Leaf k v) ps \<noteq> Panic"
  using hash_no_panic [OF ok_new, of k v "Leaf k v"] rehash_loop_no_panic [of hash_of "rev ps"]
    hash_no_panic [OF ok_new, of k v]
  by (auto simp: rehash_def res_simps)

text \<open>After the elements are put, the store has them and, without collisions, all it had before.\<close>

lemma put_elements_get:
  "put_elements put els st r = Ok (st', r') \<Longrightarrow> \<forall>(h, t)\<in>set els. ok t \<Longrightarrow>
   get st' h = (case map_of (rev els) h of Some t \<Rightarrow> Ok (Some t) | None \<Rightarrow> get st h) \<and>
   r' = (if els = [] then r else fst (last els))"
proof (induction els arbitrary: st r)
  case (Cons x els)
  obtain h0 t0 where x: "x = (h0, t0)" by fastforce
  with Cons.prems(1) obtain st1 where p: "put st h0 t0 = Ok st1" "put_elements put els st1 h0 = Ok (st', r')"
    by (auto simp: put_elements_def res_simps)
  from get_put [OF _ p(1)] x Cons.prems(2) have "get st1 h = (if h = h0 then Ok (Some t0) else get st h)" by auto
  with Cons.IH [OF p(2)] Cons.prems(2) x show ?case
    by (auto simp: map_add_def split: option.splits)
qed (simp add: put_elements_def)

lemma put_elements_no_panic: "\<forall>(h, t)\<in>set els. ok t \<Longrightarrow> put_elements put els st r \<noteq> Panic"
proof (induction els arbitrary: st r)
  case (Cons x els)
  obtain h0 t0 where x: "x = (h0, t0)" by fastforce
  with Cons put_no_panic [of t0 st h0] show ?case by (auto simp: put_elements_def res_simps)
qed (simp add: put_elements_def)

end

text \<open>Every node is stored under its hash.\<close>

definition addressed :: "('k, 'v) hasher \<Rightarrow> ('k, 'v) getter \<Rightarrow> bool" where
  "addressed hash_of get \<longleftrightarrow> (\<forall>h t. get h = Ok (Some t) \<longrightarrow> hash_of t = Ok h)"

text \<open>The hash has no collision among the stored nodes and the ones to be put.\<close>

definition collision_free :: "('k, 'v) hasher \<Rightarrow> ('k, 'v) getter \<Rightarrow> ('k, 'v) elements \<Rightarrow> bool" where
  "collision_free hash_of get els \<longleftrightarrow> inj_on hash_of ({t. \<exists>h. get h = Ok (Some t)} \<union> snd ` set els)"

text \<open>The same for the nodes that a write is about to put.\<close>

definition new_elements_collision_free ::
  "('k, 'v) getter \<Rightarrow> ('k, 'v) hasher \<Rightarrow> 'k to_bytes \<Rightarrow> digest \<Rightarrow> 'k \<Rightarrow> 'v \<Rightarrow> bool" where
  "new_elements_collision_free get hash_of ktb r k v \<longleftrightarrow>
     (\<forall>root path ts els. get r = Ok (Some root) \<longrightarrow> ktb k = Ok path \<longrightarrow> scan get path root = Some (Ok (Some ts)) \<longrightarrow>
        write_elements hash_of ktb k v path ts = Ok els \<longrightarrow> collision_free hash_of get els)"

context trie_world
begin

lemma put_elements_extends:
  assumes p: "put_elements put els st r = Ok (st', r')" and ok: "\<forall>(h, t)\<in>set els. ok t"
    and hs: "\<forall>(h, t)\<in>set els. hash_of t = Ok h"
    and ad: "addressed hash_of (get st)" and cf: "collision_free hash_of (get st) els"
  shows "extends (get st) (get st')" "\<forall>(h, t)\<in>set els. get st' h = Ok (Some t)" "addressed hash_of (get st')"
proof -
  have g: "get st' h = (case map_of (rev els) h of Some t \<Rightarrow> Ok (Some t) | None \<Rightarrow> get st h)" for h
    using put_elements_get [OF p ok] by blast
  have inm: "map_of (rev els) h = Some t \<Longrightarrow> (h, t) \<in> set els" for h t by (auto dest: map_of_SomeD)
  have uniq: "t = t'" if "(h, t) \<in> set els" "(h, t') \<in> set els \<or> get st h = Ok (Some t')" for h t t'
  proof (rule inj_onD [OF cf [unfolded collision_free_def]])
    have "hash_of t = Ok h" using that(1) hs by auto
    moreover have "hash_of t' = Ok h" using that(2) hs ad by (auto simp: addressed_def)
    ultimately show "hash_of t = hash_of t'" by simp
    show "t \<in> {t. \<exists>h. get st h = Ok (Some t)} \<union> snd ` set els" using that by force
    show "t' \<in> {t. \<exists>h. get st h = Ok (Some t)} \<union> snd ` set els" using that by force
  qed
  show "extends (get st) (get st')"
    unfolding extends_def
  proof (intro allI impI)
    fix h t assume t: "get st h = Ok (Some t)"
    show "get st' h = Ok (Some t)"
    proof (cases "map_of (rev els) h")
      case (Some t')
      with uniq [OF inm [OF Some], of t] t show ?thesis by (simp add: g)
    qed (simp add: g t)
  qed
  show "\<forall>(h, t)\<in>set els. get st' h = Ok (Some t)"
  proof (clarify)
    fix h t assume "(h, t) \<in> set els"
    moreover from this have "map_of (rev els) h \<noteq> None" by (simp add: map_of_eq_None_iff image_iff) force
    then obtain t' where "map_of (rev els) h = Some t'" by blast
    ultimately show "get st' h = Ok (Some t)" using uniq [of h t t'] inm [of h t'] by (simp add: g)
  qed
  show "addressed hash_of (get st')"
    unfolding addressed_def
  proof (intro allI impI)
    fix h t assume t: "get st' h = Ok (Some t)"
    show "hash_of t = Ok h"
    proof (cases "map_of (rev els) h")
      case None
      with t ad show ?thesis by (simp add: g addressed_def)
    next
      case (Some t')
      with t inm [OF Some] hs show ?thesis by (auto simp: g)
    qed
  qed
qed

end

subsection \<open>The nodes a write creates\<close>

lemma chain_lookup: "chain get q t ps tip q' \<Longrightarrow> lookup get k q' tip r \<Longrightarrow> lookup get k q t r"
proof (induction rule: chain.induct)
  case (chain_node pb i ptr t q ps tip q')
  then show ?case using lk_node [of pb i ptr get t k q r] by simp
qed (auto intro: lk_ext)

lemma chain_no_leaf: "chain get q t ps tip q' \<Longrightarrow> \<forall>(i, t)\<in>set ps. \<not> is_leaf t"
  by (induction rule: chain.induct) auto

text \<open>The extension above a new node, if the shared path is not empty.\<close>

definition fork_extension :: "u8 \<Rightarrow> bytes \<Rightarrow> digest \<Rightarrow> ('k, 'v) parents" where
  "fork_extension x a h = (if a = [] then [] else [(x, Extension a (NodePointer h))])"

lemma fork_extension_path [simp]: "get_parents_path (fork_extension x a h) = a"
  by (simp add: fork_extension_def get_parents_path_def)

lemma fork_extension_no_leaf: "\<forall>(i, t)\<in>set (fork_extension x a h). \<not> is_leaf t"
  by (simp add: fork_extension_def)

lemma get_parents_path_append [simp]: "get_parents_path (ps @ ps') = get_parents_path ps @ get_parents_path ps'"
  by (simp add: get_parents_path_def)

lemma add_node_to_parents_eq:
  "is_node n \<Longrightarrow> add_node_to_parents (get_parents_path ps @ i # q) n ps = Ok (ps @ [(i, n)])"
  using common_prefix_same [of "get_parents_path ps" "i # q"]
  by (simp add: add_node_to_parents_def)

lemma rehash_fork:
  fixes a :: bytes
  assumes "rehash hash_of (Leaf k v) (ps @ fork_extension x a h0 @ [(i, Node pb)]) = Ok els"
  shows "\<exists>hl hN h' ret. let N = Node (pb(i := Some (LeafPointer hl))); tip' = (if a = [] then N else Extension a (NodePointer hN)) in
    rehash_loop hash_of tip' h' (rev ps) (ret @ [(h', tip')]) = Ok els \<and>
    (hl, Leaf k v) \<in> set els \<and> (hN, N) \<in> set els \<and> (h', tip') \<in> set els"
proof -
  from assms obtain hl hN where h: "hash_of (Leaf k v) = Ok hl"
      "hash_of (Node (pb(i := Some (LeafPointer hl)))) = Ok hN"
      "rehash_loop hash_of (Node (pb(i := Some (LeafPointer hl)))) hN (rev (fork_extension x a h0) @ rev ps)
        [(hl, Leaf k v), (hN, Node (pb(i := Some (LeafPointer hl))))] = Ok els"
    by (auto simp: rehash_def res_simps rehash_loop_Cons tip_pointer_def)
  from rehash_loop_extends [OF h(3)] have els: "(hl, Leaf k v) \<in> set els"
      "(hN, Node (pb(i := Some (LeafPointer hl)))) \<in> set els" by auto
  show ?thesis
  proof (cases "a = []")
    case True
    with h(3) els show ?thesis
      by (intro exI [of _ hl] exI [of _ hN] exI [of _ hN] exI [of _ "[(hl, Leaf k v)]"]) (simp add: fork_extension_def)
  next
    case False
    with h(3) obtain hE where e: "hash_of (Extension a (NodePointer hN)) = Ok hE"
      "rehash_loop hash_of (Extension a (NodePointer hN)) hE (rev ps)
        ([(hl, Leaf k v), (hN, Node (pb(i := Some (LeafPointer hl))))] @ [(hE, Extension a (NodePointer hN))]) = Ok els"
      by (auto simp: fork_extension_def rehash_loop_Cons res_simps)
    from rehash_loop_extends [OF e(2)] have "(hE, Extension a (NodePointer hN)) \<in> set els" by auto
    with False e(2) els show ?thesis
      by (intro exI [of _ hl] exI [of _ hN] exI [of _ hE]
        exI [of _ "[(hl, Leaf k v), (hN, Node (pb(i := Some (LeafPointer hl))))]"]) simp
  qed
qed

lemma reparent_leaf_eq:
  assumes "a = common_prefix q ql" "length a < length ql" "pb ci = Some ptr"
  shows "reparent_leaf hash_of (get_parents_path (ps @ [(ci, Node pb)]) @ q) (get_parents_path (ps @ [(ci, Node pb)]) @ ql)
      (ps @ [(ci, Node pb)]) =
    (let N = trie_node [(ql ! length a, ptr)] in
     if a = [] then Ok (N, ps @ [(ci, Node pb)])
     else res_bind (hash_of N) (\<lambda>h. Ok (N, (ps @ [(ci, Node pb)]) @ fork_extension ci a h)))"
  using assms by (auto simp: reparent_leaf_def common_prefix_append Let_def fork_extension_def nth_append)

definition split_child :: "('k, 'v) hasher \<Rightarrow> bytes \<Rightarrow> pointer \<Rightarrow> (bytes_error, (digest \<times> ('k, 'v) trie) option) result" where
  "split_child hash_of c ptr =
     (if c = [] then Ok None else res_bind (hash_of (Extension c ptr)) (\<lambda>h. Ok (Some (h, Extension c ptr))))"

definition child_elements :: "(digest \<times> ('k, 'v) trie) option \<Rightarrow> ('k, 'v) elements" where
  "child_elements mc = (case mc of None \<Rightarrow> [] | Some e \<Rightarrow> [e])"

definition split_pointer :: "pointer \<Rightarrow> (digest \<times> ('k, 'v) trie) option \<Rightarrow> pointer" where
  "split_pointer ptr mc = (case mc of None \<Rightarrow> ptr | Some (h, _) \<Rightarrow> NodePointer h)"

lemma split_extension_eq:
  assumes "a = common_prefix q (a @ j # c)"
  shows "split_extension hash_of (get_parents_path ps @ q) (Extension (a @ j # c) ptr) ps =
    res_bind (split_child hash_of c ptr) (\<lambda>mc.
     let N = trie_node [(j, split_pointer ptr mc)] in
     if a = [] then Ok \<lparr>sr_new_node = N, sr_parents = ps, sr_child = mc\<rparr>
     else res_bind (hash_of N) (\<lambda>h.
       Ok \<lparr>sr_new_node = N, sr_parents = ps @ fork_extension (a ! 0) a h, sr_child = mc\<rparr>))"
  using assms
  by (simp add: split_extension_def common_prefix_append Let_def fork_extension_def split_child_def
    split_pointer_def nth_append res_bind_assoc flip: assms)

lemma rehash_loop_kinds:
  "rehash_loop hash_of tip h ps ret = Ok els \<Longrightarrow> \<forall>(h, t)\<in>set ret. \<not> is_leaf t \<or> t = l \<Longrightarrow>
   \<forall>(h, t)\<in>set els. \<not> is_leaf t \<or> t = l"
proof (induction ps arbitrary: tip h ret)
  case (Cons x ps)
  obtain i parent where x: "x = (i, parent)" by fastforce
  with Cons.prems(1) obtain h' where "\<not> is_leaf parent"
    "rehash_loop hash_of (reseat parent i tip h) h' ps (ret @ [(h', reseat parent i tip h)]) = Ok els"
    by (auto simp: rehash_loop_Cons res_simps split: if_splits)
  moreover from this(1) have "\<not> is_leaf (reseat parent i tip h)" by (cases parent) auto
  ultimately show ?case using Cons.IH [of "reseat parent i tip h" h' "ret @ [(h', reseat parent i tip h)]"] Cons.prems(2)
    by simp
qed simp

text \<open>What a write with the result \<open>W\<close> of \<open>write_elements\<close> achieves: no panic; the elements carry their
  hashes; and in any store that has them the last one is a root that says of every key what it should.\<close>

definition good_elements ::
  "('k \<Rightarrow> bool) \<Rightarrow> ('k \<Rightarrow> bytes) \<Rightarrow> (('k, 'v) trie \<Rightarrow> bool) \<Rightarrow> ('k, 'v) hasher \<Rightarrow> ('k, 'v) getter \<Rightarrow> 'k \<Rightarrow> 'v \<Rightarrow>
   ('k, 'v) trie \<Rightarrow> (bytes_error, ('k, 'v) elements) result \<Rightarrow> bool" where
  "good_elements kok path ok hash_of g k v root W \<longleftrightarrow>
     W \<noteq> Panic \<and>
     (\<forall>els. W = Ok els \<longrightarrow>
        (els = [] \<longrightarrow> lookup g k (path k) root (Some v)) \<and>
        (\<forall>(h, t)\<in>set els. hash_of t = Ok h \<and> ok t) \<and>
        (\<forall>g'. els \<noteq> [] \<longrightarrow> extends g g' \<longrightarrow> (\<forall>(h, t)\<in>set els. g' h = Ok (Some t)) \<longrightarrow>
          (\<exists>h' t'. last els = (h', t') \<and> simulates kok path g g' k v [] root t')))"

context trie_world
begin

abbreviation good where "good \<equiv> good_elements kok path ok hash_of"

lemma rehash_props:
  assumes "kok k" "vok v" "rehash hash_of (Leaf k v) ps = Ok els"
  shows "els \<noteq> []" "\<forall>(h, t)\<in>set els. hash_of t = Ok h \<and> ok t"
proof -
  from assms(3) obtain hl where hl: "hash_of (Leaf k v) = Ok hl"
      "rehash_loop hash_of (Leaf k v) hl (rev ps) [(hl, Leaf k v)] = Ok els"
    by (auto simp: rehash_def res_simps)
  show "els \<noteq> []" using rehash_loop_extends [OF hl(2)] by auto
  have "\<forall>(h, t)\<in>set els. hash_of t = Ok h" by (rule rehash_loop_hashes [OF hl(2)]) (simp add: hl)
  moreover have "\<forall>(h, t)\<in>set els. \<not> is_leaf t \<or> t = Leaf k v" by (rule rehash_loop_kinds [OF hl(2)]) simp
  ultimately show "\<forall>(h, t)\<in>set els. hash_of t = Ok h \<and> ok t" using ok_new [OF assms(1,2)] by fastforce
qed

lemma goodI:
  assumes "kok k" "vok v" and nl: "\<forall>(i, t)\<in>set ps'. \<not> is_leaf t"
    and "\<And>els g'. rehash hash_of (Leaf k v) ps' = Ok els \<Longrightarrow> extends g g' \<Longrightarrow>
      \<forall>(h, t)\<in>set els. g' h = Ok (Some t) \<Longrightarrow> \<exists>h' t'. last els = (h', t') \<and> sim g g' k v [] root t'"
  shows "good g k v root (rehash hash_of (Leaf k v) ps')"
  using rehash_no_panic [OF assms(1,2) nl] rehash_props [OF assms(1,2)] assms(4)
  by (auto simp: good_elements_def)

text \<open>The new leaf replaces one with the same key.\<close>

lemma good_same_leaf:
  assumes "kok k" "vok v" "wf g [] root" "chain g (path k) root ps (Leaf k v0) q'"
  shows "good g k v root (rehash hash_of (Leaf k v) ps)"
proof (rule goodI [OF assms(1,2) chain_no_leaf [OF assms(4)]])
  fix els g'
  assume r: "rehash hash_of (Leaf k v) ps = Ok els" and ext: "extends g g'" and g': "\<forall>(h, t)\<in>set els. g' h = Ok (Some t)"
  from r obtain hl where hl: "rehash_loop hash_of (Leaf k v) hl (rev ps) ([] @ [(hl, Leaf k v)]) = Ok els"
    by (auto simp: rehash_def res_simps)
  from rehash_loop_extends [OF hl] g' have "g' hl = Ok (Some (Leaf k v))" by auto
  have "sim g g' k v ([] @ get_parents_path ps) (Leaf k v0) (Leaf k v)"
    using wf_leafI [OF assms(1) chain_path [OF assms(4)]] by (intro simI) simp_all
  from rehash_loop_sim [OF ext assms(4,3) _ this \<open>g' hl = Ok (Some (Leaf k v))\<close> hl g']
  show "\<exists>h' t'. last els = (h', t') \<and> sim g g' k v [] root t'" by simp
qed

text \<open>The new leaf takes a free place of a node.\<close>

lemma good_node:
  assumes k: "kok k" "vok v" and w: "wf g [] root" and c: "chain g (path k) root ps (Node pb) (i # qk)" and i: "pb i = None"
  shows "good g k v root (rehash hash_of (Leaf k v) (ps @ [(i, Node pb)]))"
proof (rule goodI [OF k])
  show "\<forall>(i, t)\<in>set (ps @ [(i, Node pb)]). \<not> is_leaf t" using chain_no_leaf [OF c] by auto
next
  fix els g'
  assume r: "rehash hash_of (Leaf k v) (ps @ [(i, Node pb)]) = Ok els" and ext: "extends g g'"
    and g': "\<forall>(h, t)\<in>set els. g' h = Ok (Some t)"
  let ?P = "get_parents_path ps"
  let ?pb = "\<lambda>hl. pb(i := Some (LeafPointer hl))"
  from rehash_fork [of hash_of k v ps 0 "[]" 0 i pb els] r obtain hl hN ret where
    l: "rehash_loop hash_of (Node (?pb hl)) hN (rev ps) (ret @ [(hN, Node (?pb hl))]) = Ok els"
      "(hl, Leaf k v) \<in> set els" "(hN, Node (?pb hl)) \<in> set els"
    by (auto simp: fork_extension_def Let_def)
  have hl: "g' hl = Ok (Some (Leaf k v))" and hN: "g' hN = Ok (Some (Node (?pb hl)))" using l(2,3) g' by auto
  have pk: "path k = ?P @ i # qk" using chain_path [OF c] .
  have wn: "wf g ?P (Node pb)" using chain_wf [OF c w] by simp
  have "sim g g' k v ?P (Node pb) (Node (?pb hl))"
  proof (rule simI)
    show "wf g' ?P (Node (?pb hl))"
    proof (rule wf_nodeI)
      fix j ptr assume j: "?pb hl j = Some ptr"
      show "\<exists>t. g' (pointer_hash ptr) = Ok (Some t) \<and> is_leaf_pointer ptr = is_leaf t \<and> wf g' (?P @ [j]) t"
      proof (cases "j = i")
        case True
        have "wf g' (?P @ [i]) (Leaf k v)" by (rule wf_leafI [OF k(1), of _ qk]) (simp add: pk)
        with True j hl show ?thesis by auto
      next
        case False
        with j wf_nodeD(1) [OF wn, of j ptr] ext wf_trie_mono [of g g'] show ?thesis by (auto simp: extends_def)
      qed
    next
      show "?P = [] \<or> (\<exists>x y. x \<noteq> y \<and> ?pb hl x \<noteq> None \<and> ?pb hl y \<noteq> None)"
        using wf_nodeD(2) [OF wn] by (metis fun_upd_apply option.distinct(1))
    qed
  next
    fix k' q r assume k': "kok k'" "path k' = ?P @ q" "k' \<noteq> k" and lk: "lookup g k' q (Node pb) r"
    from lk show "lookup g' k' q (Node (?pb hl)) r"
    proof (cases rule: lookup_nodeE)
      case (none j q')
      show ?thesis
      proof (cases "j = i")
        case True
        with none hl k'(3) lk_node [of "?pb hl" i "LeafPointer hl" g' "Leaf k v" k' q' None] show ?thesis by simp
      next
        case False
        with none lk_none [of "?pb hl" j g' k' q'] show ?thesis by simp
      qed
    next
      case (some j ptr t q')
      then have "j \<noteq> i" using i by auto
      moreover have "lookup g' k' q' t r" using lookup_mono [of g g'] some ext by (auto simp: extends_def)
      ultimately show ?thesis using some ext lk_node [of "?pb hl" j ptr g' t k' q' r] by (simp add: extends_def)
    qed
  next
    fix q assume "path k = ?P @ q"
    with pk have "q = i # qk" by simp
    with hl lk_node [of "?pb hl" i "LeafPointer hl" g' "Leaf k v" k qk "Some v"]
    show "lookup g' k q (Node (?pb hl)) (Some v)" by simp
  qed simp
  then have "sim g g' k v ([] @ ?P) (Node pb) (Node (?pb hl))" by simp
  from rehash_loop_sim [OF ext c w _ this hN l(1) g'] show "\<exists>h' t'. last els = (h', t') \<and> sim g g' k v [] root t'"
    by simp
qed

text \<open>Two subtries below a new node, which an extension may precede.\<close>

lemma fork_sim:
  assumes k: "kok k" and w: "wf g [] root" and c: "chain g (path k) root ps tip (a @ i # qk)" and ij: "i \<noteq> j"
    and tip: "\<not> is_node tip" "get_parents_path ps \<noteq> []" and ext: "extends g g'"
    and r: "rehash hash_of (Leaf k v) (ps @ fork_extension x a h0 @ [(i, trie_node [(j, pj)])]) = Ok els"
    and g': "\<forall>(h, t)\<in>set els. g' h = Ok (Some t)"
    and tj: "g' (pointer_hash pj) = Ok (Some tj)" "is_leaf_pointer pj = is_leaf tj" "wf g' (get_parents_path ps @ a @ [j]) tj"
    and old: "\<And>k' q r. kok k' \<Longrightarrow> path k' = get_parents_path ps @ q \<Longrightarrow> k' \<noteq> k \<Longrightarrow> lookup g k' q tip r \<Longrightarrow>
      (\<forall>q3. q = a @ j # q3 \<longrightarrow> lookup g' k' q3 tj r) \<and> ((\<nexists>q3. q = a @ j # q3) \<longrightarrow> r = None)"
  shows "\<exists>h' t'. last els = (h', t') \<and> sim g g' k v [] root t'"
proof -
  let ?N = "\<lambda>hl. Node ((from_indexed_pointers [(j, pj)])(i := Some (LeafPointer hl)))"
  let ?tip = "\<lambda>hl hN. if a = [] then ?N hl else Extension a (NodePointer hN)"
  from rehash_fork [OF r [unfolded trie_node_def]] obtain hl hN h' ret where
    l: "rehash_loop hash_of (?tip hl hN) h' (rev ps) (ret @ [(h', ?tip hl hN)]) = Ok els"
      "(hl, Leaf k v) \<in> set els" "(hN, ?N hl) \<in> set els" "(h', ?tip hl hN) \<in> set els"
    unfolding Let_def by blast
  have in_g': "g' hl = Ok (Some (Leaf k v))" "g' hN = Ok (Some (?N hl))" "g' h' = Ok (Some (?tip hl hN))"
    using bspec [OF g' l(2)] bspec [OF g' l(3)] bspec [OF g' l(4)] by simp_all
  have pk: "path k = get_parents_path ps @ a @ i # qk" using chain_path [OF c] .
  have "sim g g' k v ([] @ get_parents_path ps) tip (?tip hl hN)"
    unfolding append_Nil by (rule sim_fork [OF tip(2) tj in_g'(1,2) k pk ij tip(1) old])
  from rehash_loop_sim [OF ext c w _ this in_g'(3) l(1) g'] show ?thesis by simp
qed

lemma good_bind:
  "m \<noteq> Panic \<Longrightarrow> (\<And>x. m = Ok x \<Longrightarrow> good g k v root (f x)) \<Longrightarrow> good g k v root (res_bind m f)"
  by (cases m) (simp_all add: good_elements_def)

lemma good_fork_hash:
  assumes "kok k" "vok v" "\<And>h. good g k v root (f (ps @ fork_extension x a h))"
  shows "good g k v root (if a = [] then f ps else res_bind (hash_of (trie_node N)) (\<lambda>h. f (ps @ fork_extension x a h)))"
proof -
  have "hash_of (trie_node N) \<noteq> Panic" by (rule hash_no_panic [OF ok_new [OF assms(1,2)]]) (simp add: trie_node_def)
  with good_bind [OF this] assms(3) [of 0] assms(3) show ?thesis by (auto simp: fork_extension_def)
qed

lemma fork_no_leaf:
  "\<forall>(i, t)\<in>set ps. \<not> is_leaf t \<Longrightarrow> \<forall>(i, t)\<in>set (ps @ fork_extension x a h @ [(i, trie_node N)]). \<not> is_leaf t"
  by (auto simp: fork_extension_def trie_node_def)

text \<open>The parent of a leaf is a node.\<close>

lemma chain_to_leaf:
  assumes c: "chain g q root ps (Leaf k0 v0) q'" and w: "wf g [] root" and root: "is_node root"
  obtains ps0 ci pb ptr where "ps = ps0 @ [(ci, Node pb)]" "pb ci = Some ptr" "g (pointer_hash ptr) = Ok (Some (Leaf k0 v0))"
    "is_leaf_pointer ptr"
proof -
  have "ps \<noteq> []" using c root by (auto elim: chain_nilE)
  then obtain ps0 ci parent where ps: "ps = ps0 @ [(ci, parent)]" by (metis rev_exhaust surj_pair)
  with c obtain m qm where m: "chain g q root ps0 m qm" "chain g qm m [(ci, parent)] (Leaf k0 v0) q'"
    by (auto simp: chain_append)
  from chain_wf [OF m(1) w] chain_single [OF m(2)] have wp: "wf g (get_parents_path ps0) parent" by simp
  show ?thesis
  proof (cases parent)
    case (Node pb)
    with chain_single [OF m(2)] obtain ptr where p: "pb ci = Some ptr" "g (pointer_hash ptr) = Ok (Some (Leaf k0 v0))"
      by auto
    with wf_nodeD(1) [OF wp [unfolded Node], of ci ptr] have "is_leaf_pointer ptr" by auto
    with that ps p Node show ?thesis by blast
  next
    case (Extension affix ptr)
    with chain_single [OF m(2)] wp show ?thesis by (auto elim: wf_extE)
  qed (use chain_single [OF m(2)] in simp)
qed

lemma fork_paths:
  fixes q q2 :: bytes
  assumes "\<not> (\<exists>c. q = q2 @ c)" "length q2 \<le> length q"
  obtains i qk j c where "q = common_prefix q q2 @ i # qk" "q2 = common_prefix q q2 @ j # c" "i \<noteq> j"
proof -
  obtain x y where e: "q = common_prefix q q2 @ x" "q2 = common_prefix q q2 @ y" "x = [] \<or> y = [] \<or> hd x \<noteq> hd y"
    using common_prefix_split by blast
  have "y \<noteq> []" using assms(1) e(1,2) by auto
  moreover have "x \<noteq> []" using assms(2) calculation arg_cong [OF e(1), of length] arg_cong [OF e(2), of length] by auto
  ultimately obtain i qk j c where "x = i # qk" "y = j # c" by (meson neq_Nil_conv)
  with e show ?thesis using that by simp
qed

text \<open>The scan ends at the leaf of another key: the two leaves go below a new node.\<close>

lemma good_other_leaf:
  assumes k: "kok k" "vok v" and w: "wf g [] root" and root: "is_node root"
    and c: "chain g (path k) root ps (Leaf k0 v0) q" and k0: "k0 \<noteq> k"
  shows "good g k v root (write_elements hash_of ktb k v (path k) \<lparr>ts_tip = Leaf k0 v0, ts_parents = ps\<rparr>)"
proof -
  let ?P = "get_parents_path ps"
  obtain ps0 ci pb ptr where ps: "ps = ps0 @ [(ci, Node pb)]" "pb ci = Some ptr"
      "g (pointer_hash ptr) = Ok (Some (Leaf k0 v0))" "is_leaf_pointer ptr"
    using chain_to_leaf [OF c w root] by blast
  have P: "?P \<noteq> []" by (simp add: ps(1) get_parents_path_def)
  have pk: "path k = ?P @ q" using chain_path [OF c] .
  have "wf g ?P (Leaf k0 v0)" using chain_wf [OF c w] by simp
  then obtain q0 where q0: "kok k0" "path k0 = ?P @ q0" by (auto elim: wf_leafE)
  have len: "length q = length q0" by (rule same_length [OF k(1) q0(1) pk q0(2) P])
  moreover have "\<not> (\<exists>c. q = q0 @ c)"
    using len path_inj [OF k(1) q0(1)] k0 by (auto simp: pk q0(2))
  ultimately obtain i qk j cc where f: "q = common_prefix q q0 @ i # qk" "q0 = common_prefix q q0 @ j # cc" "i \<noteq> j"
    using fork_paths [of q q0] by (metis order_refl)
  define a where "a = common_prefix q q0"
  have q: "q = a @ i # qk" and q0': "q0 = a @ j # cc" using f by (simp_all add: a_def)
  define F where "F = (\<lambda>ps. rehash hash_of (Leaf k v) (ps @ [(i, trie_node [(j, ptr)])]))"
  have add: "add_node_to_parents (path k) (trie_node [(j, ptr)]) (ps @ fork_extension ci a h) =
      Ok ((ps @ fork_extension ci a h) @ [(i, trie_node [(j, ptr)])])" for h
    using add_node_to_parents_eq [of "trie_node [(j, ptr)]" "ps @ fork_extension ci a h" i qk]
    by (simp add: pk q trie_node_def)
  have "write_elements hash_of ktb k v (path k) \<lparr>ts_tip = Leaf k0 v0, ts_parents = ps\<rparr> =
    (if a = [] then F ps else res_bind (hash_of (trie_node [(j, ptr)])) (\<lambda>h. F (ps @ fork_extension ci a h)))"
    using k0 reparent_leaf_eq [OF a_def, of pb ci ptr hash_of ps0] ps(2) q0' add add [of 0]
    by (auto simp: write_elements_def ktb_path [OF q0(1)] q0(2) pk F_def Let_def res_bind_assoc
      simp flip: ps(1) simp: fork_extension_def)
  moreover have "good g k v root (F (ps @ fork_extension ci a h))" for h
    unfolding F_def append_assoc
  proof (rule goodI [OF k fork_no_leaf [OF chain_no_leaf [OF c]]])
    fix els g'
    assume r: "rehash hash_of (Leaf k v) (ps @ fork_extension ci a h @ [(i, trie_node [(j, ptr)])]) = Ok els"
      and ext: "extends g g'" and g': "\<forall>(h, t)\<in>set els. g' h = Ok (Some t)"
    show "\<exists>h' t'. last els = (h', t') \<and> sim g g' k v [] root t'"
    proof (rule fork_sim [OF k(1) w c [unfolded q] f(3) _ P ext r g'])
      show "g' (pointer_hash ptr) = Ok (Some (Leaf k0 v0))" using ext ps(3) by (simp add: extends_def)
      show "wf g' (?P @ a @ [j]) (Leaf k0 v0)" by (rule wf_leafI [OF q0(1), of _ cc]) (simp add: q0(2) q0')
      fix k' q' r assume k': "kok k'" "path k' = ?P @ q'" "k' \<noteq> k" "lookup g k' q' (Leaf k0 v0) r"
      then show "(\<forall>q3. q' = a @ j # q3 \<longrightarrow> lookup g' k' q3 (Leaf k0 v0) r) \<and> ((\<nexists>q3. q' = a @ j # q3) \<longrightarrow> r = None)"
        using q0(2) q0' by auto
    qed (use ps(4) in simp_all)
  qed
  ultimately show ?thesis using good_fork_hash [OF k, of g root F ps ci a "[(j, ptr)]"] by simp
qed

text \<open>The scan ends at an extension that the path leaves: the extension is split.\<close>

lemma goodI_child:
  assumes k: "kok k" "vok v" and nl: "\<forall>(i, t)\<in>set ps'. \<not> is_leaf t"
    and mc: "split_child hash_of c ptr = Ok mc"
    and sim: "\<And>els g'. rehash hash_of (Leaf k v) ps' = Ok els \<Longrightarrow> extends g g' \<Longrightarrow>
      \<forall>(h, t)\<in>set els. g' h = Ok (Some t) \<Longrightarrow> \<forall>(h, t)\<in>set (child_elements mc). g' h = Ok (Some t) \<Longrightarrow>
      \<exists>h' t'. last els = (h', t') \<and> sim g g' k v [] root t'"
  shows "good g k v root (res_bind (rehash hash_of (Leaf k v) ps') (\<lambda>els. Ok (child_elements mc @ els)))"
proof (rule good_bind [OF rehash_no_panic [OF k nl]])
  fix els assume r: "rehash hash_of (Leaf k v) ps' = Ok els"
  note rp = rehash_props [OF k r]
  have "\<forall>(h, t)\<in>set (child_elements mc). hash_of t = Ok h \<and> ok t"
    using mc ok_new [OF k] by (auto simp: child_elements_def split_child_def res_simps split: if_splits)
  with rp(2) have "\<forall>(h, t)\<in>set (child_elements mc @ els). hash_of t = Ok h \<and> ok t" unfolding set_append by blast
  moreover have "\<exists>h' t'. last (child_elements mc @ els) = (h', t') \<and> sim g g' k v [] root t'"
    if e: "extends g g'" and g': "\<forall>(h, t)\<in>set (child_elements mc @ els). g' h = Ok (Some t)" for g'
  proof -
    from g' have "\<forall>(h, t)\<in>set els. g' h = Ok (Some t)" "\<forall>(h, t)\<in>set (child_elements mc). g' h = Ok (Some t)"
      unfolding set_append by blast+
    from sim [OF r e this] rp(1) show ?thesis by simp
  qed
  ultimately show "good g k v root (Ok (child_elements mc @ els))"
    using rp(1) by (simp add: good_elements_def)
qed

lemma write_elements_ext:
  assumes a: "a = common_prefix q (a @ j # c)" and pk: "path k = get_parents_path ps @ q" and q: "q = a @ i # qk"
  shows "write_elements hash_of ktb k v (path k) \<lparr>ts_tip = Extension (a @ j # c) ptr, ts_parents = ps\<rparr> =
    res_bind (split_child hash_of c ptr) (\<lambda>mc.
      let N = [(j, split_pointer ptr mc)];
          F = (\<lambda>ps. res_bind (rehash hash_of (Leaf k v) (ps @ [(i, trie_node N)])) (\<lambda>els. Ok (child_elements mc @ els)))
      in if a = [] then F ps else res_bind (hash_of (trie_node N)) (\<lambda>h. F (ps @ fork_extension (a ! 0) a h)))"
proof -
  have add: "add_node_to_parents (path k) (trie_node N) (ps @ fork_extension x a h) =
      Ok ((ps @ fork_extension x a h) @ [(i, trie_node N)])" for h x N
    using add_node_to_parents_eq [of "trie_node N" "ps @ fork_extension x a h" i qk]
    by (simp add: pk q trie_node_def)
  have add0: "a = [] \<Longrightarrow> add_node_to_parents (path k) (trie_node N) ps = Ok (ps @ [(i, trie_node N)])" for N
    using add [of N 0 0] by (simp add: fork_extension_def)
  show ?thesis
    using split_extension_eq [OF a, of hash_of ps ptr] add add0
    by (cases "split_child hash_of c ptr")
      (auto simp: write_elements_def Let_def pk [symmetric] res_bind_assoc child_elements_def
        intro!: res_bind_cong split: option.splits)
qed

lemma good_extension:
  assumes k: "kok k" "vok v" and w: "wf g [] root" and c: "chain g (path k) root ps (Extension affix ptr) q"
    and stop: "scan_stops q (Extension affix ptr)"
  shows "good g k v root (write_elements hash_of ktb k v (path k) \<lparr>ts_tip = Extension affix ptr, ts_parents = ps\<rparr>)"
proof -
  let ?P = "get_parents_path ps"
  have pk: "path k = ?P @ q" using chain_path [OF c] .
  have wt: "wf g ?P (Extension affix ptr)" using chain_wf [OF c w] by simp
  then obtain h0 pb0 where t0: "ptr = NodePointer h0" "g h0 = Ok (Some (Node pb0))" "wf g (?P @ affix) (Node pb0)" and P: "?P \<noteq> []"
    by (auto elim: wf_extE)
  have "\<not> (\<exists>c. q = affix @ c)" "length affix \<le> length q" using stop by auto
  then obtain i qk j cc where f: "q = common_prefix q affix @ i # qk" "affix = common_prefix q affix @ j # cc" "i \<noteq> j"
    by (rule fork_paths)
  define a where "a = common_prefix q affix"
  have q: "q = a @ i # qk" and aff: "affix = a @ j # cc" using f by (simp_all add: a_def)
  have acp: "a = common_prefix q (a @ j # cc)" using a_def aff by simp
  show ?thesis
    unfolding aff write_elements_ext [OF acp pk q] Let_def
  proof (rule good_bind)
    show "split_child hash_of cc ptr \<noteq> Panic"
      using hash_no_panic [OF ok_new [OF k], of "Extension cc ptr"] by (auto simp: split_child_def res_simps)
  next
    fix mc assume mc: "split_child hash_of cc ptr = Ok mc"
    define tj where "tj = (case mc of None \<Rightarrow> Node pb0 | Some (h, t) \<Rightarrow> t)"
    have mcE: "cc = [] \<and> mc = None \<and> tj = Node pb0 \<or> cc \<noteq> [] \<and> (\<exists>h. mc = Some (h, Extension cc ptr)) \<and> tj = Extension cc ptr"
      using mc by (auto simp: split_child_def res_simps tj_def split: if_splits)
    have main: "\<exists>h' t'. last els = (h', t') \<and> sim g g' k v [] root t'"
      if r: "rehash hash_of (Leaf k v) (ps @ fork_extension (a ! 0) a h @ [(i, trie_node [(j, split_pointer ptr mc)])]) = Ok els"
      and ext: "extends g g'" and g': "\<forall>(h, t)\<in>set els. g' h = Ok (Some t)"
        "\<forall>(h, t)\<in>set (child_elements mc). g' h = Ok (Some t)" for els g' h
    proof (rule fork_sim [OF k(1) w c [unfolded q] f(3) _ P ext r g'(1)])
      have t0': "g' h0 = Ok (Some (Node pb0))" "wf g' (?P @ affix) (Node pb0)"
        using ext t0 wf_trie_mono [of g g'] by (auto simp: extends_def)
      show "g' (pointer_hash (split_pointer ptr mc)) = Ok (Some tj)"
        using mcE g'(2) t0' t0(1) by (auto simp: split_pointer_def child_elements_def)
      show "is_leaf_pointer (split_pointer ptr mc) = is_leaf tj"
        using mcE t0(1) by (auto simp: split_pointer_def)
      show "wf g' (?P @ a @ [j]) tj"
        using mcE t0' t0(1) by (auto simp: aff intro!: wf_trie.wf_ext)
      fix k' q' r
      assume k': "kok k'" "path k' = ?P @ q'" "k' \<noteq> k" and lk: "lookup g k' q' (Extension affix ptr) r"
      from lk show "(\<forall>q3. q' = a @ j # q3 \<longrightarrow> lookup g' k' q3 tj r) \<and> ((\<nexists>q3. q' = a @ j # q3) \<longrightarrow> r = None)"
      proof (cases rule: lookup_extE)
        case (match u q'')
        with t0 have u: "lookup g' k' q'' (Node pb0) r" using lookup_mono [of g g'] ext by (auto simp: extends_def)
        have "lookup g' k' (cc @ q'') tj r"
          using mcE u t0' t0(1) lk_ext [of g' ptr "Node pb0" k' q'' r cc] by auto
        with match show ?thesis by (simp add: aff)
      next
        case miss
        then have "lookup g' k' q3 tj r" if "q' = a @ j # q3" for q3
          using that mcE lk_miss [of cc q3 g' k' ptr] by (auto simp: aff)
        with miss show ?thesis by blast
      qed
    qed simp
    show "good g k v root (if a = []
      then res_bind (rehash hash_of (Leaf k v) (ps @ [(i, trie_node [(j, split_pointer ptr mc)])]))
        (\<lambda>els. Ok (child_elements mc @ els))
      else res_bind (hash_of (trie_node [(j, split_pointer ptr mc)])) (\<lambda>h.
        res_bind (rehash hash_of (Leaf k v) ((ps @ fork_extension (a ! 0) a h) @ [(i, trie_node [(j, split_pointer ptr mc)])]))
        (\<lambda>els. Ok (child_elements mc @ els))))"
    proof (rule good_fork_hash [OF k, where f = "\<lambda>ps. res_bind (rehash hash_of (Leaf k v)
        (ps @ [(i, trie_node [(j, split_pointer ptr mc)])])) (\<lambda>els. Ok (child_elements mc @ els))"], unfold append_assoc)
      fix h
      show "good g k v root (res_bind (rehash hash_of (Leaf k v)
        (ps @ fork_extension (a ! 0) a h @ [(i, trie_node [(j, split_pointer ptr mc)])])) (\<lambda>els. Ok (child_elements mc @ els)))"
        by (rule goodI_child [OF k fork_no_leaf [OF chain_no_leaf [OF c]] mc main])
    qed
  qed
qed

text \<open>All four cases.\<close>

lemma good_write:
  assumes k: "kok k" "vok v" and w: "wf g [] root" and root: "is_node root"
    and c: "chain g (path k) root ps tip q" and stop: "scan_stops q tip"
  shows "good g k v root (write_elements hash_of ktb k v (path k) \<lparr>ts_tip = tip, ts_parents = ps\<rparr>)"
proof (cases tip)
  case (Leaf k0 v0)
  show ?thesis
  proof (cases "k0 = k")
    case True
    show ?thesis
    proof (cases "v0 = v")
      case same: True
      have "lookup g k (path k) root (Some v)" using chain_lookup [OF c, of k "Some v"] Leaf True same by simp
      with Leaf True same show ?thesis by (simp add: write_elements_def good_elements_def)
    next
      case False
      with good_same_leaf [OF k w] c Leaf True show ?thesis by (simp add: write_elements_def Let_def)
    qed
  next
    case False
    with good_other_leaf [OF k w root] c Leaf show ?thesis by simp
  qed
next
  case (Node pb)
  with stop obtain i qk where q: "q = i # qk" "pb i = None" by (cases q) auto
  have "path k = get_parents_path ps @ i # qk" using chain_path [OF c] q by simp
  with good_node [OF k w] c Node q add_node_to_parents_eq [of "Node pb" ps i qk]
  show ?thesis by (simp add: write_elements_def Let_def)
next
  case (Extension affix ptr)
  with good_extension [OF k w] c stop show ?thesis by simp
qed

text \<open>Reading and writing.\<close>

lemma wf_read:
  assumes "get st r = Ok (Some root)" "wf (get st) [] root" "kok k"
  shows "\<exists>r'. lookup (get st) k (path k) root r' \<and> trie_read (get st) ktb r k = Some (Ok (as_read_result r'))"
proof -
  from wf_lookup_total [OF assms(2,3), of "path k"] obtain r' where r': "lookup (get st) k (path k) root r'" by auto
  with lookup_read_loop [OF r', of 0 "path k"] assms(1) show ?thesis
    by (auto simp: trie_read_def ktb_path [OF assms(3)])
qed

lemma lookup_trie_read:
  "get st r = Ok (Some root) \<Longrightarrow> kok k \<Longrightarrow> lookup (get st) k (path k) root r' \<Longrightarrow>
   trie_read (get st) ktb r k = Some (Ok (as_read_result r'))"
  using lookup_read_loop [of "get st" k "path k" root r' 0 "path k"] by (simp add: trie_read_def ktb_path)

lemma write_good:
  assumes k: "kok k" "vok v" and r: "get st r = Ok (Some root)" "wf (get st) [] root" "is_node root"
  obtains ts W where "scan (get st) (path k) root = Some (Ok (Some ts))"
    "write_elements hash_of ktb k v (path k) ts = W" "good (get st) k v root W"
proof -
  obtain ps tip q where c: "chain (get st) (path k) root ps tip q" "scan_stops q tip"
    using wf_scan [OF r(2) k(1), of "path k"] by auto
  have "scan (get st) (path k) root = Some (Ok (Some \<lparr>ts_tip = tip, ts_parents = ps\<rparr>))"
    using chain_scan_loop [OF c, of 0 "path k" "[]"] by (simp add: scan_def)
  with good_write [OF k r(2,3) c] that show ?thesis by blast
qed

lemma write_correct:
  assumes k: "kok k" "vok v" and r: "get st r = Ok (Some root)" "wf (get st) [] root" "is_node root"
    and ad: "addressed hash_of (get st)" and cf: "new_elements_collision_free (get st) hash_of ktb r k v"
  shows "\<exists>out. trie_write get put hash_of ktb st r k v = Some out \<and> out \<noteq> Panic \<and>
    (\<forall>st' res. out = Ok (st', res) \<longrightarrow> addressed hash_of (get st') \<and> extends (get st) (get st') \<and>
      (res = AlreadyExists \<and> st' = st \<and> trie_read (get st) ktb r k = Some (Ok (Found v)) \<or>
       (\<exists>r' root'. res = Written r' \<and> get st' r' = Ok (Some root') \<and> is_node root' \<and> wf (get st') [] root' \<and>
         (\<forall>k'. kok k' \<longrightarrow> trie_read (get st') ktb r' k' =
           (if k' = k then Some (Ok (Found v)) else trie_read (get st) ktb r k')))))"
proof -
  obtain ts W where s: "scan (get st) (path k) root = Some (Ok (Some ts))"
    and W: "write_elements hash_of ktb k v (path k) ts = W" and good: "good (get st) k v root W"
    by (rule write_good [OF k r])
  let ?tw = "trie_write get put hash_of ktb st r k v"
  have tw: "?tw = loop_bind (lift_bytes W) (\<lambda>els.
      if els = [] then Some (Ok (st, AlreadyExists))
      else loop_bind (put_elements put els st r) (\<lambda>(txn, h). Some (Ok (txn, Written h))))"
    by (simp add: trie_write_def r(1) ktb_path [OF k(1)] s W)
  show ?thesis
  proof (cases W)
    case (Ok els)
    have e: "els = [] \<Longrightarrow> lookup (get st) k (path k) root (Some v)" "\<forall>(h, t)\<in>set els. hash_of t = Ok h \<and> ok t"
      and sim: "\<And>g'. els \<noteq> [] \<Longrightarrow> extends (get st) g' \<Longrightarrow> \<forall>(h, t)\<in>set els. g' h = Ok (Some t) \<Longrightarrow>
        \<exists>h' t'. last els = (h', t') \<and> sim (get st) g' k v [] root t'"
      using good Ok unfolding good_elements_def by blast+
    show ?thesis
    proof (cases "els = []")
      case True
      with tw Ok lookup_trie_read [OF r(1) k(1) e(1) [OF True]] ad show ?thesis
        by (simp add: extends_def as_read_result_def)
    next
      case ne: False
      from e(2) have okels: "\<forall>(h, t)\<in>set els. ok t" and hels: "\<forall>(h, t)\<in>set els. hash_of t = Ok h" by blast+
      show ?thesis
      proof (cases "put_elements put els st r")
        case p: (Ok pr)
        obtain st' r' where pr: "pr = (st', r')" by fastforce
        have cfe: "collision_free hash_of (get st) els"
          using cf r(1) ktb_path [OF k(1)] s W Ok by (auto simp: new_elements_collision_free_def)
        note pe = put_elements_extends [OF p [unfolded pr] okels hels ad cfe]
        from sim [OF ne pe(1,2)] obtain h' t' where l: "last els = (h', t')" "sim (get st) (get st') k v [] root t'" by blast
        have r': "r' = h'" using put_elements_get [OF p [unfolded pr] okels] ne l(1) by simp
        have "(h', t') \<in> set els" using ne l(1) last_in_set by metis
        with pe(2) r' have g': "get st' r' = Ok (Some t')" by blast
        have "trie_read (get st') ktb r' k' = (if k' = k then Some (Ok (Found v)) else trie_read (get st) ktb r k')"
          if k': "kok k'" for k'
        proof (cases "k' = k")
          case True
          have "lookup (get st') k (path k) t' (Some v)" using simD(4) [OF l(2)] by simp
          from lookup_trie_read [OF g' k(1) this] True show ?thesis by (simp add: as_read_result_def)
        next
          case False
          from wf_lookup_total [OF r(2) k', of "path k'"] obtain x where x: "lookup (get st) k' (path k') root x" by auto
          with simD(3) [OF l(2) k' _ False] have "lookup (get st') k' (path k') t' x" by simp
          with lookup_trie_read [OF g' k'] lookup_trie_read [OF r(1) k' x] False show ?thesis by simp
        qed
        with tw Ok ne p pr pe g' simD(1,2) [OF l(2)] r(3) show ?thesis by simp
      next
        case Err
        with tw Ok ne show ?thesis by simp
      next
        case Panic
        with put_elements_no_panic [OF okels] show ?thesis by blast
      qed
    qed
  next
    case Err
    with tw show ?thesis by simp
  next
    case Panic
    with good show ?thesis by (simp add: good_elements_def)
  qed
qed

end

end
