(* ===== verification/Trie_Memory.thy ===== *)
theory Trie_Memory
  imports Trie_Correct
begin

text \<open>
  The operations on tries over the in-memory store, down to the bytes: the locales of the trie
  operations are interpreted on \<open>store_get\<close> and \<open>store_put\<close> with the in-memory transaction, the codec of
  nodes and \<open>trie_hash\<close>. The types of keys and values stay arbitrary; what is asked of their codecs
  is \<open>lawful_codecs\<close>.
\<close>

section \<open>The codecs of keys and values\<close>

definition key_path :: "'k codec \<Rightarrow> 'k \<Rightarrow> bytes" where
  "key_path kc k = (case cd_tb kc k of Ok bs \<Rightarrow> bs | _ \<Rightarrow> [])"

definition lawful_codecs :: "('k \<Rightarrow> bool) \<Rightarrow> 'k codec \<Rightarrow> ('v \<Rightarrow> bool) \<Rightarrow> 'v codec \<Rightarrow> bool" where
  "lawful_codecs kv kc vv vc \<longleftrightarrow>
     codec_ok kv kc \<and> codec_ok vv vc \<and>
     (\<forall>k w. kv k \<longrightarrow> cd_wb kc k w \<noteq> Panic) \<and> (\<forall>v w. vv v \<longrightarrow> cd_wb vc v w \<noteq> Panic) \<and>
     (\<forall>k. kv k \<longrightarrow> (\<exists>bs. cd_tb kc k = Ok bs \<and> bs \<noteq> [])) \<and>
     (\<forall>k k'. kv k \<longrightarrow> kv k' \<longrightarrow> hd (key_path kc k) = hd (key_path kc k') \<longrightarrow>
        length (key_path kc k) = length (key_path kc k'))"

lemma lawfulD:
  assumes "lawful_codecs kv kc vv vc"
  shows "codec_ok kv kc" "codec_ok vv vc" "kv k \<Longrightarrow> cd_wb kc k w \<noteq> Panic" "vv v \<Longrightarrow> cd_wb vc v w \<noteq> Panic"
    "kv k \<Longrightarrow> cd_tb kc k = Ok (key_path kc k)" "kv k \<Longrightarrow> key_path kc k \<noteq> []"
    "kv k \<Longrightarrow> kv k' \<Longrightarrow> hd (key_path kc k) = hd (key_path kc k') \<Longrightarrow> length (key_path kc k) = length (key_path kc k')"
proof -
  note l = assms [unfolded lawful_codecs_def]
  have path: "cd_tb kc k = Ok (key_path kc k) \<and> key_path kc k \<noteq> []" if k: "kv k"
  proof -
    from l k obtain bs where "cd_tb kc k = Ok bs" "bs \<noteq> []" by blast
    then show ?thesis by (simp add: key_path_def)
  qed
  show "kv k \<Longrightarrow> cd_tb kc k = Ok (key_path kc k)" "kv k \<Longrightarrow> key_path kc k \<noteq> []" using path by auto
qed (use assms [unfolded lawful_codecs_def] in blast)+

section \<open>No panic in the encoding of a node\<close>

lemma write_items_total: "(\<And>x w. wb x w \<noteq> Panic) \<Longrightarrow> write_items wb xs w \<noteq> Panic"
  by (induction xs arbitrary: w) (auto simp: write_items_def res_simps)

lemma option_write_total: "option_write_bytes pointer_write_bytes x w \<noteq> Panic"
  by (cases x) (simp_all add: pointer_write_bytes_def)

lemma trie_write_no_panic:
  "lawful_codecs kv kc vv vc \<Longrightarrow> trie_valid kv vv t \<Longrightarrow> trie_write_bytes kc vc t w \<noteq> Panic"
  by (cases t) (auto simp: res_simps pointer_block_write_bytes_def pointer_write_bytes_def write_u8_slice_def u32_try_from_def
    write_items_total option_write_total lawfulD)

lemma trie_to_bytes_no_panic:
  "lawful_codecs kv kc vv vc \<Longrightarrow> trie_valid kv vv t \<Longrightarrow> trie_to_bytes kc vc t \<noteq> Panic"
  using trie_write_no_panic [of kv kc vv vc t "[]"] by (auto simp: trie_to_bytes_def allocate_buffer_def)

section \<open>The interpretation\<close>

abbreviation mem_get where "mem_get kc vc h \<equiv> store_get in_memory_read (trie_from_bytes kc vc) h"
abbreviation mem_put where "mem_put kc vc h \<equiv> store_put in_memory_write (trie_to_bytes kc vc) h"

interpretation memory_trie: trie_world "\<lambda>k. lawful_codecs kv kc vv vc \<and> kv k" "key_path kc"
  "\<lambda>t. lawful_codecs kv kc vv vc \<and> trie_valid kv vv t" "mem_get kc vc h" "mem_put kc vc h"
  "\<lambda>v. lawful_codecs kv kc vv vc \<and> vv v" "cd_tb kc" "trie_hash kc vc blake2b tree_fold1"
  for kv :: "'k \<Rightarrow> bool" and kc and vv :: "'v \<Rightarrow> bool" and vc h blake2b tree_fold1
proof (unfold_locales, goal_cases)
  case (1 k)
  then show ?case using lawfulD(6) [of kv kc vv vc k] by blast
next
  case (2 k k')
  then have l: "lawful_codecs kv kc vv vc" "kv k" "kv k'" by auto
  with 2(3) show ?case
    using bytesrepr.to_bytes_inj [OF bytes_writer.axioms(1) [OF lawfulD(1) [OF l(1)]], OF l(2) lawfulD(5) [OF l(1,2)] l(3)]
      lawfulD(5) [OF l(1,3)] by simp
next
  case (3 k k')
  then show ?case using lawfulD(7) [of kv kc vv vc k k'] by blast
next
  case (4 v st d st' d')
  then have "trie_ok kv kc vv vc v" using lawfulD(1,2) [of kv kc vv vc] by blast
  from memory_tries.get_put [OF this 4(2)] show ?case .
next
  case (5 k)
  then show ?case using lawfulD(5) [of kv kc vv vc k] by blast
next
  case (6 k v t)
  then show ?case by (cases t) simp_all
next
  case (7 t)
  then show ?case using trie_to_bytes_no_panic [of kv kc vv vc t] by (auto simp: trie_hash_def res_simps)
next
  case (8 t st d)
  then show ?case using trie_to_bytes_no_panic [of kv kc vv vc t]
    by (auto simp: store_put_def store_put_raw_def in_memory_write_def Let_def res_simps)
qed

section \<open>Properties\<close>

text \<open>The state of a store and a root from which the nodes of a well-formed trie can be reached.\<close>

definition good_root ::
  "('k \<Rightarrow> bool) \<Rightarrow> 'k codec \<Rightarrow> ('v \<Rightarrow> bool) \<Rightarrow> 'v codec \<Rightarrow> handle \<Rightarrow> blake2b \<Rightarrow> digest tree_fold1 \<Rightarrow> tables \<Rightarrow> digest \<Rightarrow> bool" where
  "good_root kv kc vv vc h blake2b tree_fold1 txn r \<longleftrightarrow>
     lawful_codecs kv kc vv vc \<and> addressed (trie_hash kc vc blake2b tree_fold1) (mem_get kc vc h txn) \<and>
     (\<exists>pb. mem_get kc vc h txn r = Ok (Some (Node pb)) \<and>
        wf_trie (\<lambda>k. lawful_codecs kv kc vv vc \<and> kv k) (key_path kc) (mem_get kc vc h txn) [] (Node pb))"

lemma memory_read_total:
  assumes "good_root kv kc vv vc h blake2b tree_fold1 txn r" "kv k"
  shows "\<exists>res. trie_read (mem_get kc vc h txn) (cd_tb kc) r k = Some (Ok res) \<and> res \<noteq> RootNotFound"
proof -
  from assms obtain pb where g: "lawful_codecs kv kc vv vc" "mem_get kc vc h txn r = Ok (Some (Node pb))"
      "wf_trie (\<lambda>k. lawful_codecs kv kc vv vc \<and> kv k) (key_path kc) (mem_get kc vc h txn) [] (Node pb)"
    by (auto simp: good_root_def)
  from memory_trie.wf_read [OF g(2,3)] g(1) assms(2) obtain x where
    "trie_read (mem_get kc vc h txn) (cd_tb kc) r k = Some (Ok (as_read_result x))" by blast
  then show ?thesis by (auto simp: as_read_result_def split: option.splits)
qed

text \<open>C25: reading any key under a well-formed root terminates without error or panic, with the value
  or with \<open>NotFound\<close>, never with \<open>RootNotFound\<close>.\<close>
theorem trie_read_total:
  assumes "good_root kv kc vv vc h blake2b tree_fold1 txn r" "kv k"
  shows "\<exists>res. trie_read (mem_get kc vc h txn) (cd_tb kc) r k = Some (Ok res) \<and> res \<noteq> RootNotFound"
  using assms by (rule memory_read_total)

lemma memory_write_correct:
  assumes "good_root kv kc vv vc h blake2b tree_fold1 txn r" "kv k" "vv v"
    and "new_elements_collision_free (mem_get kc vc h txn) (trie_hash kc vc blake2b tree_fold1) (cd_tb kc) r k v"
  shows "\<exists>out. trie_write (mem_get kc vc h) (mem_put kc vc h) (trie_hash kc vc blake2b tree_fold1) (cd_tb kc) txn r k v = Some out \<and>
    out \<noteq> Panic \<and>
    (\<forall>txn' res. out = Ok (txn', res) \<longrightarrow> extends (mem_get kc vc h txn) (mem_get kc vc h txn') \<and>
      (res = AlreadyExists \<and> txn' = txn \<and> trie_read (mem_get kc vc h txn) (cd_tb kc) r k = Some (Ok (Found v)) \<or>
       (\<exists>r'. res = Written r' \<and> good_root kv kc vv vc h blake2b tree_fold1 txn' r' \<and>
         (\<forall>k'. kv k' \<longrightarrow> trie_read (mem_get kc vc h txn') (cd_tb kc) r' k' =
           (if k' = k then Some (Ok (Found v)) else trie_read (mem_get kc vc h txn) (cd_tb kc) r k')))))"
proof -
  from assms(1) obtain pb where l: "lawful_codecs kv kc vv vc" and ad: "addressed (trie_hash kc vc blake2b tree_fold1) (mem_get kc vc h txn)"
    and r: "mem_get kc vc h txn r = Ok (Some (Node pb))"
      "wf_trie (\<lambda>k. lawful_codecs kv kc vv vc \<and> kv k) (key_path kc) (mem_get kc vc h txn) [] (Node pb)"
    by (auto simp: good_root_def)
  have node: "is_node t' \<Longrightarrow> \<exists>pb. t' = Node pb" for t' :: "('a, 'b) trie" by (cases t') auto
  from memory_trie.write_correct [of kv kc vv vc k v h txn r "Node pb" blake2b tree_fold1] l ad r assms(2-4)
  obtain out where "trie_write (mem_get kc vc h) (mem_put kc vc h) (trie_hash kc vc blake2b tree_fold1) (cd_tb kc) txn r k v = Some out"
    "out \<noteq> Panic" and out: "\<And>st' res. out = Ok (st', res) \<Longrightarrow>
      addressed (trie_hash kc vc blake2b tree_fold1) (mem_get kc vc h st') \<and> extends (mem_get kc vc h txn) (mem_get kc vc h st') \<and>
      (res = AlreadyExists \<and> st' = txn \<and> trie_read (mem_get kc vc h txn) (cd_tb kc) r k = Some (Ok (Found v)) \<or>
       (\<exists>r' root'. res = Written r' \<and> mem_get kc vc h st' r' = Ok (Some root') \<and> is_node root' \<and>
         wf_trie (\<lambda>k. lawful_codecs kv kc vv vc \<and> kv k) (key_path kc) (mem_get kc vc h st') [] root' \<and>
         (\<forall>k'. lawful_codecs kv kc vv vc \<and> kv k' \<longrightarrow> trie_read (mem_get kc vc h st') (cd_tb kc) r' k' =
           (if k' = k then Some (Ok (Found v)) else trie_read (mem_get kc vc h txn) (cd_tb kc) r k'))))"
    by auto
  moreover have "good_root kv kc vv vc h blake2b tree_fold1 st' r'"
    if "addressed (trie_hash kc vc blake2b tree_fold1) (mem_get kc vc h st')" "mem_get kc vc h st' r' = Ok (Some root')" "is_node root'"
      "wf_trie (\<lambda>k. lawful_codecs kv kc vv vc \<and> kv k) (key_path kc) (mem_get kc vc h st') [] root'" for st' r' root'
    using that l node [of root'] by (auto simp: good_root_def)
  ultimately show ?thesis using l by (intro exI [of _ out]) blast
qed

text \<open>C4: writing a value under a well-formed root terminates without panic, and never reports
  \<open>RootNotFound\<close>. When it succeeds every node stored before is still there and every node is stored
  under its hash. \<open>AlreadyExists\<close> leaves the store as it is and the key already has the value;
  otherwise the new root is well-formed again, reading the key under it gives the value, and
  reading any other key gives what it gave under the old root. No collision of the hash among the
  stored and the new nodes is assumed.\<close>
theorem trie_write_correct:
  assumes "good_root kv kc vv vc h blake2b tree_fold1 txn r" "kv k" "vv v"
    and "new_elements_collision_free (mem_get kc vc h txn) (trie_hash kc vc blake2b tree_fold1) (cd_tb kc) r k v"
  shows "\<exists>out. trie_write (mem_get kc vc h) (mem_put kc vc h) (trie_hash kc vc blake2b tree_fold1) (cd_tb kc) txn r k v = Some out \<and>
    out \<noteq> Panic \<and>
    (\<forall>txn' res. out = Ok (txn', res) \<longrightarrow> extends (mem_get kc vc h txn) (mem_get kc vc h txn') \<and>
      (res = AlreadyExists \<and> txn' = txn \<and> trie_read (mem_get kc vc h txn) (cd_tb kc) r k = Some (Ok (Found v)) \<or>
       (\<exists>r'. res = Written r' \<and> good_root kv kc vv vc h blake2b tree_fold1 txn' r' \<and>
         (\<forall>k'. kv k' \<longrightarrow> trie_read (mem_get kc vc h txn') (cd_tb kc) r' k' =
           (if k' = k then Some (Ok (Found v)) else trie_read (mem_get kc vc h txn) (cd_tb kc) r k')))))"
  using assms by (rule memory_write_correct)

subsection \<open>A concrete store\<close>

text \<open>Bytes as keys and values, and the length as the hash: enough to tell the nodes of the example apart.\<close>

definition length_hash :: blake2b where "length_hash bs = word_of_nat (length bs)"

lemma write_items_Ok: "(\<And>x w. \<exists>out. wb x w = Ok out) \<Longrightarrow> \<exists>out. write_items wb xs w = Ok out"
proof (induction xs arbitrary: w)
  case (Cons x xs)
  from Cons.prems [of x w] obtain w' where "wb x w = Ok w'" by blast
  with Cons.IH [OF Cons.prems, of w'] show ?case by (simp add: write_items_def)
qed (simp add: write_items_def)

lemma u8_lawful: "lawful_codecs (\<lambda>_. True) u8_codec (\<lambda>_. True) u8_codec"
  using u8_codec_ok
  by (simp add: lawful_codecs_def u8_codec_def key_path_def u8_write_bytes_def u8_to_bytes_def)

lemma trie_hash_length:
  assumes "lawful_codecs kv kc vv vc" "trie_valid kv vv t" "trie_to_bytes kc vc t = Ok bs" "trie_serialized_length kc vc t \<le> CHUNK_SIZE_BYTES"
  shows "trie_hash kc vc length_hash tf t = Ok (word_of_nat (trie_serialized_length kc vc t))"
proof -
  have "length bs = trie_serialized_length kc vc t"
    using trie_repr.tb_length [of kv kc vv vc t bs] assms(2,3) lawfulD(1,2) [OF assms(1)] by blast
  with assms show ?thesis
    by (simp add: trie_hash_def hash_bytes_into_chunks_if_necessary_def digest_hash_def length_hash_def)
qed

lemma pointer_block_length:
  "pointer_block_serialized_length pb = (\<Sum>i\<in>{0..<256}. case pb (word_of_nat i) of None \<Rightarrow> 1 | Some _ \<Rightarrow> 34)"
proof -
  have "option_serialized_length pointer_serialized_length x = (case x of None \<Rightarrow> 1 | Some _ \<Rightarrow> 34)" for x
    by (cases x) (simp_all add: pointer_serialized_length_def digest_serialized_length_def
      u8_serialized_length_def)
  then show ?thesis
    by (simp add: pointer_block_serialized_length_def block_entries_def RADIX_def comp_def
      sum_list_distinct_conv_sum_set)
qed

lemma node_hash:
  assumes "lawful_codecs kv kc vv vc" "pointer_block_serialized_length pb = n" "n < 9000"
  shows "trie_hash kc vc length_hash tf (Node pb) = Ok (word_of_nat (1 + n))"
    and "\<exists>bs. trie_to_bytes kc vc (Node pb) = Ok bs"
proof -
  have "\<exists>out. option_write_bytes pointer_write_bytes x w = Ok out" for x w
    by (cases x) (simp_all add: pointer_write_bytes_def)
  from write_items_Ok [of "option_write_bytes pointer_write_bytes", OF this]
  obtain bs where "pointer_block_write_bytes pb [NODE_TAG] = Ok bs" unfolding pointer_block_write_bytes_def by blast
  then have bs: "trie_to_bytes kc vc (Node pb) = Ok bs"
    using assms by (simp add: trie_to_bytes_Ok u32_max_def)
  then show "\<exists>bs. trie_to_bytes kc vc (Node pb) = Ok bs" ..
  show "trie_hash kc vc length_hash tf (Node pb) = Ok (word_of_nat (1 + n))"
    using trie_hash_length [OF assms(1) _ bs] assms by (simp add: CHUNK_SIZE_BYTES_def)
qed

lemma empty_node_length: "pointer_block_serialized_length pointer_block_new = 256"
  by (simp add: pointer_block_length pointer_block_new_def)

lemma add_pointer_length:
  assumes "pb i = None"
  shows "pointer_block_serialized_length (pb(i := Some p)) = pointer_block_serialized_length pb + 33"
proof -
  let ?f = "\<lambda>pb. \<lambda>j. case pb (word_of_nat j :: u8) of None \<Rightarrow> 1 | Some _ \<Rightarrow> (34 :: nat)"
  have w: "(word_of_nat j :: u8) = i \<longleftrightarrow> j = unat i" if "j < 256" for j
    using that by (auto simp: unat_eq_nat_uint [symmetric] intro: word_unat_eq_iff [THEN iffD2])
  have "?f (pb(i := Some p)) j = ?f pb j + (if j = unat i then 33 else 0)" if "j \<in> {0..<256}" for j
    using w [of j] that assms by auto
  then have "(\<Sum>j\<in>{0..<256}. ?f (pb(i := Some p)) j) = (\<Sum>j\<in>{0..<256}. ?f pb j + (if j = unat i then 33 else 0))"
    by (rule sum.cong [OF refl])
  also have "\<dots> = (\<Sum>j\<in>{0..<256}. ?f pb j) + 33"
    unfolding sum.distrib using unat_lt_256 [of i] by simp
  finally show ?thesis by (simp add: pointer_block_length)
qed

lemma single_node_length: "pointer_block_serialized_length (pointer_block_new(7 := Some p)) = 289"
  using add_pointer_length [of pointer_block_new 7 p] by (simp add: empty_node_length) (simp add: pointer_block_new_def)

lemma leaf_hash: "trie_hash u8_codec u8_codec length_hash tf (Leaf k v) = Ok 3"
  using trie_hash_length [OF u8_lawful, of "Leaf k v" "[0, k, v]"]
  by (simp add: trie_to_bytes_Ok u8_codec_def u8_write_bytes_def u8_serialized_length_def u32_max_def LEAF_TAG_def
    CHUNK_SIZE_BYTES_def)

abbreviation ex_get where "ex_get \<equiv> mem_get u8_codec u8_codec None"
abbreviation ex_put where "ex_put \<equiv> mem_put u8_codec u8_codec None"
abbreviation ex_hash where "ex_hash \<equiv> trie_hash u8_codec u8_codec length_hash tree_fold1_ref"

lemma example_store:
  obtains txn where "\<And>d. ex_get txn d = (if d = 257 then Ok (Some (Node pointer_block_new)) else Ok None)"
    "good_root (\<lambda>_. True) u8_codec (\<lambda>_. True) u8_codec None length_hash tree_fold1_ref txn 257"
proof -
  let ?root = "Node pointer_block_new :: (u8, u8) trie"
  from node_hash(2) [OF u8_lawful empty_node_length] have "\<exists>txn. ex_put in_memory_default 257 ?root = Ok txn"
    by (auto simp: store_put_def store_put_raw_def in_memory_write_def)
  then obtain txn where p: "ex_put in_memory_default 257 ?root = Ok txn" ..
  have g: "ex_get txn d = (if d = 257 then Ok (Some ?root) else Ok None)" for d
  proof -
    have "trie_ok (\<lambda>_. True) u8_codec (\<lambda>_. True) u8_codec ?root" using u8_codec_ok by simp
    from memory_tries.get_put [OF this p, of d] show ?thesis
      by (simp add: store_get_def store_get_raw_def in_memory_read_def in_memory_default_def)
  qed
  have "ex_hash ?root = Ok 257" using node_hash(1) [OF u8_lawful empty_node_length] by simp
  then have "addressed ex_hash (ex_get txn)" by (simp add: addressed_def g split: if_splits)
  then have "good_root (\<lambda>_. True) u8_codec (\<lambda>_. True) u8_codec None length_hash tree_fold1_ref txn 257"
    by (auto simp: good_root_def u8_lawful g pointer_block_new_def intro!: wf_trie.wf_node)
  with g that show ?thesis by blast
qed

lemma example_collision_free:
  assumes g: "\<And>d. ex_get txn d = (if d = 257 then Ok (Some (Node pointer_block_new)) else Ok None)"
  shows "new_elements_collision_free (ex_get txn) ex_hash (cd_tb u8_codec) 257 7 8"
proof -
  let ?N = "Node (pointer_block_new(7 := Some (LeafPointer 3))) :: (u8, u8) trie"
  have tb: "cd_tb u8_codec 7 = Ok [7]" by (simp add: u8_codec_def u8_to_bytes_def)
  have scan: "scan (ex_get txn) [7] (Node pointer_block_new) = Some (Ok (Some \<lparr>ts_tip = Node pointer_block_new, ts_parents = []\<rparr>))"
    by (simp add: scan_def scan_loop.simps [of _ _ 0] pointer_block_new_def)
  have n: "ex_hash ?N = Ok 290" "ex_hash (Node pointer_block_new) = Ok 257"
    using node_hash(1) [OF u8_lawful single_node_length] node_hash(1) [OF u8_lawful empty_node_length] by simp_all
  have els: "write_elements ex_hash (cd_tb u8_codec) 7 8 [7] \<lparr>ts_tip = Node pointer_block_new, ts_parents = []\<rparr> =
      Ok [(3, Leaf 7 8), (290, ?N)]"
    using n by (simp add: write_elements_def add_node_to_parents_def get_parents_path_def common_prefix_def
      rehash_def leaf_hash rehash_loop_Cons tip_pointer_def)
  have "{t. \<exists>d. ex_get txn d = Ok (Some t)} = {Node pointer_block_new}" by (auto simp: g split: if_splits)
  then have "collision_free ex_hash (ex_get txn) [(3, Leaf 7 8), (290, ?N)]"
    using n by (auto simp: collision_free_def leaf_hash)
  then show ?thesis using g tb scan els by (simp add: new_elements_collision_free_def)
qed

theorem trie_read_total_witness:
  "\<exists>txn. good_root (\<lambda>_. True) u8_codec (\<lambda>_. True) u8_codec None length_hash tree_fold1_ref txn 257 \<and>
    (\<exists>res. trie_read (ex_get txn) (cd_tb u8_codec) 257 7 = Some (Ok res) \<and> res \<noteq> RootNotFound)"
proof -
  obtain txn where "good_root (\<lambda>_. True) u8_codec (\<lambda>_. True) u8_codec None length_hash tree_fold1_ref txn 257"
    using example_store by blast
  with trie_read_total [OF this TrueI, of 7] show ?thesis by blast
qed

theorem trie_write_correct_witness:
  "\<exists>txn out. good_root (\<lambda>_. True) u8_codec (\<lambda>_. True) u8_codec None length_hash tree_fold1_ref txn 257 \<and>
    new_elements_collision_free (ex_get txn) ex_hash (cd_tb u8_codec) 257 7 8 \<and>
    trie_write ex_get ex_put ex_hash (cd_tb u8_codec) txn 257 7 8 = Some out \<and> out \<noteq> Panic"
proof -
  obtain txn where g: "\<And>d. ex_get txn d = (if d = 257 then Ok (Some (Node pointer_block_new)) else Ok None)"
    "good_root (\<lambda>_. True) u8_codec (\<lambda>_. True) u8_codec None length_hash tree_fold1_ref txn 257"
    using example_store by blast
  have cf: "new_elements_collision_free (ex_get txn) ex_hash (cd_tb u8_codec) 257 7 8"
    by (rule example_collision_free) (rule g(1))
  from trie_write_correct [OF g(2) TrueI TrueI cf] g(2) cf show ?thesis by blast
qed

end
