(* ===== verification/Trie_Proof.thy ===== *)
theory Trie_Proof
  imports Trie_Memory
begin

text \<open>
  Merkle proofs of entries of the global state: \<^verbatim>\<open>storage/trie/merkle_proof.rs\<close> and \<open>read_with_proof\<close> of
  \<^verbatim>\<open>storage/trie_store/operations/mod.rs\<close>. A proof made by \<open>read_with_proof\<close> recomputes to the hash of
  the root, and a proof that recomputes to the hash of a well-formed root tells the truth.
\<close>

section \<open>Proofs\<close>

datatype trie_merkle_proof_step =
    StepNode (hole_index: u8) (indexed_pointers_with_hole: "(u8 \<times> pointer) list")
  | StepExtension bytes

record ('k, 'v) trie_merkle_proof =
  tmp_key :: 'k
  tmp_value :: 'v
  tmp_steps :: "trie_merkle_proof_step list"

definition TRIE_MERKLE_PROOF_STEP_NODE_ID :: u8 where "TRIE_MERKLE_PROOF_STEP_NODE_ID = 0"
definition TRIE_MERKLE_PROOF_STEP_EXTENSION_ID :: u8 where "TRIE_MERKLE_PROOF_STEP_EXTENSION_ID = 1"

fun proof_step_serialized_length :: "trie_merkle_proof_step \<Rightarrow> nat" where
  "proof_step_serialized_length (StepNode i ps) =
     1 + (u8_serialized_length i +
       iterator_serialized_length (tuple2_serialized_length u8_serialized_length pointer_serialized_length) ps)"
| "proof_step_serialized_length (StepExtension affix) = 1 + u8_slice_serialized_length affix"

definition proof_step_to_bytes :: "(nat \<Rightarrow> bool) \<Rightarrow> trie_merkle_proof_step to_bytes" where
  "proof_step_to_bytes alloc step =
     res_bind (allocate_buffer (proof_step_serialized_length step)) (\<lambda>ret.
     case step of
       StepNode i ps \<Rightarrow>
         res_bind (vec_to_bytes alloc (tuple2_serialized_length u8_serialized_length pointer_serialized_length)
             (tuple2_to_bytes u8_serialized_length pointer_serialized_length u8_to_bytes pointer_to_bytes) ps)
           (\<lambda>b. Ok (ret @ [TRIE_MERKLE_PROOF_STEP_NODE_ID] @ [i] @ b))
     | StepExtension affix \<Rightarrow>
         res_bind (Bytes_to_bytes alloc affix) (\<lambda>b. Ok (ret @ [TRIE_MERKLE_PROOF_STEP_EXTENSION_ID] @ b)))"

definition proof_step_from_bytes :: "(nat \<Rightarrow> bool) \<Rightarrow> trie_merkle_proof_step from_bytes" where
  "proof_step_from_bytes alloc bs =
     res_bind (u8_from_bytes bs) (\<lambda>(tag, rem).
     if tag = TRIE_MERKLE_PROOF_STEP_NODE_ID then
       res_bind (u8_from_bytes rem) (\<lambda>(i, rem).
       res_bind (vec_from_bytes alloc 34 1 (tuple2_from_bytes u8_from_bytes pointer_from_bytes) rem) (\<lambda>(ps, rem).
       Ok (StepNode i ps, rem)))
     else if tag = TRIE_MERKLE_PROOF_STEP_EXTENSION_ID then
       res_bind (Bytes_from_bytes rem) (\<lambda>(affix, rem). Ok (StepExtension affix, rem))
     else Err Formatting)"

fun proof_step_fits :: "(nat \<Rightarrow> bool) \<Rightarrow> trie_merkle_proof_step \<Rightarrow> bool" where
  "proof_step_fits alloc (StepNode i ps) \<longleftrightarrow> capacity_granted alloc 34 1 (length ps)"
| "proof_step_fits alloc (StepExtension affix) \<longleftrightarrow> True"

text \<open>The queue of steps is written slice by slice; where its ring buffer wraps does not matter.\<close>

definition merkle_proof_serialized_length :: "'k codec \<Rightarrow> 'v codec \<Rightarrow> ('k, 'v) trie_merkle_proof \<Rightarrow> nat" where
  "merkle_proof_serialized_length kc vc p =
     cd_sl kc (tmp_key p) + cd_sl vc (tmp_value p) +
     iterator_serialized_length proof_step_serialized_length (tmp_steps p)"

definition merkle_proof_to_bytes ::
  "(nat \<Rightarrow> bool) \<Rightarrow> 'k codec \<Rightarrow> 'v codec \<Rightarrow> ('k, 'v) trie_merkle_proof to_bytes" where
  "merkle_proof_to_bytes alloc kc vc p =
     append_parts (merkle_proof_serialized_length kc vc p)
       [cd_tb kc (tmp_key p), cd_tb vc (tmp_value p),
        vecdeque_to_bytes proof_step_serialized_length (proof_step_to_bytes alloc) (tmp_steps p, [])]"

definition merkle_proof_from_bytes ::
  "(nat \<Rightarrow> bool) \<Rightarrow> nat \<Rightarrow> nat \<Rightarrow> 'k codec \<Rightarrow> 'v codec \<Rightarrow> ('k, 'v) trie_merkle_proof from_bytes" where
  "merkle_proof_from_bytes alloc step_size step_align kc vc bs =
     res_bind (cd_fb kc bs) (\<lambda>(key, rem).
     res_bind (cd_fb vc rem) (\<lambda>(v, rem).
     res_bind (vecdeque_from_bytes alloc step_size step_align (proof_step_from_bytes alloc) rem) (\<lambda>(steps, rem).
     Ok (\<lparr>tmp_key = key, tmp_value = v, tmp_steps = steps\<rparr>, rem))))"

section \<open>Recomputing the state hash\<close>

text \<open>The node of a step with the hole filled.\<close>

fun step_trie :: "trie_merkle_proof_step \<Rightarrow> pointer \<Rightarrow> ('k, 'v) trie" where
  "step_trie (StepNode i ps) pointer = trie_node (ps @ [(i, pointer)])"
| "step_trie (StepExtension affix) pointer = Extension affix pointer"

fun proof_step_bytes ::
  "'k codec \<Rightarrow> 'v codec \<Rightarrow> trie_merkle_proof_step \<Rightarrow> pointer \<Rightarrow> (bytes_error, bytes) result" where
  "proof_step_bytes kc vc (StepNode i ps) pointer =
     res_bind (rust_assert (unat i \<le> RADIX)) (\<lambda>_. trie_to_bytes kc vc (step_trie (StepNode i ps) pointer))"
| "proof_step_bytes kc vc (StepExtension affix) pointer =
     trie_to_bytes kc vc (step_trie (StepExtension affix) pointer)"

definition step_pointer :: "nat \<Rightarrow> digest \<Rightarrow> pointer" where
  "step_pointer proof_step_index hash = (if proof_step_index = 0 then LeafPointer hash else NodePointer hash)"

fun state_hash_loop ::
  "'k codec \<Rightarrow> 'v codec \<Rightarrow> blake2b \<Rightarrow> nat \<Rightarrow> digest \<Rightarrow> trie_merkle_proof_step list \<Rightarrow> (bytes_error, digest) result" where
  "state_hash_loop kc vc blake2b i hash [] = Ok hash"
| "state_hash_loop kc vc blake2b i hash (step # steps) =
     res_bind (proof_step_bytes kc vc step (step_pointer i hash)) (\<lambda>bs.
     state_hash_loop kc vc blake2b (i + 1) (digest_hash blake2b bs) steps)"

definition compute_state_hash ::
  "'k codec \<Rightarrow> 'v codec \<Rightarrow> blake2b \<Rightarrow> digest tree_fold1 \<Rightarrow> ('k, 'v) trie_merkle_proof \<Rightarrow> (bytes_error, digest) result" where
  "compute_state_hash kc vc blake2b tree_fold1 p =
     res_bind (trie_hash kc vc blake2b tree_fold1 (Leaf (tmp_key p) (tmp_value p))) (\<lambda>hash.
     state_hash_loop kc vc blake2b 0 hash (tmp_steps p))"

section \<open>Reading with a proof\<close>

partial_function (option) read_proof_loop ::
  "('k, 'v) getter \<Rightarrow> 'k \<Rightarrow> bytes \<Rightarrow> nat \<Rightarrow> ('k, 'v) trie \<Rightarrow> trie_merkle_proof_step list \<Rightarrow>
   (storage_error, ('k, 'v) trie_merkle_proof read_result) result option" where
  "read_proof_loop get key path depth current proof_steps =
     (case current of
        Leaf leaf_key v \<Rightarrow>
          Some (Ok (if key \<noteq> leaf_key then NotFound
            else Found \<lparr>tmp_key = leaf_key, tmp_value = v, tmp_steps = proof_steps\<rparr>))
      | Node pointer_block \<Rightarrow>
          if depth < length path then
            let hole_index = path ! depth in
            (case pointer_block hole_index of
               Some pointer \<Rightarrow>
                 let indexed_pointers_with_hole = filter (\<lambda>(index, _). index \<noteq> hole_index) (as_indexed_pointers pointer_block)
                 in loop_bind (get (pointer_hash pointer)) (\<lambda>r. case r of
                     Some next \<Rightarrow> read_proof_loop get key path (depth + 1) next
                       (StepNode hole_index indexed_pointers_with_hole # proof_steps)
                   | None \<Rightarrow> Some (Ok NotFound))
             | None \<Rightarrow> Some (Ok NotFound))
          else Some Panic
      | Extension affix pointer \<Rightarrow>
          if depth + length affix \<le> length path then
            if take (length affix) (drop depth path) \<noteq> affix then Some (Ok NotFound)
            else loop_bind (get (pointer_hash pointer)) (\<lambda>r. case r of
                Some next \<Rightarrow> read_proof_loop get key path (depth + length affix) next (StepExtension affix # proof_steps)
              | None \<Rightarrow> Some (Ok NotFound))
          else Some Panic)"

definition read_with_proof ::
  "('k, 'v) getter \<Rightarrow> 'k to_bytes \<Rightarrow> digest \<Rightarrow> 'k \<Rightarrow>
   (storage_error, ('k, 'v) trie_merkle_proof read_result) result option" where
  "read_with_proof get ktb root key =
     loop_bind (lift_bytes (ktb key)) (\<lambda>path.
     loop_bind (get root) (\<lambda>r. case r of
       Some root \<Rightarrow> read_proof_loop get key path 0 root []
     | None \<Rightarrow> Some (Ok RootNotFound)))"

section \<open>Encoding\<close>

interpretation proof_step_repr: bytesrepr "proof_step_fits alloc" proof_step_serialized_length
  "proof_step_to_bytes alloc'" "default_write_bytes (proof_step_to_bytes alloc')" "proof_step_from_bytes alloc"
  for alloc alloc'
proof (rule bytesrepr_default, goal_cases)
  note vec = bytesrepr_vec [OF bytesrepr_tuple2 [OF u8_repr.bytesrepr_axioms pointer_writer.bytesrepr_axioms],
    where alloc = alloc and es = 34 and al = 1, unfolded One_nat_def]
  case (1 step bs)
  then show ?case
    by (cases step) (auto simp: proof_step_to_bytes_def res_simps u8_serialized_length_def Bytes_repr.tb_length
      dest!: bytesrepr.tb_length [OF vec, rotated])
next
  note vec = bytesrepr_vec [OF bytesrepr_tuple2 [OF u8_repr.bytesrepr_axioms pointer_writer.bytesrepr_axioms],
    where alloc = alloc and es = 34 and al = 1, unfolded One_nat_def]
  case (2 step bs rest)
  show ?case
  proof (cases step)
    case (StepNode i ps)
    with 2 obtain b where "vec_to_bytes alloc' (tuple2_serialized_length u8_serialized_length pointer_serialized_length)
        (tuple2_to_bytes u8_serialized_length pointer_serialized_length u8_to_bytes pointer_to_bytes) ps = Ok b"
        "bs = [TRIE_MERKLE_PROOF_STEP_NODE_ID, i] @ b"
      by (auto simp: proof_step_to_bytes_def res_simps)
    with bytesrepr.roundtrip [OF vec _ this(1)] 2(1) StepNode show ?thesis
      by (simp add: proof_step_from_bytes_def)
  next
    case (StepExtension affix)
    with 2 obtain b where "Bytes_to_bytes alloc' affix = Ok b" "bs = TRIE_MERKLE_PROOF_STEP_EXTENSION_ID # b"
      by (auto simp: proof_step_to_bytes_def res_simps)
    with Bytes_repr.roundtrip [OF TrueI this(1)] StepExtension show ?thesis
      by (simp add: proof_step_from_bytes_def TRIE_MERKLE_PROOF_STEP_NODE_ID_def TRIE_MERKLE_PROOF_STEP_EXTENSION_ID_def)
  qed
qed

lemma merkle_proof_encoding:
  assumes "codec_ok kv kc" "codec_ok vv vc" "kv (tmp_key p)" "vv (tmp_value p)"
    and "\<forall>s\<in>set (tmp_steps p). proof_step_fits alloc s" "capacity_granted alloc es al (length (tmp_steps p))"
    and "merkle_proof_to_bytes alloc' kc vc p = Ok bs"
  shows "merkle_proof_from_bytes alloc es al kc vc (bs @ rest) = Ok (p, rest)"
proof -
  from assms(7) obtain kb vb sb where b: "cd_tb kc (tmp_key p) = Ok kb" "cd_tb vc (tmp_value p) = Ok vb"
      "vecdeque_to_bytes proof_step_serialized_length (proof_step_to_bytes alloc') (tmp_steps p, []) = Ok sb"
      "bs = kb @ vb @ sb"
    by (auto simp: merkle_proof_to_bytes_def append_parts_def append_items_parts res_simps)
  note k = bytesrepr.roundtrip [OF bytes_writer.axioms(1) [OF assms(1)] assms(3) b(1)]
  note v = bytesrepr.roundtrip [OF bytes_writer.axioms(1) [OF assms(2)] assms(4) b(2)]
  have s: "vecdeque_from_bytes alloc es al (proof_step_from_bytes alloc) (sb @ rest) = Ok (tmp_steps p, rest)"
    using bytesrepr_vecdeque [OF proof_step_repr.bytesrepr_axioms b(3)] assms(5,6) by simp
  show ?thesis using b(4) k v s by (simp add: merkle_proof_from_bytes_def)
qed


section \<open>Completeness\<close>

lemma from_indexed_pointers_map_of: "from_indexed_pointers xs = map_of (rev xs)"
proof -
  have "fold (\<lambda>(idx, ptr) ret. ret(idx := Some ptr)) xs m = m ++ map_of (rev xs)" for m
    by (induction xs arbitrary: m) (auto simp: map_add_def fun_eq_iff split: option.splits)
  then show ?thesis by (simp add: from_indexed_pointers_def pointer_block_new_def)
qed

lemma map_of_functional:
  assumes "\<And>v. (k, v) \<in> set xs \<longleftrightarrow> f = Some v"
  shows "map_of xs k = f"
proof (cases f)
  case None
  then have "k \<notin> fst ` set xs" using assms by force
  then show ?thesis using None by (simp add: map_of_eq_None_iff)
next
  case (Some v)
  then have "(k, v) \<in> set xs" using assms by simp
  then have "k \<in> fst ` set xs" by force
  then have "map_of xs k \<noteq> None" by (simp add: map_of_eq_None_iff)
  then obtain v' where v': "map_of xs k = Some v'" by blast
  from map_of_SomeD [OF this] assms Some have "v' = v" by simp
  with v' Some show ?thesis by simp
qed

text \<open>Filling the hole gives the node back.\<close>

lemma fill_hole:
  assumes "pb i = Some ptr"
  shows "from_indexed_pointers (filter (\<lambda>(j, _). j \<noteq> i) (as_indexed_pointers pb) @ [(i, ptr)]) = pb"
proof
  fix j
  have "map_of (rev (filter (\<lambda>(j, _). j \<noteq> i) (as_indexed_pointers pb))) j = pb j" if "j \<noteq> i"
    using that by (intro map_of_functional) (simp add: as_indexed_pointers_set)
  then show "from_indexed_pointers (filter (\<lambda>(j, _). j \<noteq> i) (as_indexed_pointers pb) @ [(i, ptr)]) j = pb j"
    using assms by (simp add: from_indexed_pointers_map_of)
qed

fun step_of :: "u8 \<times> ('k, 'v) trie \<Rightarrow> trie_merkle_proof_step" where
  "step_of (i, Node pb) = StepNode i (filter (\<lambda>(j, _). j \<noteq> i) (as_indexed_pointers pb))"
| "step_of (_, Extension affix _) = StepExtension affix"
| "step_of (i, Leaf _ _) = StepNode i []"

lemma chain_read_proof:
  "chain get q t ps tip q' \<Longrightarrow> depth \<le> length path \<Longrightarrow> drop depth path = q \<Longrightarrow>
   read_proof_loop get key path depth t steps =
   read_proof_loop get key path (depth + length (get_parents_path ps)) tip (rev (map step_of ps) @ steps)"
proof (induction arbitrary: depth steps rule: chain.induct)
  case (chain_nil q t)
  show ?case by (simp add: get_parents_path_def)
next
  case (chain_node pb i ptr t q ps tip q')
  from drop_Cons_nth [OF chain_node(6)] chain_node(1,2)
  have "read_proof_loop get key path depth (Node pb) steps =
    read_proof_loop get key path (depth + 1) t (step_of (i, Node pb) # steps)"
    by (subst read_proof_loop.simps) (simp add: Let_def)
  with drop_Cons_nth [OF chain_node(6)] chain_node(4) [of "depth + 1"] show ?case
    by (simp add: get_parents_path_def)
next
  case (chain_ext affix ptr t q ps tip q')
  from drop_append_split [OF chain_ext(5,6)] chain_ext(2)
  have "read_proof_loop get key path depth (Extension affix ptr) steps =
    read_proof_loop get key path (depth + length affix) t (step_of (hd affix, Extension affix ptr) # steps)"
    by (subst read_proof_loop.simps) simp
  with drop_append_split [OF chain_ext(5,6)] chain_ext(4) [of "depth + length affix"] show ?case
    by (simp add: get_parents_path_def add.assoc)
qed

lemma read_proof_stop:
  assumes "scan_stops q tip" "depth \<le> length path" "drop depth path = q"
  shows "read_proof_loop get key path depth tip steps =
    Some (Ok (case tip of
        Leaf k v \<Rightarrow> if key \<noteq> k then NotFound else Found \<lparr>tmp_key = k, tmp_value = v, tmp_steps = steps\<rparr>
      | _ \<Rightarrow> NotFound))"
proof (cases tip)
  case (Node pb)
  with assms have "depth < length path" by auto
  moreover from this have "path ! depth = hd q" using assms(3) by (metis hd_drop_conv_nth)
  ultimately show ?thesis using Node assms(1) by (subst read_proof_loop.simps) (simp add: Let_def)
next
  case (Extension affix ptr)
  with assms have "depth + length affix \<le> length path" "take (length affix) (drop depth path) \<noteq> affix" by auto
  then show ?thesis using Extension by (subst read_proof_loop.simps) simp
qed (subst read_proof_loop.simps, simp)

text \<open>A node that is hashed in one piece.\<close>

definition hashed_whole :: "'k codec \<Rightarrow> 'v codec \<Rightarrow> ('k, 'v) trie \<Rightarrow> bool" where
  "hashed_whole kc vc t \<longleftrightarrow> (\<forall>bs. trie_to_bytes kc vc t = Ok bs \<longrightarrow> length bs \<le> CHUNK_SIZE_BYTES)"

lemma hashed_wholeD:
  "hashed_whole kc vc t \<Longrightarrow> trie_hash kc vc blake2b tree_fold1 t = Ok h \<Longrightarrow>
   \<exists>bs. trie_to_bytes kc vc t = Ok bs \<and> h = digest_hash blake2b bs"
  by (auto simp: hashed_whole_def trie_hash_def res_simps hash_bytes_into_chunks_if_necessary_def)

lemma node_hashed_whole:
  assumes "lawful_codecs kv kc vv vc"
  shows "hashed_whole kc vc (Node pb)"
  unfolding hashed_whole_def
proof (intro allI impI)
  fix bs assume bs: "trie_to_bytes kc vc (Node pb) = Ok bs"
  have "trie_ok kv kc vv vc (Node pb)" using lawfulD(1,2) [OF assms] by simp
  from trie_repr.tb_length [OF this bs] have "length bs = 1 + pointer_block_serialized_length pb" by simp
  moreover have "pointer_block_serialized_length pb \<le> (\<Sum>i\<in>{0..<256 :: nat}. 34)"
    unfolding pointer_block_length by (rule sum_mono) (auto split: option.splits)
  ultimately show "length bs \<le> CHUNK_SIZE_BYTES" by (simp add: CHUNK_SIZE_BYTES_def)
qed

lemma extension_hashed_whole:
  assumes "lawful_codecs kv kc vv vc" "length affix + 38 \<le> CHUNK_SIZE_BYTES"
  shows "hashed_whole kc vc (Extension affix ptr)"
  unfolding hashed_whole_def
proof (intro allI impI)
  fix bs assume bs: "trie_to_bytes kc vc (Extension affix ptr) = Ok bs"
  have "trie_ok kv kc vv vc (Extension affix ptr)" using lawfulD(1,2) [OF assms(1)] by simp
  from trie_repr.tb_length [OF this bs] assms(2) show "length bs \<le> CHUNK_SIZE_BYTES"
    by (simp add: u8_slice_serialized_length_def pointer_serialized_length_def)
qed

text \<open>The paths of keys are far shorter than a chunk.\<close>

definition short_keys :: "('k \<Rightarrow> bool) \<Rightarrow> 'k codec \<Rightarrow> bool" where
  "short_keys kv kc \<longleftrightarrow> (\<forall>k. kv k \<longrightarrow> length (key_path kc k) + 38 \<le> CHUNK_SIZE_BYTES)"

abbreviation mem_wf where
  "mem_wf kv kc vv vc \<equiv> wf_trie (\<lambda>k. lawful_codecs kv kc vv vc \<and> kv k) (key_path kc)"

lemma wf_hashed_whole:
  assumes l: "lawful_codecs kv kc vv vc" and short: "short_keys kv kc" and w: "mem_wf kv kc vv vc g p t" and t: "\<not> is_leaf t"
  shows "hashed_whole kc vc t"
proof (cases t)
  case (Node pb)
  then show ?thesis using node_hashed_whole [OF l] by simp
next
  case (Extension affix ptr)
  with w have "p \<noteq> []" by (auto elim: wf_extE)
  from memory_trie.wf_has_key [OF w this] Extension obtain k q where k: "kv k" "key_path kc k = p @ affix @ q" by auto
  with short have "length affix + 38 \<le> CHUNK_SIZE_BYTES" unfolding short_keys_def by force
  then show ?thesis using extension_hashed_whole [OF l] Extension by simp
qed (use t in simp)

lemma addressed_unique: "addressed hash_of g \<Longrightarrow> g h = Ok (Some t) \<Longrightarrow> g h' = Ok (Some t) \<Longrightarrow> h = h'"
  unfolding addressed_def by (metis result.inject(1))

lemma chain_stored: "chain g q t ps tip q' \<Longrightarrow> g h0 = Ok (Some t) \<Longrightarrow> \<exists>h. g h = Ok (Some tip)"
  by (induction arbitrary: h0 rule: chain.induct) blast+

lemma step_of_trie:
  assumes "chain g qm m [(ci, parent)] tip q'" and w: "mem_wf kv kc vv vc g p parent"
    and ad: "addressed hash_of g" and h: "g h = Ok (Some tip)" and i: "(i = 0) = is_leaf tip"
  shows "step_trie (step_of (ci, parent)) (step_pointer i h) = parent"
proof -
  note cs = memory_trie.chain_single [OF assms(1)]
  have ptr: "ptr = step_pointer i h" if "g (pointer_hash ptr) = Ok (Some tip)" "is_leaf_pointer ptr = is_leaf tip" for ptr
  proof -
    have "pointer_hash ptr = h" by (rule addressed_unique [OF ad that(1) h])
    with that(2) i show ?thesis by (cases ptr) (auto simp: step_pointer_def)
  qed
  show ?thesis
  proof (cases parent)
    case (Node pb)
    with cs obtain ptr where p: "pb ci = Some ptr" "g (pointer_hash ptr) = Ok (Some tip)" by auto
    with memory_trie.wf_nodeD(1) [OF w [unfolded Node] p(1)] have "is_leaf_pointer ptr = is_leaf tip" by auto
    from ptr [OF p(2) this] p(1) fill_hole [of pb ci ptr] Node show ?thesis by (simp add: trie_node_def)
  next
    case (Extension affix pt)
    with cs have p: "g (pointer_hash pt) = Ok (Some tip)" by auto
    with w Extension have "is_leaf_pointer pt = is_leaf tip" by (auto elim!: wf_extE)
    from ptr [OF p this] Extension show ?thesis by simp
  qed (use cs in simp)
qed

lemma proof_step_bytes_eq: "proof_step_bytes kc vc s ptr = trie_to_bytes kc vc (step_trie s ptr)"
proof (cases s)
  case (StepNode i ps)
  have "unat i < 256" using unat_lt2p [of i] by simp
  then have "unat i \<le> RADIX" unfolding RADIX_def by linarith
  with StepNode show ?thesis by simp
qed simp

lemma state_hash_chain:
  assumes l: "lawful_codecs kv kc vv vc" and short: "short_keys kv kc"
    and ad: "addressed (trie_hash kc vc blake2b tree_fold1) g" and w: "mem_wf kv kc vv vc g [] root" and r: "g r = Ok (Some root)"
  shows "chain g q root ps tip q' \<Longrightarrow> g h = Ok (Some tip) \<Longrightarrow> (i = 0) = is_leaf tip \<Longrightarrow>
    state_hash_loop kc vc blake2b i h (rev (map step_of ps)) = Ok r"
proof (induction ps arbitrary: tip q' h i rule: rev_induct)
  case Nil
  then have "tip = root" by (auto elim: chain_nilE)
  with Nil addressed_unique [OF ad r] show ?case by simp
next
  case (snoc x ps)
  obtain ci parent where x: "x = (ci, parent)" by fastforce
  from snoc.prems(1) obtain m qm where c: "chain g q root ps m qm" "chain g qm m [(ci, parent)] tip q'"
    by (auto simp: chain_append x)
  note cs = memory_trie.chain_single [OF c(2)]
  then have c1: "chain g q root ps parent qm" using c(1) by simp
  have wp: "mem_wf kv kc vv vc g (get_parents_path ps) parent" using memory_trie.chain_wf [OF c1 w] by simp
  from chain_stored [OF c1 r] obtain h' where h': "g h' = Ok (Some parent)" by blast
  with ad have "trie_hash kc vc blake2b tree_fold1 parent = Ok h'" by (simp add: addressed_def)
  from hashed_wholeD [OF wf_hashed_whole [OF l short wp] this] cs obtain bs where
    bs: "trie_to_bytes kc vc parent = Ok bs" "h' = digest_hash blake2b bs" by blast
  have "step_trie (step_of (ci, parent)) (step_pointer i h) = parent"
    by (rule step_of_trie [OF c(2) wp ad snoc.prems(2,3)])
  with bs snoc.IH [OF c1 h', of "i + 1"] cs show ?case by (simp add: x proof_step_bytes_eq)
qed

text \<open>Reading with a proof finds what reading finds, and the proof is valid.\<close>

lemma read_with_proof_complete:
  assumes l: "lawful_codecs kv kc vv vc" and short: "short_keys kv kc"
    and ad: "addressed (trie_hash kc vc blake2b tree_fold1) g" and w: "mem_wf kv kc vv vc g [] root" and r: "g r = Ok (Some root)"
    and k: "kv k"
  shows "(trie_read g (cd_tb kc) r k = Some (Ok NotFound) \<and> read_with_proof g (cd_tb kc) r k = Some (Ok NotFound)) \<or>
    (\<exists>v p. trie_read g (cd_tb kc) r k = Some (Ok (Found v)) \<and> read_with_proof g (cd_tb kc) r k = Some (Ok (Found p)) \<and>
       tmp_key p = k \<and> tmp_value p = v \<and> compute_state_hash kc vc blake2b tree_fold1 p = Ok r)"
proof -
  let ?path = "key_path kc k"
  have tb: "cd_tb kc k = Ok ?path" by (rule lawfulD(5) [OF l k])
  obtain ps tip q' where c: "chain g ?path root ps tip q'" "scan_stops q' tip"
    using memory_trie.wf_scan [OF w, of k ?path] l k by auto
  have d: "length (get_parents_path ps) \<le> length ?path" "drop (length (get_parents_path ps)) ?path = q'"
    using chain_path [OF c(1)] by simp_all
  have rp: "read_with_proof g (cd_tb kc) r k = Some (Ok (case tip of
      Leaf k' v \<Rightarrow> if k \<noteq> k' then NotFound else Found \<lparr>tmp_key = k', tmp_value = v, tmp_steps = rev (map step_of ps)\<rparr>
    | _ \<Rightarrow> NotFound))"
    using chain_read_proof [OF c(1), of 0 ?path k "[]"] read_proof_stop [OF c(2) d, of g k "rev (map step_of ps)"]
    by (simp add: read_with_proof_def tb r)
  have rd: "trie_read g (cd_tb kc) r k = Some (Ok (as_read_result x))" if "lookup g k q' tip x" for x
    using lookup_read_loop [OF chain_lookup [OF c(1) that], of 0 ?path] by (simp add: trie_read_def tb r)
  show ?thesis
  proof (cases tip)
    case (Leaf k' v)
    show ?thesis
    proof (cases "k' = k")
      case True
      from chain_stored [OF c(1) r] obtain h where h: "g h = Ok (Some tip)" by blast
      with ad Leaf have "trie_hash kc vc blake2b tree_fold1 (Leaf k' v) = Ok h" by (simp add: addressed_def)
      with state_hash_chain [OF l short ad w r c(1) h, of 0] Leaf True rp rd [of "Some v"]
      show ?thesis by (simp add: compute_state_hash_def as_read_result_def)
    next
      case False
      with Leaf rp rd [of None] show ?thesis by (simp add: as_read_result_def)
    qed
  next
    case (Node pb)
    with c(2) obtain j q2 where "q' = j # q2" "pb j = None" by (cases q') auto
    with Node rp rd [of None] lk_none [of pb j g k q2] show ?thesis by (simp add: as_read_result_def)
  next
    case (Extension affix ptr)
    with c(2) rp rd [of None] lk_miss [of affix q' g k ptr] show ?thesis by (simp add: as_read_result_def)
  qed
qed

section \<open>Soundness\<close>

definition step_hash ::
  "'k codec \<Rightarrow> 'v codec \<Rightarrow> blake2b \<Rightarrow> digest tree_fold1 \<Rightarrow> ('k, 'v) trie \<Rightarrow> (bytes_error, digest) result" where
  "step_hash kc vc blake2b tree_fold1 t =
     (if is_leaf t then trie_hash kc vc blake2b tree_fold1 t
      else res_bind (trie_to_bytes kc vc t) (\<lambda>bs. Ok (digest_hash blake2b bs)))"

text \<open>The nodes that recomputing the hash builds.\<close>

fun proof_tries ::
  "'k codec \<Rightarrow> 'v codec \<Rightarrow> blake2b \<Rightarrow> nat \<Rightarrow> digest \<Rightarrow> trie_merkle_proof_step list \<Rightarrow> ('k, 'v) trie list" where
  "proof_tries kc vc blake2b i hash [] = []"
| "proof_tries kc vc blake2b i hash (step # steps) =
     (let t = step_trie step (step_pointer i hash) in
      t # (case trie_to_bytes kc vc t of
        Ok bs \<Rightarrow> proof_tries kc vc blake2b (i + 1) (digest_hash blake2b bs) steps | _ \<Rightarrow> []))"

definition proof_collision_free ::
  "'k codec \<Rightarrow> 'v codec \<Rightarrow> blake2b \<Rightarrow> digest tree_fold1 \<Rightarrow> ('k, 'v) getter \<Rightarrow> ('k, 'v) trie_merkle_proof \<Rightarrow> bool" where
  "proof_collision_free kc vc blake2b tree_fold1 g p \<longleftrightarrow>
     (\<forall>h. trie_hash kc vc blake2b tree_fold1 (Leaf (tmp_key p) (tmp_value p)) = Ok h \<longrightarrow>
        inj_on (step_hash kc vc blake2b tree_fold1) ({t. \<exists>h. g h = Ok (Some t)} \<union>
          set (Leaf (tmp_key p) (tmp_value p) # proof_tries kc vc blake2b 0 h (tmp_steps p))))"

lemma stored_step_hash:
  assumes "lawful_codecs kv kc vv vc" "short_keys kv kc"
    and "addressed (trie_hash kc vc blake2b tree_fold1) g" "mem_wf kv kc vv vc g p t" "g h = Ok (Some t)"
  shows "step_hash kc vc blake2b tree_fold1 t = Ok h"
proof -
  have "trie_hash kc vc blake2b tree_fold1 t = Ok h" using assms(3,5) by (simp add: addressed_def)
  then show ?thesis
    using hashed_wholeD [OF wf_hashed_whole [OF assms(1,2,4)], of blake2b tree_fold1 h]
    by (auto simp: step_hash_def res_simps)
qed

lemma chain_snoc:
  assumes "\<And>q'. chain g (get_parents_path ps @ q') root ps m q'" "\<And>q'. chain g (parent_path x @ q') m [x] t q'"
  shows "chain g (get_parents_path (ps @ [x]) @ q') root (ps @ [x]) t q'"
  unfolding chain_append
  using assms(1) [of "parent_path x @ q'"] assms(2) [of q'] by (auto simp: get_parents_path_def)

lemma state_hash_sound:
  assumes l: "lawful_codecs kv kc vv vc" and short: "short_keys kv kc"
    and ad: "addressed (trie_hash kc vc blake2b tree_fold1) g" and w: "mem_wf kv kc vv vc g [] root" and r: "g r = Ok (Some root)"
    and cf: "inj_on (step_hash kc vc blake2b tree_fold1) ({t. \<exists>h. g h = Ok (Some t)} \<union> S)"
  shows "state_hash_loop kc vc blake2b i h steps = Ok r \<Longrightarrow> step_hash kc vc blake2b tree_fold1 t = Ok h \<Longrightarrow>
    (i = 0) = is_leaf t \<Longrightarrow> t \<in> S \<Longrightarrow> set (proof_tries kc vc blake2b i h steps) \<subseteq> S \<Longrightarrow>
    \<exists>ps. \<forall>q'. chain g (get_parents_path ps @ q') root ps t q'"
proof (induction steps arbitrary: i h t)
  case Nil
  from stored_step_hash [OF l short ad w r] Nil inj_onD [OF cf, of t root] r have "t = root" by auto
  then show ?case by (intro exI [of _ "[]"]) (simp add: get_parents_path_def chain_nil)
next
  case (Cons s ss)
  let ?ptr = "step_pointer i h"
  define t' :: "('a, 'b) trie" where "t' = step_trie s ?ptr"
  from Cons.prems(1) obtain bs where bs: "trie_to_bytes kc vc t' = Ok bs"
      "state_hash_loop kc vc blake2b (i + 1) (digest_hash blake2b bs) ss = Ok r"
    by (auto simp: proof_step_bytes_eq t'_def res_simps)
  have nl: "\<not> is_leaf t'" by (cases s) (simp_all add: t'_def trie_node_def)
  have S: "t' \<in> S" "set (proof_tries kc vc blake2b (i + 1) (digest_hash blake2b bs) ss) \<subseteq> S"
    using Cons.prems(5) bs(1) by (simp_all add: Let_def t'_def)
  from Cons.IH [OF bs(2) _ _ S] bs(1) nl obtain ps where ps: "\<And>q'. chain g (get_parents_path ps @ q') root ps t' q'"
    by (auto simp: step_hash_def)
  from memory_trie.chain_wf [OF ps w] have w': "mem_wf kv kc vv vc g (get_parents_path ps) t'" by simp
  have same: "u = t" if u: "g h = Ok (Some u)" "mem_wf kv kc vv vc g p u" for u p
    using inj_onD [OF cf, of u t] stored_step_hash [OF l short ad u(2,1)] Cons.prems(2,4) u(1) by auto
  have hp: "pointer_hash ?ptr = h" by (simp add: step_pointer_def)
  show ?case
  proof (cases s)
    case (StepNode j js)
    define pb where "pb = from_indexed_pointers (js @ [(j, ?ptr)])"
    have t': "t' = Node pb" and pbj: "pb j = Some ?ptr"
      using StepNode by (simp_all add: t'_def trie_node_def pb_def from_indexed_pointers_map_of)
    from memory_trie.wf_nodeD(1) [OF w' [unfolded t'] pbj] hp same have "g (pointer_hash ?ptr) = Ok (Some t)" by auto
    then have "chain g (parent_path (j, Node pb) @ q') (Node pb) [(j, Node pb)] t q'" for q'
      using chain_node [of pb j ?ptr g t q' "[]" t q'] pbj by (simp add: chain_nil)
    with chain_snoc [of g ps root "Node pb" "(j, Node pb)" t] ps t' show ?thesis by (intro exI [of _ "ps @ [(j, Node pb)]"]) simp
  next
    case (StepExtension affix)
    then have t': "t' = Extension affix ?ptr" by (simp add: t'_def)
    with w' obtain h0 pb where e: "affix \<noteq> []" "?ptr = NodePointer h0" "g h0 = Ok (Some (Node pb))"
        "mem_wf kv kc vv vc g (get_parents_path ps @ affix) (Node pb)" by (auto elim: wf_extE)
    with hp same [of "Node pb"] have "g (pointer_hash ?ptr) = Ok (Some t)" by simp
    then have "chain g (parent_path (hd affix, t') @ q') t' [(hd affix, t')] t q'" for q'
      using chain_ext [of affix g ?ptr t q' "[]" t q'] e(1) by (simp add: t' chain_nil)
    with chain_snoc [of g ps root t' "(hd affix, t')" t] ps show ?thesis by (intro exI [of _ "ps @ [(hd affix, t')]"]) simp
  qed
qed

lemma proof_sound:
  assumes l: "lawful_codecs kv kc vv vc" and short: "short_keys kv kc"
    and ad: "addressed (trie_hash kc vc blake2b tree_fold1) g" and w: "mem_wf kv kc vv vc g [] root" and r: "g r = Ok (Some root)"
    and p: "compute_state_hash kc vc blake2b tree_fold1 p = Ok r" and cf: "proof_collision_free kc vc blake2b tree_fold1 g p"
  shows "kv (tmp_key p) \<and> trie_read g (cd_tb kc) r (tmp_key p) = Some (Ok (Found (tmp_value p)))"
proof -
  let ?leaf = "Leaf (tmp_key p) (tmp_value p)"
  from p obtain h where h: "trie_hash kc vc blake2b tree_fold1 ?leaf = Ok h"
      "state_hash_loop kc vc blake2b 0 h (tmp_steps p) = Ok r"
    by (auto simp: compute_state_hash_def res_simps)
  note inj = cf [unfolded proof_collision_free_def, rule_format, OF h(1)]
  from state_hash_sound [OF l short ad w r inj h(2), of ?leaf] h(1) obtain ps where
    ps: "\<And>q'. chain g (get_parents_path ps @ q') root ps ?leaf q'"
    by (auto simp: step_hash_def)
  from memory_trie.chain_wf [OF ps w] have "mem_wf kv kc vv vc g (get_parents_path ps) ?leaf" by simp
  then obtain q where k: "kv (tmp_key p)" "key_path kc (tmp_key p) = get_parents_path ps @ q" by (auto elim: wf_leafE)
  have "lookup g (tmp_key p) (key_path kc (tmp_key p)) root (Some (tmp_value p))"
    using chain_lookup [OF ps [of q], of "tmp_key p" "Some (tmp_value p)"] k(2) by simp
  from lookup_read_loop [OF this, of 0 "key_path kc (tmp_key p)"] k(1) show ?thesis
    by (simp add: trie_read_def lawfulD(5) [OF l k(1)] r as_read_result_def)
qed

section \<open>Properties\<close>

text \<open>C16: under a well-formed root \<open>read_with_proof\<close> agrees with \<open>read\<close>: it reports a missing key as such, and
  for a key with a value it returns a proof of that key and that value from which
  \<open>compute_state_hash\<close> recomputes the hash of the root.\<close>
theorem state_proof_complete:
  assumes "good_root kv kc vv vc h blake2b tree_fold1 txn r" "short_keys kv kc" "kv k"
  shows "(trie_read (mem_get kc vc h txn) (cd_tb kc) r k = Some (Ok NotFound) \<and>
      read_with_proof (mem_get kc vc h txn) (cd_tb kc) r k = Some (Ok NotFound)) \<or>
    (\<exists>v p. trie_read (mem_get kc vc h txn) (cd_tb kc) r k = Some (Ok (Found v)) \<and>
       read_with_proof (mem_get kc vc h txn) (cd_tb kc) r k = Some (Ok (Found p)) \<and>
       tmp_key p = k \<and> tmp_value p = v \<and> compute_state_hash kc vc blake2b tree_fold1 p = Ok r)"
proof -
  from assms(1) obtain pb where "lawful_codecs kv kc vv vc" "addressed (trie_hash kc vc blake2b tree_fold1) (mem_get kc vc h txn)"
      "mem_get kc vc h txn r = Ok (Some (Node pb))" "mem_wf kv kc vv vc (mem_get kc vc h txn) [] (Node pb)"
    by (auto simp: good_root_def)
  from read_with_proof_complete [OF this(1) assms(2) this(2,4,3) assms(3)] show ?thesis .
qed

text \<open>C6: a Merkle proof that recomputes to the hash of a well-formed root is true: reading its key under
  that root gives its value, whoever made the proof. No collision of the hash among the stored
  nodes and the nodes that the proof describes is assumed.\<close>
theorem state_proof_sound:
  assumes "good_root kv kc vv vc h blake2b tree_fold1 txn r" "short_keys kv kc"
    and "compute_state_hash kc vc blake2b tree_fold1 p = Ok r"
    and "proof_collision_free kc vc blake2b tree_fold1 (mem_get kc vc h txn) p"
  shows "kv (tmp_key p) \<and>
    trie_read (mem_get kc vc h txn) (cd_tb kc) r (tmp_key p) = Some (Ok (Found (tmp_value p)))"
proof -
  from assms(1) obtain pb where "lawful_codecs kv kc vv vc" "addressed (trie_hash kc vc blake2b tree_fold1) (mem_get kc vc h txn)"
      "mem_get kc vc h txn r = Ok (Some (Node pb))" "mem_wf kv kc vv vc (mem_get kc vc h txn) [] (Node pb)"
    by (auto simp: good_root_def)
  from proof_sound [OF this(1) assms(2) this(2,4,3) assms(3,4)] show ?thesis .
qed

subsection \<open>A store with one entry\<close>

definition ex_node :: "(u8, u8) trie" where "ex_node = trie_node [(7, LeafPointer 3)]"

lemma ex_node_eq: "ex_node = Node (pointer_block_new(7 := Some (LeafPointer 3)))"
  by (simp add: ex_node_def trie_node_def from_indexed_pointers_def)

lemma ex_node_hash: "ex_hash ex_node = Ok 290" "\<exists>bs. trie_to_bytes u8_codec u8_codec ex_node = Ok bs"
  using node_hash(1) [OF u8_lawful single_node_length, of tree_fold1_ref "LeafPointer 3"]
    node_hash(2) [OF u8_lawful single_node_length, of "LeafPointer 3"] by (simp_all add: ex_node_eq)

lemma one_entry_store:
  obtains txn where "\<And>d. ex_get txn d = (if d = 290 then Ok (Some ex_node) else if d = 3 then Ok (Some (Leaf 7 8)) else Ok None)"
    "good_root (\<lambda>_. True) u8_codec (\<lambda>_. True) u8_codec None length_hash tree_fold1_ref txn 290"
proof -
  have lb: "\<exists>bs. trie_to_bytes u8_codec u8_codec (Leaf 7 8) = Ok bs"
    by (simp add: trie_to_bytes_Ok u8_codec_def u8_write_bytes_def u8_serialized_length_def u32_max_def)
  then have "\<exists>txn. ex_put in_memory_default 3 (Leaf 7 8) = Ok txn"
    by (auto simp: store_put_def store_put_raw_def in_memory_write_def)
  then obtain t1 where p1: "ex_put in_memory_default 3 (Leaf 7 8) = Ok t1" ..
  from ex_node_hash(2) have "\<exists>txn. ex_put t1 290 ex_node = Ok txn"
    by (auto simp: store_put_def store_put_raw_def in_memory_write_def Let_def)
  then obtain txn where p2: "ex_put t1 290 ex_node = Ok txn" ..
  have ok: "trie_ok (\<lambda>_. True) u8_codec (\<lambda>_. True) u8_codec t" for t using u8_codec_ok by (cases t) simp_all
  have g: "ex_get txn d = (if d = 290 then Ok (Some ex_node) else if d = 3 then Ok (Some (Leaf 7 8)) else Ok None)" for d
    using memory_tries.get_put [OF ok p2, of d] memory_tries.get_put [OF ok p1, of d]
    by (simp add: store_get_def store_get_raw_def in_memory_read_def in_memory_default_def)
  then have "addressed ex_hash (ex_get txn)" using ex_node_hash(1) by (simp add: addressed_def leaf_hash split: if_splits)
  moreover have "mem_wf (\<lambda>_. True) u8_codec (\<lambda>_. True) u8_codec (ex_get txn) [] ex_node"
    unfolding ex_node_eq
  proof (rule memory_trie.wf_nodeI)
    fix i ptr assume "(pointer_block_new(7 := Some (LeafPointer 3))) i = Some ptr"
    then have "i = 7" "ptr = LeafPointer 3" by (auto simp: pointer_block_new_def split: if_splits)
    moreover have "mem_wf (\<lambda>_. True) u8_codec (\<lambda>_. True) u8_codec (ex_get txn) ([] @ [7]) (Leaf 7 8)"
    proof (rule memory_trie.wf_leafI)
      show "key_path u8_codec 7 = ([] @ [7]) @ []" by (simp add: key_path_def u8_codec_def u8_to_bytes_def)
    qed (simp add: u8_lawful)
    ultimately show "\<exists>t. ex_get txn (pointer_hash ptr) = Ok (Some t) \<and> is_leaf_pointer ptr = is_leaf t \<and>
        mem_wf (\<lambda>_. True) u8_codec (\<lambda>_. True) u8_codec (ex_get txn) ([] @ [i]) t"
      using g [of 3] by simp
  qed simp
  ultimately have "good_root (\<lambda>_. True) u8_codec (\<lambda>_. True) u8_codec None length_hash tree_fold1_ref txn 290"
    unfolding good_root_def using u8_lawful g [of 290] ex_node_eq by auto
  with g that show ?thesis by blast
qed

lemma ex_short: "short_keys (\<lambda>_. True) u8_codec"
  by (simp add: short_keys_def key_path_def u8_codec_def u8_to_bytes_def CHUNK_SIZE_BYTES_def)

definition ex_proof :: "(u8, u8) trie_merkle_proof" where
  "ex_proof = \<lparr>tmp_key = 7, tmp_value = 8, tmp_steps = [StepNode 7 []]\<rparr>"

theorem state_proof_complete_witness:
  "\<exists>txn v p. trie_read (ex_get txn) (cd_tb u8_codec) 290 7 = Some (Ok (Found v)) \<and> tmp_value p = v \<and>
     compute_state_hash u8_codec u8_codec length_hash tree_fold1_ref p = Ok 290"
proof -
  obtain txn where t: "\<And>d. ex_get txn d = (if d = 290 then Ok (Some ex_node) else if d = 3 then Ok (Some (Leaf 7 8)) else Ok None)"
    "good_root (\<lambda>_. True) u8_codec (\<lambda>_. True) u8_codec None length_hash tree_fold1_ref txn 290"
    using one_entry_store by blast
  have "trie_read (ex_get txn) (cd_tb u8_codec) 290 7 = Some (Ok (Found 8))"
    using t(1) by (simp add: trie_read_def u8_codec_def u8_to_bytes_def ex_node_eq read_loop.simps)
  with state_proof_complete [OF t(2) ex_short TrueI, of 7] show ?thesis by auto
qed

theorem state_proof_sound_witness:
  "\<exists>txn. compute_state_hash u8_codec u8_codec length_hash tree_fold1_ref ex_proof = Ok 290 \<and>
     trie_read (ex_get txn) (cd_tb u8_codec) 290 7 = Some (Ok (Found 8))"
proof -
  obtain txn where t: "\<And>d. ex_get txn d = (if d = 290 then Ok (Some ex_node) else if d = 3 then Ok (Some (Leaf 7 8)) else Ok None)"
    "good_root (\<lambda>_. True) u8_codec (\<lambda>_. True) u8_codec None length_hash tree_fold1_ref txn 290"
    using one_entry_store by blast
  obtain bs where bs: "trie_to_bytes u8_codec u8_codec ex_node = Ok bs" using ex_node_hash(2) by blast
  have "digest_hash length_hash bs = 290"
    using hashed_wholeD [OF node_hashed_whole [OF u8_lawful] ex_node_hash(1) [unfolded ex_node_eq]] bs by (simp add: ex_node_eq)
  with bs have p: "compute_state_hash u8_codec u8_codec length_hash tree_fold1_ref ex_proof = Ok 290"
    by (simp add: compute_state_hash_def ex_proof_def leaf_hash proof_step_bytes_eq step_pointer_def ex_node_def)
  have "ex_get txn 290 = Ok (Some ex_node)" "ex_get txn 3 = Ok (Some (Leaf 7 8))" by (simp_all add: t(1))
  then have "{ex_node, Leaf 7 8} \<subseteq> {t. \<exists>h. ex_get txn h = Ok (Some t)}" by blast
  moreover have "{t. \<exists>h. ex_get txn h = Ok (Some t)} \<subseteq> {ex_node, Leaf 7 8}" by (auto simp: t(1) split: if_splits)
  ultimately have st: "{t. \<exists>h. ex_get txn h = Ok (Some t)} = {ex_node, Leaf 7 8}" by (rule equalityI [rotated])
  have sh: "step_hash u8_codec u8_codec length_hash tree_fold1_ref ex_node = Ok 290"
      "step_hash u8_codec u8_codec length_hash tree_fold1_ref (Leaf 7 8) = Ok 3"
    using bs \<open>digest_hash length_hash bs = 290\<close> by (simp_all add: step_hash_def ex_node_eq leaf_hash)
  then have "inj_on (step_hash u8_codec u8_codec length_hash tree_fold1_ref) {ex_node, Leaf 7 8}"
    by (auto simp: inj_on_def)
  moreover have "{t. \<exists>h. ex_get txn h = Ok (Some t)} \<union>
      set (Leaf 7 8 # proof_tries u8_codec u8_codec length_hash 0 3 [StepNode 7 []]) = {ex_node, Leaf 7 8}"
    using bs by (auto simp: st Let_def step_pointer_def simp flip: ex_node_def)
  ultimately have "proof_collision_free u8_codec u8_codec length_hash tree_fold1_ref (ex_get txn) ex_proof"
    by (simp add: proof_collision_free_def ex_proof_def leaf_hash)
  from state_proof_sound [OF t(2) ex_short p this] p show ?thesis by (auto simp: ex_proof_def)
qed

end
