(* ===== verification/Text.thy ===== *)
theory Text
  imports Merkle
begin

text \<open>
  Strings: what the code uses of the standard library (\<open>strip_prefix\<close>, \<open>splitn\<close>, the decimal and octal
  formatting and parsing of integers) and the checksummed hexadecimal encoding of
  \<^verbatim>\<open>types/src/checksummed_hex.rs\<close>. The crate \<open>base16\<close> is a pair of arguments \<open>encode_lower\<close> and \<open>decode\<close>;
  what is relied on of it is \<open>base16_spec\<close>.
\<close>

unbundle bit_operations_syntax

section \<open>Prefixes and integers\<close>

fun strip_prefix :: "string \<Rightarrow> string \<Rightarrow> string option" where
  "strip_prefix [] s = Some s"
| "strip_prefix (c # cs) [] = None"
| "strip_prefix (c # cs) (d # ds) = (if c = d then strip_prefix cs ds else None)"

lemma strip_prefix_append [simp]: "strip_prefix p (p @ s) = Some s"
  by (induction p) auto

lemma strip_prefix_Some: "strip_prefix p s = Some r \<longleftrightarrow> s = p @ r"
  by (induction p s rule: strip_prefix.induct) auto

text \<open>\<open>splitn(2, c)\<close>: the part before the first \<open>c\<close> and the part after it, if there is one.\<close>

fun splitn2 :: "char \<Rightarrow> string \<Rightarrow> string list" where
  "splitn2 c [] = [[]]"
| "splitn2 c (d # ds) = (if d = c then [[], ds] else (case splitn2 c ds of p # ps \<Rightarrow> (d # p) # ps | [] \<Rightarrow> []))"

lemma splitn2_append [simp]: "c \<notin> set s \<Longrightarrow> splitn2 c (s @ c # r) = [s, r]"
  by (induction s) auto

definition digit_char :: "nat \<Rightarrow> char" where
  "digit_char d = char_of (48 + d)"

function show_radix :: "nat \<Rightarrow> nat \<Rightarrow> string" where
  "show_radix b n = (if b < 2 \<or> n < b then [digit_char n] else show_radix b (n div b) @ [digit_char (n mod b)])"
  by pat_completeness auto
termination by (relation "measure snd") auto

declare show_radix.simps [simp del]

datatype parse_int_error = IntEmpty | IntInvalidDigit | IntPosOverflow

definition char_to_digit :: "nat \<Rightarrow> char \<Rightarrow> nat option" where
  "char_to_digit b c = (let k = of_char c in if 48 \<le> k \<and> k < 48 + b then Some (k - 48) else None)"

fun parse_digits :: "nat \<Rightarrow> nat \<Rightarrow> nat \<Rightarrow> string \<Rightarrow> (parse_int_error, nat) result" where
  "parse_digits mx b acc [] = Ok acc"
| "parse_digits mx b acc (c # cs) =
     (case char_to_digit b c of
        None \<Rightarrow> Err IntInvalidDigit
      | Some d \<Rightarrow> if acc * b + d > mx then Err IntPosOverflow else parse_digits mx b (acc * b + d) cs)"

text \<open>\<open>from_str_radix\<close> of an unsigned type with largest value \<open>mx\<close>, for a radix of at most ten.\<close>

definition from_str_radix :: "nat \<Rightarrow> nat \<Rightarrow> string \<Rightarrow> (parse_int_error, nat) result" where
  "from_str_radix mx b s =
     (case s of
        [] \<Rightarrow> Err IntEmpty
      | c # cs \<Rightarrow>
          if c = CHR ''+'' \<and> cs = [] then Err IntInvalidDigit
          else parse_digits mx b 0 (if c = CHR ''+'' then cs else s))"

lemma char_to_digit_char: "d < b \<Longrightarrow> b \<le> 10 \<Longrightarrow> char_to_digit b (digit_char d) = Some d"
  by (simp add: char_to_digit_def digit_char_def of_char_of)

lemma parse_digits_append:
  "parse_digits mx b acc (xs @ ys) = res_bind (parse_digits mx b acc xs) (\<lambda>acc. parse_digits mx b acc ys)"
  by (induction xs arbitrary: acc) (auto split: option.splits)

lemma parse_show_radix: "2 \<le> b \<Longrightarrow> b \<le> 10 \<Longrightarrow> n \<le> mx \<Longrightarrow> parse_digits mx b 0 (show_radix b n) = Ok n"
proof (induction b n rule: show_radix.induct)
  case (1 b n)
  show ?case
  proof (cases "n < b")
    case True
    with 1 show ?thesis by (subst show_radix.simps) (simp add: char_to_digit_char)
  next
    case False
    have "n div b \<le> mx" using 1(4) div_le_dividend le_trans by blast
    with 1(1) False 1(2,3) have "parse_digits mx b 0 (show_radix b (n div b)) = Ok (n div b)" by simp
    moreover have "n mod b < b" using 1(2) by simp
    ultimately show ?thesis using False 1(2-4)
      by (subst show_radix.simps) (simp add: parse_digits_append char_to_digit_char)
  qed
qed

lemma show_radix_digits: "2 \<le> b \<Longrightarrow> b \<le> 10 \<Longrightarrow> c \<in> set (show_radix b n) \<Longrightarrow> \<exists>d<10. c = digit_char d"
proof (induction b n rule: show_radix.induct)
  case (1 b n)
  show ?case
  proof (cases "n < b")
    case True
    with 1(2-4) show ?thesis by (intro exI [of _ n]) (simp add: show_radix.simps [of b n])
  next
    case False
    have "n mod b < 10" using mod_less_divisor [of b n] 1(2,3) by linarith
    with False 1 show ?thesis by (auto simp: show_radix.simps [of b n])
  qed
qed

lemma show_radix_nonempty: "show_radix b n \<noteq> []"
  by (subst show_radix.simps) simp

lemma digit_not_sign: "d < 10 \<Longrightarrow> digit_char d \<noteq> CHR ''+'' \<and> digit_char d \<noteq> CHR ''-''"
  by (auto simp: digit_char_def dest!: arg_cong [of _ _ "of_char :: char \<Rightarrow> nat"])

lemma show_radix_no_sign:
  "2 \<le> b \<Longrightarrow> b \<le> 10 \<Longrightarrow> c \<in> set (show_radix b n) \<Longrightarrow> c \<noteq> CHR ''+'' \<and> c \<noteq> CHR ''-''"
  using show_radix_digits digit_not_sign by metis

lemma from_show_radix: "2 \<le> b \<Longrightarrow> b \<le> 10 \<Longrightarrow> n \<le> mx \<Longrightarrow> from_str_radix mx b (show_radix b n) = Ok n"
proof -
  assume b: "2 \<le> b" "b \<le> 10" "n \<le> mx"
  obtain c cs where c: "show_radix b n = c # cs" using show_radix_nonempty by (meson neq_Nil_conv)
  with show_radix_no_sign [OF b(1,2), of c n] have "c \<noteq> CHR ''+''" by simp
  with parse_show_radix [OF b] c show ?thesis by (simp add: from_str_radix_def)
qed

text \<open>The format \<open>{:03o}\<close>: octal, padded with zeros to three digits.\<close>

definition show_03o :: "nat \<Rightarrow> string" where
  "show_03o n = (let s = show_radix 8 n in replicate (3 - length s) (CHR ''0'') @ s)"

lemma parse_zeros: "0 < b \<Longrightarrow> parse_digits mx b 0 (replicate k (CHR ''0'') @ s) = parse_digits mx b 0 s"
  by (induction k) (auto simp: char_to_digit_def)

lemma from_show_03o: "n \<le> mx \<Longrightarrow> from_str_radix mx 8 (show_03o n) = Ok n"
proof -
  assume n: "n \<le> mx"
  obtain c cs where c: "show_03o n = c # cs"
    using show_radix_nonempty [of 8 n] by (cases "show_03o n") (auto simp: show_03o_def Let_def)
  then have "c = CHR ''0'' \<or> c \<in> set (show_radix 8 n)"
    by (auto simp: show_03o_def Let_def append_eq_Cons_conv dest!: arg_cong [of _ _ set])
  with show_radix_no_sign [of 8 c n] have "c \<noteq> CHR ''+''" by auto
  then have "from_str_radix mx 8 (show_03o n) = parse_digits mx 8 0 (show_03o n)"
    unfolding from_str_radix_def c by (simp del: parse_digits.simps)
  also have "\<dots> = Ok n" using parse_show_radix [of 8 n mx] n by (simp add: show_03o_def Let_def parse_zeros)
  finally show ?thesis .
qed

section \<open>Hexadecimal with a checksum\<close>

datatype decode_error = InvalidByte nat char | InvalidLength nat

definition SMALL_BYTES_COUNT :: nat where "SMALL_BYTES_COUNT = 75"

definition HEX_CHARS :: string where "HEX_CHARS = ''0123456789abcdefABCDEF''"

definition bytes_to_nibbles :: "bytes \<Rightarrow> u8 list" where
  "bytes_to_nibbles input = concat (map (\<lambda>byte. map (\<lambda>offset. drop_bit offset byte AND 0x0f) [4, 0]) input)"

text \<open>The first bits of the endless cycle of the bits of \<open>bytes\<close>.\<close>

definition bytes_to_bits_cycle :: "bytes \<Rightarrow> nat \<Rightarrow> bool" where
  "bytes_to_bits_cycle bs k =
     (let byte = bs ! (k div 8 mod length bs) in drop_bit (k mod 8) byte AND 0x01 = 0x01)"

text \<open>Only a nibble above nine consumes a bit of the hash.\<close>

fun encode_nibbles :: "(nat \<Rightarrow> bool) \<Rightarrow> nat \<Rightarrow> u8 list \<Rightarrow> string" where
  "encode_nibbles hash_bits k [] = []"
| "encode_nibbles hash_bits k (nibble # nibbles) =
     (if nibble \<ge> 10
      then HEX_CHARS ! unat (if hash_bits k then nibble + 6 else nibble) # encode_nibbles hash_bits (k + 1) nibbles
      else HEX_CHARS ! unat nibble # encode_nibbles hash_bits k nibbles)"

definition encode_iter :: "blake2b \<Rightarrow> bytes \<Rightarrow> string" where
  "encode_iter blake2b input =
     encode_nibbles (bytes_to_bits_cycle (digest_bytes (blake2b input))) 0 (bytes_to_nibbles input)"

definition is_lower_hex :: "char \<Rightarrow> bool" where
  "is_lower_hex c \<longleftrightarrow> of_char c \<in> {97..102::nat}"

definition is_upper_hex :: "char \<Rightarrow> bool" where
  "is_upper_hex c \<longleftrightarrow> of_char c \<in> {65..70::nat}"

definition string_is_same_case :: "string \<Rightarrow> bool" where
  "string_is_same_case s =
     (case filter (\<lambda>c. is_lower_hex c \<or> is_upper_hex c) s of
        first # chars \<Rightarrow> (let is_upper = is_upper_hex first in \<forall>c\<in>set chars. is_upper_hex c = is_upper)
      | [] \<Rightarrow> True)"

fun check_chars :: "nat \<Rightarrow> (char \<times> char) list \<Rightarrow> (decode_error, unit) result" where
  "check_chars index [] = Ok ()"
| "check_chars index ((expected_case_hex_char, input_hex_char) # rest) =
     (if expected_case_hex_char = input_hex_char then check_chars (index + 1) rest
      else Err (InvalidByte index expected_case_hex_char))"

definition checksummed_decode ::
  "blake2b \<Rightarrow> (string \<Rightarrow> (decode_error, bytes) result) \<Rightarrow> string \<Rightarrow> (decode_error, bytes) result" where
  "checksummed_decode blake2b base16_decode input =
     res_bind (base16_decode input) (\<lambda>bytes.
     if length bytes > SMALL_BYTES_COUNT \<or> string_is_same_case input then Ok bytes
     else res_bind (check_chars 0 (zip (encode_iter blake2b bytes) input)) (\<lambda>_. Ok bytes))"

text \<open>The documented behaviour of \<open>base16\<close>: it decodes what it encodes, the encoding consists of decimal digits and
  lower-case letters, two characters a byte, and decoding ignores the case of letters.\<close>

definition hex_lower :: "char \<Rightarrow> char" where
  "hex_lower c = (if is_upper_hex c then char_of (of_char c + 32 :: nat) else c)"

definition base16_spec :: "(bytes \<Rightarrow> string) \<Rightarrow> (string \<Rightarrow> (decode_error, bytes) result) \<Rightarrow> bool" where
  "base16_spec encode_lower decode \<longleftrightarrow>
     (\<forall>bs. decode (encode_lower bs) = Ok bs) \<and>
     (\<forall>bs. \<forall>c\<in>set (encode_lower bs). is_lower_hex c \<or> (\<exists>d<10. c = digit_char d)) \<and>
     (\<forall>s bs. decode s = Ok bs \<longrightarrow> map hex_lower s = encode_lower bs) \<and>
     (\<forall>bs. length (encode_lower bs) = 2 * length bs)"

lemma encode_lower_same_case: "base16_spec enc dec \<Longrightarrow> string_is_same_case (enc bs)"
proof -
  assume b: "base16_spec enc dec"
  have "\<not> is_upper_hex c" if "c \<in> set (enc bs)" for c
  proof -
    have "is_lower_hex c \<or> (\<exists>d<10. c = digit_char d)" using b that by (auto simp: base16_spec_def)
    then show ?thesis by (auto simp: is_lower_hex_def is_upper_hex_def digit_char_def of_char_of)
  qed
  then show ?thesis
    by (auto simp: string_is_same_case_def Let_def filter_eq_Cons_iff split: list.splits)
qed

lemma decode_encode_lower: "base16_spec enc dec \<Longrightarrow> checksummed_decode blake2b dec (enc bs) = Ok bs"
  using encode_lower_same_case [of enc dec bs] by (simp add: checksummed_decode_def base16_spec_def)

lemma encode_lower_no_dash: "base16_spec enc dec \<Longrightarrow> CHR ''-'' \<notin> set (enc bs)"
proof
  assume "base16_spec enc dec" "CHR ''-'' \<in> set (enc bs)"
  then have "is_lower_hex (CHR ''-'') \<or> (\<exists>d<10. CHR ''-'' = digit_char d)" by (auto simp: base16_spec_def)
  moreover have "\<not> is_lower_hex (CHR ''-'')" by (simp add: is_lower_hex_def)
  ultimately show False using digit_not_sign by metis
qed

lemma check_chars_Ok: "check_chars k (zip xs ys) = Ok u \<Longrightarrow> length xs = length ys \<Longrightarrow> xs = ys"
proof (induction xs arbitrary: k ys)
  case (Cons x xs)
  then show ?case by (cases ys) (auto split: if_splits)
qed simp

lemma length_encode_nibbles [simp]: "length (encode_nibbles f k ns) = length ns"
  by (induction ns arbitrary: k) auto

lemma length_bytes_to_nibbles [simp]: "length (bytes_to_nibbles bs) = 2 * length bs"
  by (induction bs) (simp_all add: bytes_to_nibbles_def)

text \<open>A string has mixed case if a hexadecimal letter of either case occurs in it.\<close>

definition mixed_case :: "string \<Rightarrow> bool" where
  "mixed_case s \<longleftrightarrow> (\<exists>c\<in>set s. c \<in> set ''abcdef'') \<and> (\<exists>c\<in>set s. c \<in> set ''ABCDEF'')"

lemma hex_letters: "is_lower_hex c \<longleftrightarrow> c \<in> set ''abcdef''" "is_upper_hex c \<longleftrightarrow> c \<in> set ''ABCDEF''"
proof -
  have c: "c = d \<longleftrightarrow> of_char c = (of_char d :: nat)" for d by simp
  have "is_lower_hex c \<longleftrightarrow> of_char c \<in> {97, 98, 99, 100, 101, 102 :: nat}"
    by (auto simp: is_lower_hex_def)
  then show "is_lower_hex c \<longleftrightarrow> c \<in> set ''abcdef''" by (simp add: c del: of_char_eq_iff)
  have "is_upper_hex c \<longleftrightarrow> of_char c \<in> {65, 66, 67, 68, 69, 70 :: nat}"
    by (auto simp: is_upper_hex_def)
  then show "is_upper_hex c \<longleftrightarrow> c \<in> set ''ABCDEF''" by (simp add: c del: of_char_eq_iff)
qed

lemma string_is_same_case_iff: "string_is_same_case s \<longleftrightarrow> \<not> mixed_case s"
proof -
  have l: "mixed_case s \<longleftrightarrow> (\<exists>c\<in>set s. is_lower_hex c) \<and> (\<exists>c\<in>set s. is_upper_hex c)"
    by (simp only: mixed_case_def hex_letters)
  have d: "is_lower_hex c \<Longrightarrow> \<not> is_upper_hex c" for c by (simp add: is_lower_hex_def is_upper_hex_def)
  let ?l = "filter (\<lambda>c. is_lower_hex c \<or> is_upper_hex c) s"
  have m: "mixed_case s \<longleftrightarrow> (\<exists>c\<in>set ?l. is_lower_hex c) \<and> (\<exists>c\<in>set ?l. is_upper_hex c)" unfolding l by auto
  have h: "\<forall>c\<in>set ?l. is_lower_hex c \<longleftrightarrow> \<not> is_upper_hex c" using d by auto
  show ?thesis
  proof (cases ?l)
    case (Cons c cs)
    with h have "is_lower_hex c \<longleftrightarrow> \<not> is_upper_hex c" "\<forall>c\<in>set cs. is_lower_hex c \<longleftrightarrow> \<not> is_upper_hex c" by simp_all
    then show ?thesis unfolding m string_is_same_case_def Cons by (auto simp: Let_def)
  qed (simp add: m string_is_same_case_def)
qed

lemma check_chars_same: "check_chars k (zip xs xs) = Ok ()"
  by (induction xs arbitrary: k) simp_all

text \<open>What the decoder accepts.\<close>

lemma checksum_checked:
  assumes "base16_spec enc dec"
  shows "checksummed_decode blake2b dec s = Ok bs \<longleftrightarrow>
    dec s = Ok bs \<and> (SMALL_BYTES_COUNT < length bs \<or> \<not> mixed_case s \<or> s = encode_iter blake2b bs)"
proof (cases "dec s = Ok bs")
  case True
  have "length s = 2 * length bs" using assms True unfolding base16_spec_def by (metis length_map)
  then have "check_chars 0 (zip (encode_iter blake2b bs) s) = Ok () \<longleftrightarrow> s = encode_iter blake2b bs"
    using check_chars_Ok [of 0 "encode_iter blake2b bs" s] by (auto simp: encode_iter_def check_chars_same)
  with True show ?thesis by (auto simp: checksummed_decode_def string_is_same_case_iff res_simps)
next
  case False
  then show ?thesis by (auto simp: checksummed_decode_def res_simps split: if_splits)
qed

text \<open>A pair of functions with this behaviour.\<close>

definition hex_char :: "nat \<Rightarrow> char" where
  "hex_char d = (if d < 10 then digit_char d else char_of (87 + d))"

definition hex_value :: "char \<Rightarrow> nat option" where
  "hex_value c =
     (let k = of_char c in
      if 48 \<le> k \<and> k < 58 then Some (k - 48) else if 97 \<le> k \<and> k < 103 then Some (k - 87)
      else if 65 \<le> k \<and> k < 71 then Some (k - 55) else None)"

definition hex_encode_ref :: "bytes \<Rightarrow> string" where
  "hex_encode_ref bs = concat (map (\<lambda>b. [hex_char (unat b div 16), hex_char (unat b mod 16)]) bs)"

fun hex_decode_ref :: "string \<Rightarrow> (decode_error, bytes) result" where
  "hex_decode_ref [] = Ok []"
| "hex_decode_ref [c] = Err (InvalidLength 1)"
| "hex_decode_ref (c # d # s) =
     (case (hex_value c, hex_value d) of
        (Some x, Some y) \<Rightarrow> res_bind (hex_decode_ref s) (\<lambda>bs. Ok (word_of_nat (16 * x + y) # bs))
      | _ \<Rightarrow> Err (InvalidByte 0 c))"

lemma hex_value_char: "d < 16 \<Longrightarrow> hex_value (hex_char d) = Some d"
  by (auto simp: hex_value_def hex_char_def digit_char_def of_char_of Let_def)

lemma hex_value_lower: "hex_value c = Some d \<Longrightarrow> hex_lower c = hex_char d \<and> d < 16"
proof -
  assume "hex_value c = Some d"
  then have "(48 \<le> (of_char c :: nat) \<and> of_char c < (58::nat) \<and> d = of_char c - 48) \<or>
      (97 \<le> (of_char c :: nat) \<and> of_char c < (103::nat) \<and> d = of_char c - 87) \<or>
      (65 \<le> (of_char c :: nat) \<and> of_char c < (71::nat) \<and> d = of_char c - 55)"
    by (auto simp: hex_value_def Let_def split: if_splits)
  moreover have "c = char_of (of_char c :: nat)" by simp
  ultimately show ?thesis
    by (auto simp: hex_lower_def hex_char_def digit_char_def is_upper_hex_def)
qed

lemma nibble_bounds: "unat b div 16 < 16" "unat b mod 16 < 16" for b :: u8
proof -
  have "unat b < 16 * 16" using unat_lt2p [of b] by simp
  then show "unat b div 16 < 16" by (rule less_mult_imp_div_less)
qed simp

lemma hex_decode_encode: "hex_decode_ref (hex_encode_ref bs) = Ok bs"
proof (induction bs)
  case (Cons b bs)
  have "hex_value (hex_char (unat b div 16)) = Some (unat b div 16)" "hex_value (hex_char (unat b mod 16)) = Some (unat b mod 16)"
    by (intro hex_value_char nibble_bounds)+
  with Cons show ?case by (simp add: hex_encode_ref_def)
qed (simp add: hex_encode_ref_def)

lemma hex_decode_lower: "hex_decode_ref s = Ok bs \<Longrightarrow> map hex_lower s = hex_encode_ref bs"
proof (induction s arbitrary: bs rule: hex_decode_ref.induct)
  case (3 c d s)
  then obtain x y bs' where e: "hex_value c = Some x" "hex_value d = Some y" "hex_decode_ref s = Ok bs'"
      "bs = word_of_nat (16 * x + y) # bs'"
    by (auto simp: res_simps split: option.splits)
  have "16 * x + y < 2 ^ LENGTH(8)" using hex_value_lower [OF e(1)] hex_value_lower [OF e(2)] by simp
  then have "unat (word_of_nat (16 * x + y) :: u8) = 16 * x + y" by (rule unat_of_nat_eq)
  with 3(1) [OF _ e(1,2) e(3)] e hex_value_lower [OF e(1)] hex_value_lower [OF e(2)] show ?case
    by (simp add: hex_encode_ref_def)
qed (simp_all add: hex_encode_ref_def)

lemma base16_ref: "base16_spec hex_encode_ref hex_decode_ref"
proof -
  have h: "is_lower_hex (hex_char d) \<or> (\<exists>e<10. hex_char d = digit_char e)" if "d < 16" for d
    using that by (auto simp: hex_char_def is_lower_hex_def of_char_of)
  have "is_lower_hex c \<or> (\<exists>d<10. c = digit_char d)" if "c \<in> set (hex_encode_ref bs)" for c bs
    using that h [OF nibble_bounds(1)] h [OF nibble_bounds(2)] by (auto simp: hex_encode_ref_def)
  moreover have "length (hex_encode_ref bs) = 2 * length bs" for bs
    by (induction bs) (simp_all add: hex_encode_ref_def)
  ultimately show ?thesis
    using hex_decode_encode hex_decode_lower by (auto simp: base16_spec_def)
qed

end
