(* ===== verification/URefs.thy ===== *)
theory URefs
  imports Text Trie
begin

text \<open>
  Unforgeable references and their access rights: \<^verbatim>\<open>types/src/access_rights.rs\<close> and \<^verbatim>\<open>types/src/uref.rs\<close>.
  \<open>AccessRights\<close> is declared with the macro \<open>bitflags!\<close>, a set of flags in the bits of a \<open>u8\<close>; its set
  operations are the bitwise ones on that byte. An array \<open>[u8; 32]\<close> is a list of length 32.
\<close>

section \<open>Access rights\<close>

type_synonym access_rights = u8

definition AR_NONE :: access_rights where "AR_NONE = 0"
definition AR_READ :: access_rights where "AR_READ = 1"
definition AR_WRITE :: access_rights where "AR_WRITE = 2"
definition AR_ADD :: access_rights where "AR_ADD = 4"
definition AR_READ_ADD :: access_rights where "AR_READ_ADD = AR_READ OR AR_ADD"
definition AR_READ_WRITE :: access_rights where "AR_READ_WRITE = AR_READ OR AR_WRITE"
definition AR_ADD_WRITE :: access_rights where "AR_ADD_WRITE = AR_ADD OR AR_WRITE"
definition AR_READ_ADD_WRITE :: access_rights where "AR_READ_ADD_WRITE = AR_READ OR AR_ADD OR AR_WRITE"

lemmas ar_defs = AR_NONE_def AR_READ_def AR_WRITE_def AR_ADD_def AR_READ_ADD_def AR_READ_WRITE_def
  AR_ADD_WRITE_def AR_READ_ADD_WRITE_def

definition ar_from_bits :: "u8 \<Rightarrow> access_rights option" where
  "ar_from_bits bits = (if bits AND NOT AR_READ_ADD_WRITE = 0 then Some bits else None)"

definition ar_contains :: "access_rights \<Rightarrow> access_rights \<Rightarrow> bool" where
  "ar_contains self other \<longleftrightarrow> self AND other = other"

definition ar_union :: "access_rights \<Rightarrow> access_rights \<Rightarrow> access_rights" where
  "ar_union self other = self OR other"

definition ar_difference :: "access_rights \<Rightarrow> access_rights \<Rightarrow> access_rights" where
  "ar_difference self other = self AND NOT other"

definition ar_is_readable :: "access_rights \<Rightarrow> bool" where
  "ar_is_readable self \<longleftrightarrow> self AND AR_READ = AR_READ"

definition ar_is_writeable :: "access_rights \<Rightarrow> bool" where
  "ar_is_writeable self \<longleftrightarrow> self AND AR_WRITE = AR_WRITE"

definition ar_is_addable :: "access_rights \<Rightarrow> bool" where
  "ar_is_addable self \<longleftrightarrow> self AND AR_ADD = AR_ADD"

definition ar_is_none :: "access_rights \<Rightarrow> bool" where
  "ar_is_none self \<longleftrightarrow> self = AR_NONE"

abbreviation ar_valid :: "access_rights \<Rightarrow> bool" where
  "ar_valid a \<equiv> ar_from_bits a = Some a"

definition ar_serialized_length :: "access_rights \<Rightarrow> nat" where
  "ar_serialized_length a = 1"

definition ar_to_bytes :: "access_rights to_bytes" where
  "ar_to_bytes a = u8_to_bytes a"

definition ar_write_bytes :: "access_rights write_bytes" where
  "ar_write_bytes a writer = Ok (writer @ [a])"

definition ar_from_bytes :: "access_rights from_bytes" where
  "ar_from_bytes bs =
     res_bind (u8_from_bytes bs) (\<lambda>(id, rem).
     case ar_from_bits id of Some rights \<Rightarrow> Ok (rights, rem) | None \<Rightarrow> Err Formatting)"

interpretation ar_writer: bytes_writer ar_valid ar_serialized_length ar_to_bytes ar_write_bytes ar_from_bytes
  by unfold_locales
    (auto simp: ar_to_bytes_def ar_write_bytes_def ar_from_bytes_def ar_serialized_length_def u8_to_bytes_def)

lemma u8_bit_less: "bit (a :: u8) n \<Longrightarrow> n < 8"
  using bit_imp_le_length [of a n] by simp

lemma ar_contains_iff: "ar_contains a b \<longleftrightarrow> (\<forall>n. bit b n \<longrightarrow> bit a n)"
  by (auto simp: ar_contains_def bit_eq_iff bit_and_iff dest: u8_bit_less)

lemma ar_bits [simp]:
  "bit (ar_union a b) n \<longleftrightarrow> bit a n \<or> bit b n"
  "bit (ar_difference a b) n \<longleftrightarrow> bit a n \<and> \<not> bit b n"
  by (auto simp: ar_union_def ar_difference_def bit_or_iff bit_and_iff bit_not_iff dest: bit_imp_le_length)

lemma ar_valid_bits: "ar_valid a \<longleftrightarrow> (\<forall>n. bit a n \<longrightarrow> n < 3)"
proof -
  have "AR_READ_ADD_WRITE = (mask 3 :: u8)" by (simp add: ar_defs mask_eq_exp_minus_1)
  then have "ar_valid a \<longleftrightarrow> a AND NOT (mask 3) = 0" by (simp add: ar_from_bits_def)
  also have "\<dots> \<longleftrightarrow> (\<forall>n. bit a n \<longrightarrow> n < 3)"
    by (auto simp: bit_eq_iff bit_and_iff bit_not_iff bit_mask_iff dest: u8_bit_less)
  finally show ?thesis .
qed

lemma ar_valid_union: "ar_valid a \<Longrightarrow> ar_valid b \<Longrightarrow> ar_valid (ar_union a b)"
  by (auto simp: ar_valid_bits)

section \<open>URefs\<close>

definition UREF_ADDR_LENGTH :: nat where "UREF_ADDR_LENGTH = 32"
definition UREF_SERIALIZED_LENGTH :: nat where "UREF_SERIALIZED_LENGTH = UREF_ADDR_LENGTH + 1"
definition UREF_FORMATTED_STRING_PREFIX :: string where "UREF_FORMATTED_STRING_PREFIX = ''uref-''"

record uref =
  uref_addr :: bytes
  uref_access_rights :: access_rights

definition uref_new :: "bytes \<Rightarrow> access_rights \<Rightarrow> uref" where
  "uref_new address access_rights = \<lparr>uref_addr = address, uref_access_rights = access_rights\<rparr>"

definition with_access_rights :: "uref \<Rightarrow> access_rights \<Rightarrow> uref" where
  "with_access_rights u a = u\<lparr>uref_access_rights := a\<rparr>"

definition remove_access_rights :: "uref \<Rightarrow> uref" where
  "remove_access_rights u = u\<lparr>uref_access_rights := AR_NONE\<rparr>"

definition uref_is_readable :: "uref \<Rightarrow> bool" where
  "uref_is_readable u = ar_is_readable (uref_access_rights u)"

definition uref_is_writeable :: "uref \<Rightarrow> bool" where
  "uref_is_writeable u = ar_is_writeable (uref_access_rights u)"

definition uref_is_addable :: "uref \<Rightarrow> bool" where
  "uref_is_addable u = ar_is_addable (uref_access_rights u)"

definition uref_into_read :: "uref \<Rightarrow> uref" where "uref_into_read u = u\<lparr>uref_access_rights := AR_READ\<rparr>"
definition uref_into_write :: "uref \<Rightarrow> uref" where "uref_into_write u = u\<lparr>uref_access_rights := AR_WRITE\<rparr>"
definition uref_into_add :: "uref \<Rightarrow> uref" where "uref_into_add u = u\<lparr>uref_access_rights := AR_ADD\<rparr>"
definition uref_into_read_add_write :: "uref \<Rightarrow> uref" where
  "uref_into_read_add_write u = u\<lparr>uref_access_rights := AR_READ_ADD_WRITE\<rparr>"
definition uref_into_read_write :: "uref \<Rightarrow> uref" where
  "uref_into_read_write u = u\<lparr>uref_access_rights := AR_READ_WRITE\<rparr>"

definition disable_access_rights :: "uref \<Rightarrow> access_rights \<Rightarrow> uref" where
  "disable_access_rights u a = u\<lparr>uref_access_rights := ar_difference (uref_access_rights u) a\<rparr>"

datatype uref_from_str_error =
    UInvalidPrefix | UMissingSuffix | UInvalidAccessRights | UHex decode_error | UInt parse_int_error | UAddress

definition uref_to_formatted_string :: "(bytes \<Rightarrow> string) \<Rightarrow> uref \<Rightarrow> string" where
  "uref_to_formatted_string encode_lower u =
     UREF_FORMATTED_STRING_PREFIX @ encode_lower (uref_addr u) @ ''-'' @ show_03o (unat (uref_access_rights u))"

text \<open>Conversion of an error by \<open>?\<close> and \<open>map_err\<close>.\<close>

fun map_err :: "('e \<Rightarrow> 'f) \<Rightarrow> ('e, 'a) result \<Rightarrow> ('f, 'a) result" where
  "map_err f (Ok x) = Ok x"
| "map_err f (Err e) = Err (f e)"
| "map_err f Panic = Panic"

text \<open>\<open><[u8; n]>::try_from\<close> of a slice.\<close>

definition array_try_from :: "nat \<Rightarrow> 'e \<Rightarrow> bytes \<Rightarrow> ('e, bytes) result" where
  "array_try_from n e bs = (if length bs = n then Ok bs else Err e)"

definition uref_from_formatted_str ::
  "blake2b \<Rightarrow> (string \<Rightarrow> (decode_error, bytes) result) \<Rightarrow> string \<Rightarrow> (uref_from_str_error, uref) result" where
  "uref_from_formatted_str blake2b base16_decode input =
     res_bind (ok_or (strip_prefix UREF_FORMATTED_STRING_PREFIX input) UInvalidPrefix) (\<lambda>remainder.
     let parts = splitn2 (CHR ''-'') remainder in
     if length parts \<noteq> 2 then Err UMissingSuffix
     else res_bind (map_err UHex (checksummed_decode blake2b base16_decode (parts ! 0))) (\<lambda>decoded.
       res_bind (array_try_from UREF_ADDR_LENGTH UAddress decoded) (\<lambda>addr.
       res_bind (map_err UInt (from_str_radix 255 8 (parts ! 1))) (\<lambda>access_rights_value.
       res_bind (ok_or (ar_from_bits (word_of_nat access_rights_value)) UInvalidAccessRights) (\<lambda>access_rights.
       Ok \<lparr>uref_addr = addr, uref_access_rights = access_rights\<rparr>)))))"

definition uref_valid :: "uref \<Rightarrow> bool" where
  "uref_valid u \<longleftrightarrow> length (uref_addr u) = UREF_ADDR_LENGTH \<and> ar_valid (uref_access_rights u)"

definition uref_serialized_length :: "uref \<Rightarrow> nat" where
  "uref_serialized_length u = UREF_SERIALIZED_LENGTH"

definition uref_to_bytes :: "uref to_bytes" where
  "uref_to_bytes u =
     res_bind (array_to_bytes (uref_addr u)) (\<lambda>a.
     res_bind (ar_to_bytes (uref_access_rights u)) (\<lambda>b. Ok ([] @ a @ b)))"

definition uref_write_bytes :: "uref write_bytes" where
  "uref_write_bytes u writer = ar_write_bytes (uref_access_rights u) (writer @ uref_addr u)"

definition uref_from_bytes :: "uref from_bytes" where
  "uref_from_bytes bs =
     res_bind (array_from_bytes UREF_ADDR_LENGTH bs) (\<lambda>(id, rem).
     res_bind (ar_from_bytes rem) (\<lambda>(access_rights, rem).
     Ok (\<lparr>uref_addr = id, uref_access_rights = access_rights\<rparr>, rem)))"

interpretation uref_writer: bytes_writer uref_valid uref_serialized_length uref_to_bytes uref_write_bytes uref_from_bytes
  by unfold_locales
    (auto simp: uref_to_bytes_def uref_write_bytes_def uref_from_bytes_def uref_serialized_length_def uref_valid_def
      UREF_SERIALIZED_LENGTH_def UREF_ADDR_LENGTH_def array_to_bytes_def array_from_bytes_def ar_to_bytes_def
      ar_write_bytes_def ar_from_bytes_def u8_to_bytes_def)

lemma uref_format_roundtrip:
  assumes b: "base16_spec enc dec" and u: "uref_valid u"
  shows "uref_from_formatted_str blake2b dec (uref_to_formatted_string enc u) = Ok u"
proof -
  have "unat (uref_access_rights u) < 256" using unat_lt2p [of "uref_access_rights u"] by simp
  then have "unat (uref_access_rights u) \<le> 255" by linarith
  then have r: "from_str_radix 255 8 (show_03o (unat (uref_access_rights u))) = Ok (unat (uref_access_rights u))"
    by (rule from_show_03o)
  have "splitn2 (CHR ''-'') (enc (uref_addr u) @ ''-'' @ show_03o (unat (uref_access_rights u))) =
      [enc (uref_addr u), show_03o (unat (uref_access_rights u))]"
    using encode_lower_no_dash [OF b] by simp
  with r u decode_encode_lower [OF b] show ?thesis
    by (simp add: uref_from_formatted_str_def uref_to_formatted_string_def Let_def array_try_from_def uref_valid_def)
qed

end
