(* ===== verification/Struct_Codec.thy ===== *)
theory Struct_Codec
  imports Trie "HOL-Library.List_Lexorder"
begin

text \<open>
  The encodings that are written field by field. A \<open>struct\<close> of the code writes its fields one after the other into
  one buffer and reads them back in the same order; the contract that such an implementation needs of its fields is the
  locale \<open>stream_codec\<close>: what a successful \<open>write_bytes\<close> appends does not depend on what the buffer held, has the
  announced length, and is read back by \<open>from_bytes\<close>. The contract is closed under pairs, vectors, ordered maps and
  sets and options, and a type that is isomorphic to a tuple of fields inherits it.

  The theory also has the operations of \<open>BTreeMap\<close> that the code uses, on the ordered association lists that model
  such maps.
\<close>

section \<open>Writing into a buffer\<close>

locale stream_codec =
  fixes valid :: "'a \<Rightarrow> bool" and sl :: "'a \<Rightarrow> nat" and wb :: "'a write_bytes" and fb :: "'a from_bytes"
  assumes stream: "valid x \<Longrightarrow> wb x w = Ok out \<Longrightarrow>
    \<exists>bs. out = w @ bs \<and> length bs = sl x \<and> (\<forall>rest. fb (bs @ rest) = Ok (x, rest)) \<and> (\<forall>w'. wb x w' = Ok (w' @ bs))"
begin

lemma appends:
  assumes "valid x" "wb x w = Ok out"
  obtains bs where "out = w @ bs" "length bs = sl x" "\<And>rest. fb (bs @ rest) = Ok (x, rest)" "\<And>w'. wb x w' = Ok (w' @ bs)"
  using stream [OF assms] by blast

lemma items:
  assumes "\<forall>x\<in>set xs. valid x" "write_items wb xs w = Ok out"
  shows "\<exists>bs. out = w @ bs \<and> length bs = sum_list (map sl xs) \<and>
    (\<forall>(ins :: 'a \<Rightarrow> 'c \<Rightarrow> 'c) acc rest. read_items fb ins (length xs) acc (bs @ rest) = Ok (fold ins xs acc, rest)) \<and>
    (\<forall>w'. write_items wb xs w' = Ok (w' @ bs))"
  using assms
proof (induction xs arbitrary: w)
  case (Cons x xs)
  then obtain m where m: "wb x w = Ok m" "write_items wb xs m = Ok out"
    by (auto simp: write_items_def res_simps)
  obtain bs where bs: "m = w @ bs" "length bs = sl x" "\<And>rest. fb (bs @ rest) = Ok (x, rest)" "\<And>w'. wb x w' = Ok (w' @ bs)"
    using appends [OF _ m(1)] Cons.prems(1) by (metis list.set_intros(1))
  obtain cs where cs: "out = m @ cs" "length cs = sum_list (map sl xs)" "\<And>w'. write_items wb xs w' = Ok (w' @ cs)"
      "\<And>(ins :: 'a \<Rightarrow> 'c \<Rightarrow> 'c) acc rest. read_items fb ins (length xs) acc (cs @ rest) = Ok (fold ins xs acc, rest)"
    using Cons.IH [OF _ m(2)] Cons.prems(1) by auto
  have "write_items wb (x # xs) w' = Ok (w' @ bs @ cs)" for w'
    using bs(4) [of w'] cs(3) [of "w' @ bs"] by (simp add: write_items_def)
  with bs cs show ?case by (intro exI [of _ "bs @ cs"]) simp
qed (simp add: write_items_def)

end

sublocale bytes_writer \<subseteq> stream: stream_codec valid sl wb fb
  by unfold_locales (rule wb_sound)

text \<open>The two shapes of \<open>to_bytes\<close> of a \<open>struct\<close>: write the fields into a checked or an unchecked buffer.\<close>

lemma bytes_writer_struct:
  assumes s: "stream_codec valid sl wb fb" and tb: "\<And>x. tb x = res_bind (allocate_buffer (sl x)) (wb x)"
  shows "bytes_writer valid sl tb wb fb"
proof (rule bytes_writerI, rule bytesreprI, goal_cases)
  case (1 x bs)
  then have "wb x [] = Ok bs" by (auto simp: tb res_simps)
  with stream_codec.stream [OF s 1(1)] show ?case by fastforce
next
  case (2 x bs w)
  then have "wb x [] = Ok bs" by (auto simp: tb res_simps)
  with stream_codec.stream [OF s 2(1)] show ?case by fastforce
next
  case (3 x bs rest)
  then have "wb x [] = Ok bs" by (auto simp: tb res_simps)
  with stream_codec.stream [OF s 3(1)] show ?case by fastforce
next
  case (4 x w out)
  then show ?case by (rule stream_codec.stream [OF s])
qed

lemma stream_pair:
  assumes a: "stream_codec v1 sl1 wb1 fb1" and b: "stream_codec v2 sl2 wb2 fb2"
  shows "stream_codec (\<lambda>(x, y). v1 x \<and> v2 y) (\<lambda>(x, y). sl1 x + sl2 y) (entry_write_bytes wb1 wb2) (entry_from_bytes fb1 fb2)"
proof (unfold_locales, goal_cases)
  case (1 xy w out)
  obtain x y where xy: "xy = (x, y)" by (cases xy)
  with 1 obtain m where m: "v1 x" "v2 y" "wb1 x w = Ok m" "wb2 y m = Ok out" by (auto simp: entry_write_bytes_def res_simps)
  obtain bs where bs: "m = w @ bs" "length bs = sl1 x" "\<And>rest. fb1 (bs @ rest) = Ok (x, rest)" "\<And>w'. wb1 x w' = Ok (w' @ bs)"
    using stream_codec.appends [OF a m(1,3)] by blast
  obtain cs where cs: "out = m @ cs" "length cs = sl2 y" "\<And>rest. fb2 (cs @ rest) = Ok (y, rest)" "\<And>w'. wb2 y w' = Ok (w' @ cs)"
    using stream_codec.appends [OF b m(2,4)] by blast
  from bs cs show ?case
    by (intro exI [of _ "bs @ cs"]) (simp add: xy entry_write_bytes_def entry_from_bytes_def)
qed

text \<open>The pattern \<open>let (x, rem) = from_bytes(remainder)?; Ok((f(x), rem))\<close>.\<close>

definition fb_map :: "('a \<Rightarrow> 'b) \<Rightarrow> 'a from_bytes \<Rightarrow> 'b from_bytes" where
  "fb_map f fb bs = res_bind (fb bs) (\<lambda>(x, rem). Ok (f x, rem))"

lemma stream_map:
  assumes s: "stream_codec v sl wb fb"
    and "\<And>x. valid x \<Longrightarrow> v (f x) \<and> g (f x) = x \<and> sl' x = sl (f x)"
    and "\<And>x w. valid x \<Longrightarrow> wb' x w = wb (f x) w" and "\<And>bs. fb' bs = fb_map g fb bs"
  shows "stream_codec valid sl' wb' fb'"
  using stream_codec.stream [OF s] assms(2-4) by unfold_locales (fastforce simp: fb_map_def)

text \<open>A variant of an enum: one byte for the variant, then its content.\<close>

lemma stream_tagged:
  assumes "stream_codec v sl wb fb" "v x" "wb x (w @ [tag]) = Ok out"
  shows "\<exists>bs. out = w @ tag # bs \<and> length bs = sl x \<and> (\<forall>rest. fb (bs @ rest) = Ok (x, rest)) \<and>
    (\<forall>w'. wb x (w' @ [tag]) = Ok (w' @ tag # bs))"
  using stream_codec.stream [OF assms] by auto

lemma stream_weaken: "stream_codec v sl wb fb \<Longrightarrow> (\<And>x. v' x \<Longrightarrow> v x) \<Longrightarrow> stream_codec v' sl wb fb"
  unfolding stream_codec_def by blast

section \<open>Containers\<close>

lemma stream_vec:
  assumes "stream_codec valid sl wb fb"
  shows "stream_codec (\<lambda>xs. (\<forall>x\<in>set xs. valid x) \<and> capacity_granted alloc es al (length xs)) (iterator_serialized_length sl)
    (vec_write_bytes wb) (vec_from_bytes alloc es al fb)"
proof (unfold_locales, goal_cases)
  case (1 xs w out)
  then have n: "length xs \<le> u32_max" and wi: "write_items wb xs (w @ to_le_bytes 4 (word_of_nat (length xs) :: u32)) = Ok out"
    by (auto simp: vec_write_bytes_def res_simps)
  from stream_codec.items [OF assms _ wi, where 'c = "'a list"] 1 obtain bs where bs:
      "out = w @ to_le_bytes 4 (word_of_nat (length xs) :: u32) @ bs" "length bs = sum_list (map sl xs)"
      "\<And>(ins :: 'a \<Rightarrow> 'a list \<Rightarrow> 'a list) acc rest. read_items fb ins (length xs) acc (bs @ rest) = Ok (fold ins xs acc, rest)"
      "\<And>w'. write_items wb xs w' = Ok (w' @ bs)" by auto
  from 1 n bs show ?case
    by (intro exI [of _ "to_le_bytes 4 (word_of_nat (length xs) :: u32) @ bs"])
      (simp add: vec_write_bytes_def vec_from_bytes_def iterator_serialized_length_def try_vec_granted fold_snoc)
qed

lemma stream_btreemap:
  assumes "stream_codec kv ksl kwb kfb" "stream_codec vv vsl vwb vfb"
  shows "stream_codec (\<lambda>m. (\<forall>(k, v)\<in>set m. kv k \<and> vv v) \<and> sorted_wrt (<) (map fst m))
    (btreemap_serialized_length ksl vsl) (btreemap_write_bytes kwb vwb) (btreemap_from_bytes kfb vfb)"
proof (unfold_locales, goal_cases)
  case (1 m w out)
  then have n: "length m \<le> u32_max"
    and wi: "write_items (entry_write_bytes kwb vwb) m (w @ to_le_bytes 4 (word_of_nat (length m) :: u32)) = Ok out"
    by (auto simp: btreemap_write_bytes_def res_simps)
  from stream_codec.items [OF stream_pair [OF assms] _ wi, where 'c = "('a \<times> 'b) list"] 1 obtain bs where bs:
      "out = w @ to_le_bytes 4 (word_of_nat (length m) :: u32) @ bs"
      "length bs = sum_list (map (\<lambda>(k, v). ksl k + vsl v) m)"
      "\<And>ins (acc :: ('a \<times> 'b) list) rest.
         read_items (entry_from_bytes kfb vfb) ins (length m) acc (bs @ rest) = Ok (fold ins m acc, rest)"
      "\<And>w'. write_items (entry_write_bytes kwb vwb) m w' = Ok (w' @ bs)" by auto
  have "fold (\<lambda>(k, v). btree_insert k v) m [] = m" using fold_btree_insert [of "[]" m] 1 by simp
  with n bs show ?case
    by (intro exI [of _ "to_le_bytes 4 (word_of_nat (length m) :: u32) @ bs"])
      (simp add: btreemap_write_bytes_def btreemap_from_bytes_def btreemap_serialized_length_def)
qed

lemma stream_btreeset:
  assumes "stream_codec valid sl wb fb"
  shows "stream_codec (\<lambda>s. (\<forall>x\<in>set s. valid x) \<and> sorted_wrt (<) s) (btreeset_serialized_length sl)
    (btreeset_write_bytes wb) (btreeset_from_bytes fb)"
proof (unfold_locales, goal_cases)
  case (1 s w out)
  then have n: "length s \<le> u32_max" and wi: "write_items wb s (w @ to_le_bytes 4 (word_of_nat (length s) :: u32)) = Ok out"
    by (auto simp: btreeset_write_bytes_def res_simps)
  from stream_codec.items [OF assms _ wi, where 'c = "'a list"] 1 obtain bs where bs:
      "out = w @ to_le_bytes 4 (word_of_nat (length s) :: u32) @ bs" "length bs = sum_list (map sl s)"
      "\<And>(ins :: 'a \<Rightarrow> 'a list \<Rightarrow> 'a list) acc rest. read_items fb ins (length s) acc (bs @ rest) = Ok (fold ins s acc, rest)"
      "\<And>w'. write_items wb s w' = Ok (w' @ bs)" by auto
  have "fold btree_set_insert s [] = s" using fold_btree_set_insert [of "[]" s] 1 by simp
  with n bs show ?case
    by (intro exI [of _ "to_le_bytes 4 (word_of_nat (length s) :: u32) @ bs"])
      (simp add: btreeset_write_bytes_def btreeset_from_bytes_def btreeset_serialized_length_def)
qed

lemma stream_option:
  assumes "stream_codec valid sl wb fb"
  shows "stream_codec (\<lambda>x. \<forall>v. x = Some v \<longrightarrow> valid v) (option_serialized_length sl) (option_write_bytes wb) (option_from_bytes fb)"
proof (unfold_locales, goal_cases)
  case (1 x w out)
  show ?case
  proof (cases x)
    case None
    with 1 show ?thesis by (auto simp: option_from_bytes_def)
  next
    case (Some v)
    with 1 have "valid v" "wb v (w @ [OPTION_SOME_TAG]) = Ok out" by auto
    from stream_codec.appends [OF assms this] obtain bs where "out = (w @ [OPTION_SOME_TAG]) @ bs" "length bs = sl v"
        "\<And>rest. fb (bs @ rest) = Ok (v, rest)" "\<And>w'. wb v w' = Ok (w' @ bs)" by blast
    then show ?thesis
      by (intro exI [of _ "OPTION_SOME_TAG # bs"]) (simp add: Some option_from_bytes_def OPTION_NONE_TAG_def OPTION_SOME_TAG_def)
  qed
qed

lemma bytesrepr_stream_default:
  "bytesrepr valid sl tb (default_write_bytes tb) fb \<Longrightarrow> stream_codec valid sl (default_write_bytes tb) fb"
  using bytes_writer_default [of valid sl tb fb] unfolding bytes_writer_def bytes_writer_axioms_def stream_codec_def by blast

section \<open>Primitive types\<close>

lemma stream_le:
  "LENGTH('a::len) = 8 * n \<Longrightarrow>
   stream_codec (\<lambda>_. True) (\<lambda>_. n) (le_write_bytes n :: 'a word write_bytes) (le_from_bytes n)"
  by unfold_locales (auto simp: le_write_bytes_def)

interpretation u64_stream: stream_codec "\<lambda>_. True" "\<lambda>_. 8" u64_write_bytes u64_from_bytes
  unfolding int_codec_defs by (rule stream_le) simp

interpretation u32_stream: stream_codec "\<lambda>_. True" "\<lambda>_. 4" u32_write_bytes u32_from_bytes
  unfolding int_codec_defs by (rule stream_le) simp

interpretation bool_stream: stream_codec "\<lambda>_. True" bool_serialized_length bool_write_bytes bool_from_bytes
  by unfold_locales (auto simp: bool_write_bytes_def bool_serialized_length_def)

interpretation array_stream: stream_codec "\<lambda>a. length a = n" "\<lambda>_. n" array_write_bytes "array_from_bytes n" for n
  by unfold_locales (auto simp: array_write_bytes_def array_from_bytes_def)

interpretation string_stream: stream_codec utf8_valid u8_slice_serialized_length write_u8_slice String_from_bytes
  by unfold_locales (auto simp: write_u8_slice_def u8_slice_serialized_length_def String_from_bytes_def res_simps)

section \<open>Ordered maps\<close>

text \<open>\<open>BTreeMap::get\<close> is \<open>map_of\<close>; \<open>remove\<close> and \<open>append\<close>, which moves every entry of the other map into this one.\<close>

definition btree_remove :: "'k \<Rightarrow> ('k \<times> 'v) list \<Rightarrow> ('k \<times> 'v) list" where
  "btree_remove k m = filter (\<lambda>(k', _). k' \<noteq> k) m"

definition btree_append :: "('k::linorder \<times> 'v) list \<Rightarrow> ('k \<times> 'v) list \<Rightarrow> ('k \<times> 'v) list" where
  "btree_append m other = fold (\<lambda>(k, v). btree_insert k v) other m"

abbreviation btree_wf :: "('k::linorder \<times> 'v) list \<Rightarrow> bool" where
  "btree_wf m \<equiv> sorted_wrt (<) (map fst m)"

locale ordered_map =
  fixes empty :: 'm and get :: "'m \<Rightarrow> 'k \<rightharpoonup> 'v" and insert :: "'k \<Rightarrow> 'v \<Rightarrow> 'm \<Rightarrow> 'm" and remove :: "'k \<Rightarrow> 'm \<Rightarrow> 'm"
    and wf :: "'m \<Rightarrow> bool"
  assumes get_empty: "get empty = Map.empty" and wf_empty: "wf empty"
    and get_insert: "get (insert k v m) = (get m)(k \<mapsto> v)" and wf_insert: "wf m \<Longrightarrow> wf (insert k v m)"
    and get_remove: "get (remove k m) = (get m)(k := None)" and wf_remove: "wf m \<Longrightarrow> wf (remove k m)"
begin

lemma fold_insert: "get (fold (\<lambda>(k, v). insert k v) kvs m) = get m ++ map_of (rev kvs)"
  by (induction kvs arbitrary: m) (auto simp: get_insert map_add_def fun_eq_iff split: option.splits)

lemma wf_fold_insert: "wf m \<Longrightarrow> wf (fold (\<lambda>(k, v). insert k v) kvs m)"
  by (induction kvs arbitrary: m) (auto simp: wf_insert)

lemma remove_insert: "get m k = None \<Longrightarrow> get (remove k (insert k v m)) = get m"
  by (simp add: get_remove get_insert fun_upd_idem)

end

lemma set_btree_insert: "fst ` set (btree_insert k v m) = insert k (fst ` set m)"
  by (induction k v m rule: btree_insert.induct) (simp_all add: insert_commute)

lemma btree_wf_insert: "btree_wf m \<Longrightarrow> btree_wf (btree_insert k v m)"
proof (induction m)
  case (Cons kv m)
  have "\<forall>x\<in>fst ` set (btree_insert k v m). fst kv < x" if "fst kv < k"
    unfolding set_btree_insert using that Cons.prems by auto
  with Cons show ?case by (cases kv) (auto intro: less_trans)
qed simp

interpretation btree: ordered_map "[]" map_of btree_insert btree_remove btree_wf
proof
  fix k :: 'a and v :: 'b and m
  show "map_of (btree_insert k v m) = (map_of m)(k \<mapsto> v)" by (induction m) auto
  show "map_of (btree_remove k m) = (map_of m)(k := None)" unfolding btree_remove_def by (induction m) auto
  show "btree_wf m \<Longrightarrow> btree_wf (btree_remove k m)" unfolding btree_remove_def by (induction m) auto
qed (simp_all add: btree_wf_insert)

lemma btree_wf_distinct: "btree_wf m \<Longrightarrow> distinct (map fst m)"
  by (simp add: strict_sorted_iff)

end
