(* ===== verification/Keys.thy ===== *)
theory Keys
  imports URefs Struct_Codec Trie_Proof
begin

text \<open>
  The keys of the global state, \<^verbatim>\<open>types/src/key.rs\<close>, with what they are made of: account hashes
  (\<^verbatim>\<open>types/src/account/account_hash.rs\<close>), transfer addresses and deploy hashes (\<^verbatim>\<open>types/src/transfer.rs\<close>)
  and era identifiers (\<^verbatim>\<open>types/src/era_id.rs\<close>); and the access rights of an execution context,
  \<^verbatim>\<open>types/src/access_rights.rs\<close>. The newtypes around \<open>[u8; 32]\<close> are lists of bytes, \<open>EraId\<close> is a \<open>u64\<close>. Where
  the code keeps the text of an error, the model keeps the error.
\<close>

section \<open>Account hashes, transfer addresses and deploy hashes\<close>

definition ACCOUNT_HASH_LENGTH :: nat where "ACCOUNT_HASH_LENGTH = 32"
definition ACCOUNT_HASH_FORMATTED_STRING_PREFIX :: string where
  "ACCOUNT_HASH_FORMATTED_STRING_PREFIX = ''account-hash-''"
definition TRANSFER_ADDR_LENGTH :: nat where "TRANSFER_ADDR_LENGTH = 32"
definition TRANSFER_ADDR_FORMATTED_STRING_PREFIX :: string where
  "TRANSFER_ADDR_FORMATTED_STRING_PREFIX = ''transfer-''"
definition DEPLOY_HASH_LENGTH :: nat where "DEPLOY_HASH_LENGTH = 32"

type_synonym account_hash = bytes
type_synonym transfer_addr = bytes
type_synonym deploy_hash = bytes

datatype account_from_str_error = AInvalidPrefix | AHex decode_error | AHash

datatype transfer_from_str_error = TInvalidPrefix | THex decode_error | TLength

definition account_hash_to_formatted_string :: "(bytes \<Rightarrow> string) \<Rightarrow> account_hash \<Rightarrow> string" where
  "account_hash_to_formatted_string encode_lower self = ACCOUNT_HASH_FORMATTED_STRING_PREFIX @ encode_lower self"

definition account_hash_from_formatted_str ::
  "blake2b \<Rightarrow> (string \<Rightarrow> (decode_error, bytes) result) \<Rightarrow> string \<Rightarrow> (account_from_str_error, account_hash) result" where
  "account_hash_from_formatted_str blake2b base16_decode input =
     res_bind (ok_or (strip_prefix ACCOUNT_HASH_FORMATTED_STRING_PREFIX input) AInvalidPrefix) (\<lambda>remainder.
     res_bind (map_err AHex (checksummed_decode blake2b base16_decode remainder)) (\<lambda>decoded.
     array_try_from ACCOUNT_HASH_LENGTH AHash decoded))"

definition account_hash_serialized_length :: "account_hash \<Rightarrow> nat" where
  "account_hash_serialized_length self = length self"

definition account_hash_to_bytes :: "account_hash to_bytes" where
  "account_hash_to_bytes self = array_to_bytes self"

definition account_hash_write_bytes :: "account_hash write_bytes" where
  "account_hash_write_bytes self writer = Ok (writer @ self)"

definition account_hash_from_bytes :: "account_hash from_bytes" where
  "account_hash_from_bytes bs = array_from_bytes ACCOUNT_HASH_LENGTH bs"

definition transfer_addr_to_formatted_string :: "(bytes \<Rightarrow> string) \<Rightarrow> transfer_addr \<Rightarrow> string" where
  "transfer_addr_to_formatted_string encode_lower self = TRANSFER_ADDR_FORMATTED_STRING_PREFIX @ encode_lower self"

definition transfer_addr_from_formatted_str ::
  "blake2b \<Rightarrow> (string \<Rightarrow> (decode_error, bytes) result) \<Rightarrow> string \<Rightarrow> (transfer_from_str_error, transfer_addr) result" where
  "transfer_addr_from_formatted_str blake2b base16_decode input =
     res_bind (ok_or (strip_prefix TRANSFER_ADDR_FORMATTED_STRING_PREFIX input) TInvalidPrefix) (\<lambda>remainder.
     res_bind (map_err THex (checksummed_decode blake2b base16_decode remainder)) (\<lambda>decoded.
     array_try_from TRANSFER_ADDR_LENGTH TLength decoded))"

definition transfer_addr_to_bytes :: "transfer_addr to_bytes" where
  "transfer_addr_to_bytes self = array_to_bytes self"

definition transfer_addr_write_bytes :: "transfer_addr write_bytes" where
  "transfer_addr_write_bytes self writer = array_write_bytes self writer"

definition transfer_addr_from_bytes :: "transfer_addr from_bytes" where
  "transfer_addr_from_bytes bs = array_from_bytes TRANSFER_ADDR_LENGTH bs"

definition deploy_hash_to_bytes :: "deploy_hash to_bytes" where
  "deploy_hash_to_bytes self = array_to_bytes self"

definition deploy_hash_write_bytes :: "deploy_hash write_bytes" where
  "deploy_hash_write_bytes self writer = array_write_bytes self writer"

definition deploy_hash_from_bytes :: "deploy_hash from_bytes" where
  "deploy_hash_from_bytes bs = array_from_bytes DEPLOY_HASH_LENGTH bs"

section \<open>Era identifiers\<close>

type_synonym era_id = u64

definition u64_MAX :: u64 where "u64_MAX = - 1"

definition era_iter :: "era_id \<Rightarrow> u64 \<Rightarrow> era_id list" where
  "era_iter self num_eras = map word_of_nat [unat self ..< unat (self + num_eras)]"

definition era_iter_inclusive :: "era_id \<Rightarrow> u64 \<Rightarrow> era_id list" where
  "era_iter_inclusive self num_eras = map word_of_nat [unat self ..< unat (self + num_eras) + 1]"

definition u64_saturating_add :: "u64 \<Rightarrow> u64 \<Rightarrow> u64" where
  "u64_saturating_add a b = (if unat a + unat b < 2 ^ 64 then a + b else u64_MAX)"

definition u64_saturating_sub :: "u64 \<Rightarrow> u64 \<Rightarrow> u64" where
  "u64_saturating_sub a b = (if b \<le> a then a - b else 0)"

definition u64_saturating_mul :: "u64 \<Rightarrow> u64 \<Rightarrow> u64" where
  "u64_saturating_mul a b = (if unat a * unat b < 2 ^ 64 then a * b else u64_MAX)"

definition era_successor :: "era_id \<Rightarrow> era_id" where
  "era_successor self = u64_saturating_add self 1"

definition era_checked_add :: "era_id \<Rightarrow> u64 \<Rightarrow> era_id option" where
  "era_checked_add self x = (if unat self + unat x < 2 ^ 64 then Some (self + x) else None)"

definition era_checked_sub :: "era_id \<Rightarrow> u64 \<Rightarrow> era_id option" where
  "era_checked_sub self x = (if x \<le> self then Some (self - x) else None)"

definition era_saturating_sub :: "era_id \<Rightarrow> u64 \<Rightarrow> era_id" where
  "era_saturating_sub self x = u64_saturating_sub self x"

definition era_saturating_add :: "era_id \<Rightarrow> u64 \<Rightarrow> era_id" where
  "era_saturating_add self rhs = u64_saturating_add self rhs"

definition era_saturating_mul :: "era_id \<Rightarrow> u64 \<Rightarrow> era_id" where
  "era_saturating_mul self x = u64_saturating_mul self x"

definition era_is_genesis :: "era_id \<Rightarrow> bool" where
  "era_is_genesis self \<longleftrightarrow> self = 0"

definition u64_from_str :: "string \<Rightarrow> (parse_int_error, u64) result" where
  "u64_from_str s = res_bind (from_str_radix (2 ^ 64 - 1) 10 s) (\<lambda>n. Ok (word_of_nat n))"

definition u64_show :: "u64 \<Rightarrow> string" where
  "u64_show n = show_radix 10 (unat n)"

definition era_from_str :: "string \<Rightarrow> (parse_int_error, era_id) result" where
  "era_from_str s = u64_from_str s"

definition era_to_bytes :: "era_id to_bytes" where
  "era_to_bytes self = u64_to_bytes self"

definition era_write_bytes :: "era_id write_bytes" where
  "era_write_bytes self writer = u64_write_bytes self writer"

definition era_from_bytes :: "era_id from_bytes" where
  "era_from_bytes bs = u64_from_bytes bs"

lemma u64_from_show: "u64_from_str (u64_show n) = Ok n"
proof -
  have "unat n < 2 ^ 64" using unat_lt2p [of n] by simp
  then have "unat n \<le> 2 ^ 64 - 1" by simp
  then have "from_str_radix (2 ^ 64 - 1) 10 (show_radix 10 (unat n)) = Ok (unat n)" by (intro from_show_radix) auto
  then show ?thesis by (simp add: u64_from_str_def u64_show_def)
qed

section \<open>Keys\<close>

definition HASH_PREFIX :: string where "HASH_PREFIX = ''hash-''"
definition DEPLOY_INFO_PREFIX :: string where "DEPLOY_INFO_PREFIX = ''deploy-''"
definition ERA_INFO_PREFIX :: string where "ERA_INFO_PREFIX = ''era-''"
definition BALANCE_PREFIX :: string where "BALANCE_PREFIX = ''balance-''"
definition BID_PREFIX :: string where "BID_PREFIX = ''bid-''"
definition WITHDRAW_PREFIX :: string where "WITHDRAW_PREFIX = ''withdraw-''"
definition DICTIONARY_PREFIX :: string where "DICTIONARY_PREFIX = ''dictionary-''"
definition UNBOND_PREFIX :: string where "UNBOND_PREFIX = ''unbond-''"
definition SYSTEM_CONTRACT_REGISTRY_PREFIX :: string where
  "SYSTEM_CONTRACT_REGISTRY_PREFIX = ''system-contract-registry-''"
definition CHAINSPEC_REGISTRY_PREFIX :: string where "CHAINSPEC_REGISTRY_PREFIX = ''chainspec-registry-''"
definition BLOCK_EFFECTS_ROOT_HASH_PREFIX :: string where
  "BLOCK_EFFECTS_ROOT_HASH_PREFIX = ''block-effects-root-hash-''"
definition DEPLOY_APPROVALS_ROOT_HASH_REGISTRY_PREFIX :: string where
  "DEPLOY_APPROVALS_ROOT_HASH_REGISTRY_PREFIX = ''deploy-approvals-root-hash-''"

lemmas prefix_defs = HASH_PREFIX_def DEPLOY_INFO_PREFIX_def ERA_INFO_PREFIX_def BALANCE_PREFIX_def BID_PREFIX_def
  WITHDRAW_PREFIX_def DICTIONARY_PREFIX_def UNBOND_PREFIX_def SYSTEM_CONTRACT_REGISTRY_PREFIX_def
  CHAINSPEC_REGISTRY_PREFIX_def BLOCK_EFFECTS_ROOT_HASH_PREFIX_def DEPLOY_APPROVALS_ROOT_HASH_REGISTRY_PREFIX_def
  ACCOUNT_HASH_FORMATTED_STRING_PREFIX_def TRANSFER_ADDR_FORMATTED_STRING_PREFIX_def UREF_FORMATTED_STRING_PREFIX_def

definition KEY_HASH_LENGTH :: nat where "KEY_HASH_LENGTH = 32"
definition KEY_DICTIONARY_LENGTH :: nat where "KEY_DICTIONARY_LENGTH = 32"
definition SYSTEM_CONTRACT_REGISTRY_KEY_BYTES :: bytes where
  "SYSTEM_CONTRACT_REGISTRY_KEY_BYTES = replicate 32 0"
definition CHAINSPEC_REGISTRY_KEY_BYTES :: bytes where
  "CHAINSPEC_REGISTRY_KEY_BYTES = replicate 32 1"
definition KEY_ID_SERIALIZED_LENGTH :: nat where "KEY_ID_SERIALIZED_LENGTH = 1"
definition KEY_UREF_SERIALIZED_LENGTH :: nat where
  "KEY_UREF_SERIALIZED_LENGTH = KEY_ID_SERIALIZED_LENGTH + UREF_SERIALIZED_LENGTH"

lemmas key_length_defs = KEY_HASH_LENGTH_def KEY_DICTIONARY_LENGTH_def SYSTEM_CONTRACT_REGISTRY_KEY_BYTES_def
  CHAINSPEC_REGISTRY_KEY_BYTES_def KEY_ID_SERIALIZED_LENGTH_def KEY_UREF_SERIALIZED_LENGTH_def
  UREF_SERIALIZED_LENGTH_def UREF_ADDR_LENGTH_def ACCOUNT_HASH_LENGTH_def TRANSFER_ADDR_LENGTH_def DEPLOY_HASH_LENGTH_def

datatype key =
    KAccount account_hash
  | KHash bytes
  | KURef uref
  | KTransfer transfer_addr
  | KDeployInfo deploy_hash
  | KEraInfo era_id
  | KBalance bytes
  | KBid account_hash
  | KWithdraw account_hash
  | KDictionary bytes
  | KSystemContractRegistry
  | KUnbond account_hash
  | KChainspecRegistry
  | KBlockEffectsRootHash u64
  | KDeployApprovalsRootHash u64

fun key_tag :: "key \<Rightarrow> u8" where
  "key_tag (KAccount _) = 0"
| "key_tag (KHash _) = 1"
| "key_tag (KURef _) = 2"
| "key_tag (KTransfer _) = 3"
| "key_tag (KDeployInfo _) = 4"
| "key_tag (KEraInfo _) = 5"
| "key_tag (KBalance _) = 6"
| "key_tag (KBid _) = 7"
| "key_tag (KWithdraw _) = 8"
| "key_tag (KDictionary _) = 9"
| "key_tag KSystemContractRegistry = 10"
| "key_tag (KUnbond _) = 11"
| "key_tag KChainspecRegistry = 12"
| "key_tag (KBlockEffectsRootHash _) = 13"
| "key_tag (KDeployApprovalsRootHash _) = 14"

fun key_type_string :: "key \<Rightarrow> string" where
  "key_type_string (KAccount _) = ''Key::Account''"
| "key_type_string (KHash _) = ''Key::Hash''"
| "key_type_string (KURef _) = ''Key::URef''"
| "key_type_string (KTransfer _) = ''Key::Transfer''"
| "key_type_string (KDeployInfo _) = ''Key::DeployInfo''"
| "key_type_string (KEraInfo _) = ''Key::EraInfo''"
| "key_type_string (KBalance _) = ''Key::Balance''"
| "key_type_string (KBid _) = ''Key::Bid''"
| "key_type_string (KWithdraw _) = ''Key::Unbond''"
| "key_type_string (KDictionary _) = ''Key::Dictionary''"
| "key_type_string (KUnbond _) = ''Key::Unbond''"
| "key_type_string KSystemContractRegistry = ''Key::SystemContractRegistry''"
| "key_type_string KChainspecRegistry = ''Key::ChainspecRegistry''"
| "key_type_string (KBlockEffectsRootHash _) = ''Key::BlockEffectsRootHash''"
| "key_type_string (KDeployApprovalsRootHash _) = ''Key::DeployApprovalsRootHash''"

definition key_max_serialized_length :: nat where
  "key_max_serialized_length = KEY_UREF_SERIALIZED_LENGTH"

fun key_normalize :: "key \<Rightarrow> key" where
  "key_normalize (KURef uref) = KURef (remove_access_rights uref)"
| "key_normalize other = other"

fun key_into_account :: "key \<Rightarrow> account_hash option" where
  "key_into_account (KAccount bs) = Some bs"
| "key_into_account _ = None"

fun key_into_hash :: "key \<Rightarrow> bytes option" where
  "key_into_hash (KHash hash) = Some hash"
| "key_into_hash _ = None"

fun key_as_uref :: "key \<Rightarrow> uref option" where
  "key_as_uref (KURef uref) = Some uref"
| "key_as_uref _ = None"

fun key_as_balance :: "key \<Rightarrow> bytes option" where
  "key_as_balance (KBalance v) = Some v"
| "key_as_balance _ = None"

fun key_into_uref :: "key \<Rightarrow> uref option" where
  "key_into_uref (KURef uref) = Some uref"
| "key_into_uref _ = None"

fun key_as_dictionary :: "key \<Rightarrow> bytes option" where
  "key_as_dictionary (KDictionary v) = Some v"
| "key_as_dictionary _ = None"

definition key_uref_to_hash :: "key \<Rightarrow> key option" where
  "key_uref_to_hash self = (case key_as_uref self of None \<Rightarrow> None | Some uref \<Rightarrow> Some (KHash (uref_addr uref)))"

fun key_withdraw_to_unbond :: "key \<Rightarrow> key option" where
  "key_withdraw_to_unbond (KWithdraw account_hash) = Some (KUnbond account_hash)"
| "key_withdraw_to_unbond _ = None"

definition key_dictionary :: "blake2b \<Rightarrow> uref \<Rightarrow> bytes \<Rightarrow> key" where
  "key_dictionary blake2b seed_uref dictionary_item_key =
     KDictionary (digest_bytes (blake2b (uref_addr seed_uref @ dictionary_item_key)))"

fun key_is_dictionary_key :: "key \<Rightarrow> bool" where
  "key_is_dictionary_key (KDictionary _) = True"
| "key_is_dictionary_key _ = False"

subsection \<open>Binary encoding\<close>

fun key_serialized_length :: "key \<Rightarrow> nat" where
  "key_serialized_length (KAccount h) = KEY_ID_SERIALIZED_LENGTH + account_hash_serialized_length h"
| "key_serialized_length (KHash _) = KEY_ID_SERIALIZED_LENGTH + KEY_HASH_LENGTH"
| "key_serialized_length (KURef _) = KEY_UREF_SERIALIZED_LENGTH"
| "key_serialized_length (KTransfer _) = KEY_ID_SERIALIZED_LENGTH + TRANSFER_ADDR_LENGTH"
| "key_serialized_length (KDeployInfo _) = KEY_ID_SERIALIZED_LENGTH + DEPLOY_HASH_LENGTH"
| "key_serialized_length (KEraInfo _) = KEY_ID_SERIALIZED_LENGTH + 8"
| "key_serialized_length (KBalance _) = KEY_ID_SERIALIZED_LENGTH + UREF_ADDR_LENGTH"
| "key_serialized_length (KBid _) = KEY_ID_SERIALIZED_LENGTH + KEY_HASH_LENGTH"
| "key_serialized_length (KWithdraw _) = KEY_ID_SERIALIZED_LENGTH + KEY_HASH_LENGTH"
| "key_serialized_length (KUnbond _) = KEY_ID_SERIALIZED_LENGTH + KEY_HASH_LENGTH"
| "key_serialized_length (KDictionary _) = KEY_ID_SERIALIZED_LENGTH + KEY_DICTIONARY_LENGTH"
| "key_serialized_length KSystemContractRegistry = KEY_ID_SERIALIZED_LENGTH + length SYSTEM_CONTRACT_REGISTRY_KEY_BYTES"
| "key_serialized_length KChainspecRegistry = KEY_ID_SERIALIZED_LENGTH + length CHAINSPEC_REGISTRY_KEY_BYTES"
| "key_serialized_length (KBlockEffectsRootHash _) = KEY_ID_SERIALIZED_LENGTH + 8"
| "key_serialized_length (KDeployApprovalsRootHash _) = KEY_ID_SERIALIZED_LENGTH + 8"

fun key_body_to_bytes :: "key to_bytes" where
  "key_body_to_bytes (KAccount account_hash) = account_hash_to_bytes account_hash"
| "key_body_to_bytes (KHash hash) = array_to_bytes hash"
| "key_body_to_bytes (KURef uref) = uref_to_bytes uref"
| "key_body_to_bytes (KTransfer addr) = transfer_addr_to_bytes addr"
| "key_body_to_bytes (KDeployInfo addr) = deploy_hash_to_bytes addr"
| "key_body_to_bytes (KEraInfo era_id) = era_to_bytes era_id"
| "key_body_to_bytes (KBalance addr) = array_to_bytes addr"
| "key_body_to_bytes (KBid account_hash) = account_hash_to_bytes account_hash"
| "key_body_to_bytes (KWithdraw account_hash) = account_hash_to_bytes account_hash"
| "key_body_to_bytes (KUnbond account_hash) = account_hash_to_bytes account_hash"
| "key_body_to_bytes (KDictionary addr) = array_to_bytes addr"
| "key_body_to_bytes KSystemContractRegistry = array_to_bytes SYSTEM_CONTRACT_REGISTRY_KEY_BYTES"
| "key_body_to_bytes KChainspecRegistry = array_to_bytes CHAINSPEC_REGISTRY_KEY_BYTES"
| "key_body_to_bytes (KBlockEffectsRootHash block_height) = u64_to_bytes block_height"
| "key_body_to_bytes (KDeployApprovalsRootHash block_height) = u64_to_bytes block_height"

definition key_to_bytes :: "key to_bytes" where
  "key_to_bytes self = res_bind (key_body_to_bytes self) (\<lambda>bs. Ok ([key_tag self] @ bs))"

fun key_body_write_bytes :: "key write_bytes" where
  "key_body_write_bytes (KAccount account_hash) writer = account_hash_write_bytes account_hash writer"
| "key_body_write_bytes (KHash hash) writer = array_write_bytes hash writer"
| "key_body_write_bytes (KURef uref) writer = uref_write_bytes uref writer"
| "key_body_write_bytes (KTransfer addr) writer = transfer_addr_write_bytes addr writer"
| "key_body_write_bytes (KDeployInfo deploy_hash) writer = deploy_hash_write_bytes deploy_hash writer"
| "key_body_write_bytes (KEraInfo era_id) writer = era_write_bytes era_id writer"
| "key_body_write_bytes (KBalance addr) writer = array_write_bytes addr writer"
| "key_body_write_bytes (KBid account_hash) writer = account_hash_write_bytes account_hash writer"
| "key_body_write_bytes (KWithdraw account_hash) writer = account_hash_write_bytes account_hash writer"
| "key_body_write_bytes (KUnbond account_hash) writer = account_hash_write_bytes account_hash writer"
| "key_body_write_bytes (KDictionary addr) writer = array_write_bytes addr writer"
| "key_body_write_bytes KSystemContractRegistry writer = array_write_bytes SYSTEM_CONTRACT_REGISTRY_KEY_BYTES writer"
| "key_body_write_bytes KChainspecRegistry writer = array_write_bytes CHAINSPEC_REGISTRY_KEY_BYTES writer"
| "key_body_write_bytes (KBlockEffectsRootHash block_height) writer = u64_write_bytes block_height writer"
| "key_body_write_bytes (KDeployApprovalsRootHash block_height) writer = u64_write_bytes block_height writer"

definition key_write_bytes :: "key write_bytes" where
  "key_write_bytes self writer = key_body_write_bytes self (writer @ [key_tag self])"

definition key_from_bytes :: "key from_bytes" where
  "key_from_bytes bs =
     res_bind (u8_from_bytes bs) (\<lambda>(tag, remainder).
     if tag = 0 then fb_map KAccount account_hash_from_bytes remainder
     else if tag = 1 then fb_map KHash (array_from_bytes KEY_HASH_LENGTH) remainder
     else if tag = 2 then fb_map KURef uref_from_bytes remainder
     else if tag = 3 then fb_map KTransfer transfer_addr_from_bytes remainder
     else if tag = 4 then fb_map KDeployInfo deploy_hash_from_bytes remainder
     else if tag = 5 then fb_map KEraInfo era_from_bytes remainder
     else if tag = 6 then fb_map KBalance (array_from_bytes UREF_ADDR_LENGTH) remainder
     else if tag = 7 then fb_map KBid account_hash_from_bytes remainder
     else if tag = 8 then fb_map KWithdraw account_hash_from_bytes remainder
     else if tag = 11 then fb_map KUnbond account_hash_from_bytes remainder
     else if tag = 9 then fb_map KDictionary (array_from_bytes KEY_DICTIONARY_LENGTH) remainder
     else if tag = 10 then fb_map (\<lambda>_. KSystemContractRegistry) (array_from_bytes 32) remainder
     else if tag = 12 then fb_map (\<lambda>_. KChainspecRegistry) (array_from_bytes 32) remainder
     else if tag = 13 then fb_map KBlockEffectsRootHash u64_from_bytes remainder
     else if tag = 14 then fb_map KDeployApprovalsRootHash u64_from_bytes remainder
     else Err Formatting)"

subsection \<open>Text\<close>

datatype text_error = TextDecode decode_error | TextLength | TextInt parse_int_error | TextMessage string

datatype key_from_str_error =
    EAccount account_from_str_error
  | EHash text_error
  | EURef uref_from_str_error
  | ETransfer transfer_from_str_error
  | EDeployInfo text_error
  | EEraInfo text_error
  | EBalance text_error
  | EBid text_error
  | EWithdraw text_error
  | EDictionary text_error
  | ESystemContractRegistry text_error
  | EUnbond text_error
  | EChainspecRegistry text_error
  | EBlockEffectsRootHash text_error
  | EDeployApprovalsRootHash text_error
  | EUnknownPrefix

fun key_to_formatted_string :: "(bytes \<Rightarrow> string) \<Rightarrow> key \<Rightarrow> string" where
  "key_to_formatted_string enc (KAccount account_hash) = account_hash_to_formatted_string enc account_hash"
| "key_to_formatted_string enc (KHash addr) = HASH_PREFIX @ enc addr"
| "key_to_formatted_string enc (KURef uref) = uref_to_formatted_string enc uref"
| "key_to_formatted_string enc (KTransfer transfer_addr) = transfer_addr_to_formatted_string enc transfer_addr"
| "key_to_formatted_string enc (KDeployInfo addr) = DEPLOY_INFO_PREFIX @ enc addr"
| "key_to_formatted_string enc (KEraInfo era_id) = ERA_INFO_PREFIX @ u64_show era_id"
| "key_to_formatted_string enc (KBalance addr) = BALANCE_PREFIX @ enc addr"
| "key_to_formatted_string enc (KBid account_hash) = BID_PREFIX @ enc account_hash"
| "key_to_formatted_string enc (KWithdraw account_hash) = WITHDRAW_PREFIX @ enc account_hash"
| "key_to_formatted_string enc (KDictionary dictionary_addr) = DICTIONARY_PREFIX @ enc dictionary_addr"
| "key_to_formatted_string enc (KUnbond account_hash) = UNBOND_PREFIX @ enc account_hash"
| "key_to_formatted_string enc KSystemContractRegistry =
     SYSTEM_CONTRACT_REGISTRY_PREFIX @ enc SYSTEM_CONTRACT_REGISTRY_KEY_BYTES"
| "key_to_formatted_string enc KChainspecRegistry = CHAINSPEC_REGISTRY_PREFIX @ enc CHAINSPEC_REGISTRY_KEY_BYTES"
| "key_to_formatted_string enc (KBlockEffectsRootHash block_height) =
     BLOCK_EFFECTS_ROOT_HASH_PREFIX @ u64_show block_height"
| "key_to_formatted_string enc (KDeployApprovalsRootHash block_height) =
     DEPLOY_APPROVALS_ROOT_HASH_REGISTRY_PREFIX @ u64_show block_height"

text \<open>The two shapes of a branch: 32 bytes in hexadecimal, or a decimal \<open>u64\<close>.\<close>

definition parse_hex_array ::
  "blake2b \<Rightarrow> (string \<Rightarrow> (decode_error, bytes) result) \<Rightarrow> nat \<Rightarrow> (text_error \<Rightarrow> 'e) \<Rightarrow> text_error \<Rightarrow> string
     \<Rightarrow> ('e, bytes) result" where
  "parse_hex_array blake2b dec n err length_error hex =
     res_bind (map_err (\<lambda>e. err (TextDecode e)) (checksummed_decode blake2b dec hex)) (\<lambda>decoded.
     array_try_from n (err length_error) decoded)"

text \<open>\<open>if let Some(s) = input.strip_prefix(p) { return f(s) }\<close> followed by \<open>rest\<close>, and the match on a parser that lets
  only an invalid prefix through.\<close>

definition if_prefix :: "string \<Rightarrow> string \<Rightarrow> (string \<Rightarrow> 'r) \<Rightarrow> 'r \<Rightarrow> 'r" where
  "if_prefix p input f rest = (case strip_prefix p input of Some s \<Rightarrow> f s | None \<Rightarrow> rest)"

fun unless_invalid_prefix ::
  "('e, 'a) result \<Rightarrow> 'e \<Rightarrow> ('a \<Rightarrow> 'b) \<Rightarrow> ('e \<Rightarrow> 'f) \<Rightarrow> ('f, 'b) result \<Rightarrow> ('f, 'b) result" where
  "unless_invalid_prefix (Ok x) invalid_prefix f into rest = Ok (f x)"
| "unless_invalid_prefix (Err e) invalid_prefix f into rest = (if e = invalid_prefix then rest else Err (into e))"
| "unless_invalid_prefix Panic invalid_prefix f into rest = Panic"

definition key_from_formatted_str ::
  "blake2b \<Rightarrow> (string \<Rightarrow> (decode_error, bytes) result) \<Rightarrow> string \<Rightarrow> (key_from_str_error, key) result" where
  "key_from_formatted_str blake2b dec input =
     unless_invalid_prefix (account_hash_from_formatted_str blake2b dec input) AInvalidPrefix KAccount EAccount (
     if_prefix HASH_PREFIX input (\<lambda>hex.
       res_bind (parse_hex_array blake2b dec KEY_HASH_LENGTH EHash TextLength hex) (\<lambda>hash_addr. Ok (KHash hash_addr))) (
     if_prefix DEPLOY_APPROVALS_ROOT_HASH_REGISTRY_PREFIX input (\<lambda>block_height_str.
       res_bind (map_err (\<lambda>e. EDeployApprovalsRootHash (TextInt e)) (u64_from_str block_height_str))
         (\<lambda>block_height. Ok (KDeployApprovalsRootHash block_height))) (
     if_prefix DEPLOY_INFO_PREFIX input (\<lambda>hex.
       res_bind (parse_hex_array blake2b dec DEPLOY_HASH_LENGTH EDeployInfo TextLength hex)
         (\<lambda>hash_array. Ok (KDeployInfo hash_array))) (
     unless_invalid_prefix (transfer_addr_from_formatted_str blake2b dec input) TInvalidPrefix KTransfer ETransfer (
     unless_invalid_prefix (uref_from_formatted_str blake2b dec input) UInvalidPrefix KURef EURef (
     if_prefix ERA_INFO_PREFIX input (\<lambda>era_id_str.
       res_bind (map_err (\<lambda>e. EEraInfo (TextInt e)) (era_from_str era_id_str)) (\<lambda>era_id. Ok (KEraInfo era_id))) (
     if_prefix BALANCE_PREFIX input (\<lambda>hex.
       res_bind (parse_hex_array blake2b dec UREF_ADDR_LENGTH EBalance TextLength hex) (\<lambda>addr. Ok (KBalance addr))) (
     if_prefix BID_PREFIX input (\<lambda>hex.
       res_bind (parse_hex_array blake2b dec ACCOUNT_HASH_LENGTH EBid TextLength hex) (\<lambda>h. Ok (KBid h))) (
     if_prefix WITHDRAW_PREFIX input (\<lambda>hex.
       res_bind (parse_hex_array blake2b dec ACCOUNT_HASH_LENGTH EWithdraw TextLength hex) (\<lambda>h. Ok (KWithdraw h))) (
     if_prefix UNBOND_PREFIX input (\<lambda>hex.
       res_bind (parse_hex_array blake2b dec ACCOUNT_HASH_LENGTH EUnbond TextLength hex) (\<lambda>h. Ok (KUnbond h))) (
     if_prefix DICTIONARY_PREFIX input (\<lambda>dictionary_addr.
       res_bind (parse_hex_array blake2b dec KEY_DICTIONARY_LENGTH EDictionary TextLength dictionary_addr)
         (\<lambda>addr. Ok (KDictionary addr))) (
     if_prefix SYSTEM_CONTRACT_REGISTRY_PREFIX input (\<lambda>registry_padding.
       res_bind (parse_hex_array blake2b dec 32 ESystemContractRegistry
           (TextMessage ''Failed to deserialize system registry key'') registry_padding)
         (\<lambda>_. Ok KSystemContractRegistry)) (
     if_prefix CHAINSPEC_REGISTRY_PREFIX input (\<lambda>registry_padding.
       res_bind (parse_hex_array blake2b dec 32 EChainspecRegistry
           (TextMessage ''Failed to deserialize chainspec registry key'') registry_padding)
         (\<lambda>_. Ok KChainspecRegistry)) (
     if_prefix BLOCK_EFFECTS_ROOT_HASH_PREFIX input (\<lambda>block_height_str.
       res_bind (map_err (\<lambda>e. EBlockEffectsRootHash (TextInt e)) (u64_from_str block_height_str))
         (\<lambda>block_height. Ok (KBlockEffectsRootHash block_height))) (
     Err EUnknownPrefix)))))))))))))))"

section \<open>The encoding of a key\<close>

fun key_valid :: "key \<Rightarrow> bool" where
  "key_valid (KURef uref) = uref_valid uref"
| "key_valid (KAccount h) = (length h = 32)"
| "key_valid (KHash h) = (length h = 32)"
| "key_valid (KTransfer h) = (length h = 32)"
| "key_valid (KDeployInfo h) = (length h = 32)"
| "key_valid (KBalance h) = (length h = 32)"
| "key_valid (KBid h) = (length h = 32)"
| "key_valid (KWithdraw h) = (length h = 32)"
| "key_valid (KDictionary h) = (length h = 32)"
| "key_valid (KUnbond h) = (length h = 32)"
| "key_valid _ = True"

lemmas key_body_defs = account_hash_serialized_length_def account_hash_to_bytes_def account_hash_write_bytes_def
  account_hash_from_bytes_def transfer_addr_to_bytes_def transfer_addr_write_bytes_def transfer_addr_from_bytes_def
  deploy_hash_to_bytes_def deploy_hash_write_bytes_def deploy_hash_from_bytes_def era_to_bytes_def era_write_bytes_def
  era_from_bytes_def

text \<open>The bytes after the tag.\<close>

fun key_body :: "key \<Rightarrow> bytes" where
  "key_body (KURef uref) = uref_addr uref @ [uref_access_rights uref]"
| "key_body (KAccount h) = h"
| "key_body (KHash h) = h"
| "key_body (KTransfer h) = h"
| "key_body (KDeployInfo h) = h"
| "key_body (KBalance h) = h"
| "key_body (KBid h) = h"
| "key_body (KWithdraw h) = h"
| "key_body (KDictionary h) = h"
| "key_body (KUnbond h) = h"
| "key_body KSystemContractRegistry = SYSTEM_CONTRACT_REGISTRY_KEY_BYTES"
| "key_body KChainspecRegistry = CHAINSPEC_REGISTRY_KEY_BYTES"
| "key_body (KEraInfo n) = to_le_bytes 8 n"
| "key_body (KBlockEffectsRootHash n) = to_le_bytes 8 n"
| "key_body (KDeployApprovalsRootHash n) = to_le_bytes 8 n"

lemma key_to_bytes_eq: "key_to_bytes k = Ok (key_tag k # key_body k)"
  by (cases k) (simp_all add: key_to_bytes_def key_body_defs array_to_bytes_def uref_to_bytes_def ar_to_bytes_def
    u8_to_bytes_def u64_to_bytes_def le_to_bytes_def)

lemma key_write_bytes_eq: "key_write_bytes k w = Ok (w @ key_tag k # key_body k)"
  by (cases k) (simp_all add: key_write_bytes_def key_body_defs array_write_bytes_def uref_write_bytes_def
    ar_write_bytes_def u64_write_bytes_def le_write_bytes_def)

lemma key_serialized_length_eq: "key_valid k \<Longrightarrow> key_serialized_length k = Suc (length (key_body k))"
  by (cases k) (simp_all add: key_body_defs key_length_defs uref_valid_def)

lemma key_from_bytes_eq: "key_valid k \<Longrightarrow> key_from_bytes (key_tag k # key_body k @ rest) = Ok (k, rest)"
  by (cases k) (simp_all add: key_from_bytes_def fb_map_def key_body_defs key_length_defs array_from_bytes_def
    uref_from_bytes_def uref_valid_def ar_from_bytes_def u64_from_bytes_def)

interpretation key_writer: bytes_writer key_valid key_serialized_length key_to_bytes key_write_bytes key_from_bytes
  by unfold_locales (auto simp: key_to_bytes_eq key_write_bytes_eq key_serialized_length_eq key_from_bytes_eq)

text \<open>C35: The binary encoding of a key is never longer than \<open>Key::max_serialized_length\<close>, has exactly the announced
  length, and is decoded back to the key, leaving what follows.\<close>
theorem key_encoding:
  assumes "key_valid k"
  shows "\<exists>bs. key_to_bytes k = Ok bs \<and> length bs = key_serialized_length k \<and> length bs \<le> key_max_serialized_length \<and>
    key_from_bytes (bs @ rest) = Ok (k, rest)"
  using key_serialized_length_eq [OF assms] key_from_bytes_eq [OF assms] assms
  by (cases k) (simp_all add: key_to_bytes_eq key_max_serialized_length_def key_length_defs uref_valid_def)

theorem key_encoding_witness:
  "\<exists>bs. key_to_bytes (KEraInfo 7) = Ok bs \<and> length bs = key_serialized_length (KEraInfo 7) \<and>
    length bs \<le> key_max_serialized_length \<and> key_from_bytes (bs @ [1]) = Ok (KEraInfo 7, [1])"
  using key_encoding [of "KEraInfo 7" "[1]"] by simp

lemma ar_from_bytes_Ok: "ar_from_bytes bs = Ok (a, rest) \<Longrightarrow> ar_valid a \<and> bs = a # rest"
proof (cases bs)
  case (Cons b r)
  assume "ar_from_bytes bs = Ok (a, rest)"
  with Cons have "ar_from_bits b = Some a" "r = rest" by (auto simp: ar_from_bytes_def split: option.splits)
  with Cons show ?thesis by (auto simp: ar_from_bits_def split: if_splits)
qed (simp add: ar_from_bytes_def)

lemma uref_from_bytes_Ok:
  "uref_from_bytes bs = Ok (u, rest) \<Longrightarrow> uref_valid u \<and> bs = uref_addr u @ uref_access_rights u # rest"
  by (auto simp: uref_from_bytes_def array_from_bytes_def uref_valid_def res_simps dest!: ar_from_bytes_Ok)

lemma u64_from_bytes_Ok: "u64_from_bytes bs = Ok (n, rest) \<Longrightarrow> bs = to_le_bytes 8 n @ rest"
  by (auto simp: u64_from_bytes_def le_from_bytes_def res_simps to_from_le_bytes)

definition key_is_registry :: "key \<Rightarrow> bool" where
  "key_is_registry k \<longleftrightarrow> k = KSystemContractRegistry \<or> k = KChainspecRegistry"

lemma key_from_bytes_inv:
  assumes "key_from_bytes bs = Ok (k, rest)"
  shows "key_valid k \<and> (\<exists>body. bs = key_tag k # body @ rest \<and> length body = length (key_body k) \<and>
    (key_is_registry k \<or> body = key_body k))"
proof (cases bs)
  case (Cons tag r)
  have array: "array_from_bytes n r = Ok (h, rest) \<Longrightarrow> length h = n \<and> r = h @ rest" for n h
    by (simp add: array_from_bytes_def res_simps)
  from assms Cons show ?thesis
    by (auto simp: key_from_bytes_def fb_map_def key_body_defs key_length_defs key_is_registry_def res_simps
      split: if_splits dest!: array uref_from_bytes_Ok u64_from_bytes_Ok)
qed (use assms in \<open>simp add: key_from_bytes_def\<close>)

text \<open>C33: Decoding yields only well-formed keys and is canonical: whatever decodes to a key is its encoding followed by the
  unread rest, except that the 32 bytes of padding of the two registry keys may be arbitrary.\<close>
theorem key_decoding_canonical:
  assumes "key_from_bytes bs = Ok (k, rest)"
  shows "key_valid k \<and> length bs = key_serialized_length k + length rest \<and>
    (if key_is_registry k then hd bs = key_tag k else key_to_bytes k = Ok (take (key_serialized_length k) bs))"
  using key_from_bytes_inv [OF assms] by (auto simp: key_serialized_length_eq key_to_bytes_eq)

theorem key_decoding_canonical_witness:
  "key_from_bytes ([13] @ replicate 8 0 @ [5]) = Ok (KBlockEffectsRootHash 0, [5]) \<and>
   key_to_bytes (KBlockEffectsRootHash 0) = Ok ([13] @ replicate 8 0)"
proof -
  have d: "key_from_bytes ([13] @ replicate 8 0 @ [5]) = Ok (KBlockEffectsRootHash 0, [5])" by code_simp
  from key_decoding_canonical [OF d] d show ?thesis by (simp add: key_is_registry_def key_length_defs)
qed

section \<open>Formatted strings\<close>

lemma strip_prefix_dash: "CHR ''-'' \<in> set p \<Longrightarrow> CHR ''-'' \<notin> set s \<Longrightarrow> strip_prefix p s = None"
  by (cases "strip_prefix p s") (auto simp: strip_prefix_Some)

lemma if_prefix_simps [simp]:
  "strip_prefix p input = Some s \<Longrightarrow> if_prefix p input f rest = f s"
  "strip_prefix p input = None \<Longrightarrow> if_prefix p input f rest = rest"
  by (simp_all add: if_prefix_def)

lemma parse_hex_array_encode:
  "base16_spec enc dec \<Longrightarrow> length h = n \<Longrightarrow> parse_hex_array blake2b dec n err le (enc h) = Ok h"
  by (simp add: parse_hex_array_def decode_encode_lower array_try_from_def)

lemma account_hash_text:
  "base16_spec enc dec \<Longrightarrow> length h = 32 \<Longrightarrow>
   account_hash_from_formatted_str blake2b dec (ACCOUNT_HASH_FORMATTED_STRING_PREFIX @ enc h) = Ok h"
  "strip_prefix ACCOUNT_HASH_FORMATTED_STRING_PREFIX s = None \<Longrightarrow>
   account_hash_from_formatted_str blake2b dec s = Err AInvalidPrefix"
  by (simp_all add: account_hash_from_formatted_str_def decode_encode_lower array_try_from_def ACCOUNT_HASH_LENGTH_def)

lemma transfer_addr_text:
  "base16_spec enc dec \<Longrightarrow> length h = 32 \<Longrightarrow>
   transfer_addr_from_formatted_str blake2b dec (TRANSFER_ADDR_FORMATTED_STRING_PREFIX @ enc h) = Ok h"
  "strip_prefix TRANSFER_ADDR_FORMATTED_STRING_PREFIX s = None \<Longrightarrow>
   transfer_addr_from_formatted_str blake2b dec s = Err TInvalidPrefix"
  by (simp_all add: transfer_addr_from_formatted_str_def decode_encode_lower array_try_from_def TRANSFER_ADDR_LENGTH_def)

lemma uref_text_prefix:
  "strip_prefix UREF_FORMATTED_STRING_PREFIX s = None \<Longrightarrow> uref_from_formatted_str blake2b dec s = Err UInvalidPrefix"
  by (simp add: uref_from_formatted_str_def)

lemmas key_text_simps = account_hash_text(2) transfer_addr_text(2) uref_text_prefix parse_hex_array_encode u64_from_show

text \<open>C34: Parsing the formatted string of a key gives the key back, for each of the fifteen variants; in particular no
  prefix is taken for another, although one of them is a prefix of another.\<close>
theorem key_text_roundtrip:
  assumes b: "base16_spec enc dec" and k: "key_valid k"
  shows "key_from_formatted_str blake2b dec (key_to_formatted_string enc k) = Ok k"
proof (cases k)
  case (KAccount h)
  with account_hash_text(1) [OF b] k show ?thesis
    by (simp add: key_from_formatted_str_def account_hash_to_formatted_string_def)
next
  case (KURef u)
  then have "strip_prefix p (key_to_formatted_string enc k) = None"
    if "p \<noteq> []" "hd p \<noteq> CHR ''u'' \<or> hd (tl p) \<noteq> CHR ''r'' \<and> tl p \<noteq> []" for p
    using that by (cases p; cases "tl p") (auto simp: uref_to_formatted_string_def prefix_defs)
  with KURef uref_format_roundtrip [OF b] k show ?thesis
    by (simp add: key_from_formatted_str_def account_hash_text(2) transfer_addr_text(2) prefix_defs)
next
  case (KTransfer h)
  with transfer_addr_text(1) [OF b] k show ?thesis
    by (simp add: key_from_formatted_str_def transfer_addr_to_formatted_string_def account_hash_text(2) prefix_defs)
next
  case (KDeployInfo h)
  with k b show ?thesis
    by (simp add: key_from_formatted_str_def prefix_defs account_hash_text(2) parse_hex_array_encode [OF b] key_length_defs
      strip_prefix_dash encode_lower_no_dash [OF b])
qed (use k in \<open>simp_all add: key_from_formatted_str_def prefix_defs key_text_simps parse_hex_array_encode [OF b]
  key_length_defs era_from_str_def\<close>)

theorem key_text_roundtrip_witness:
  "key_from_formatted_str (\<lambda>_. 0) hex_decode_ref (key_to_formatted_string hex_encode_ref (KDeployInfo (replicate 32 171))) =
     Ok (KDeployInfo (replicate 32 171)) \<and>
   base16_spec hex_encode_ref hex_decode_ref"
  using key_text_roundtrip [OF base16_ref, of "KDeployInfo (replicate 32 171)" "\<lambda>_. 0"] base16_ref by simp

text \<open>C36: Which hexadecimal strings \<open>checksummed_hex::decode\<close> accepts. It decodes a string to some bytes exactly if base16 does
  and one of three things holds: there are more than 75 bytes, the string does not contain letters of both cases, or it is the
  checksummed encoding of the bytes. So for at most 75 bytes a change of the case of letters that leaves both cases is detected.\<close>
theorem checksum_detects_case:
  assumes "base16_spec enc dec"
  shows "checksummed_decode blake2b dec s = Ok bs \<longleftrightarrow>
    dec s = Ok bs \<and>
    (75 < length bs \<or>
     \<not> ((\<exists>c\<in>set s. c \<in> set ''abcdef'') \<and> (\<exists>c\<in>set s. c \<in> set ''ABCDEF'')) \<or>
     s = encode_iter blake2b bs)"
  using checksum_checked [OF assms] unfolding SMALL_BYTES_COUNT_def mixed_case_def .

theorem checksum_detects_case_witness:
  "checksummed_decode (\<lambda>_. from_be_bytes (2 # replicate 31 0)) hex_decode_ref ''aB'' = Ok [171] \<and>
   checksummed_decode (\<lambda>_. from_be_bytes (2 # replicate 31 0)) hex_decode_ref ''Ab'' \<noteq> Ok [171]"
proof -
  have d: "digest_bytes (from_be_bytes (2 # replicate 31 0)) = 2 # replicate 31 0"
    unfolding digest_bytes_def by (rule to_from_be_bytes) simp_all
  have n: "bytes_to_nibbles [171] = [10, 11]" by code_simp
  have h: "hex_decode_ref ''aB'' = Ok [171]" by code_simp
  have "encode_nibbles (bytes_to_bits_cycle (2 # replicate 31 0)) 0 [10, 11] = ''aB''"
    by (simp add: bytes_to_bits_cycle_def HEX_CHARS_def)
  then have e: "encode_iter (\<lambda>_. from_be_bytes (2 # replicate 31 0)) [171] = ''aB''" by (simp add: encode_iter_def d n)
  note c = checksum_detects_case [OF base16_ref, of "\<lambda>_. from_be_bytes (2 # replicate 31 0)" _ "[171]", unfolded e]
  show ?thesis using c [of "''aB''"] c [of "''Ab''"] h by simp
qed

section \<open>Access rights of a context\<close>

datatype granted_access = PreExisting | Granted bytes access_rights

record context_access_rights =
  context_key :: key
  context_rights :: "bytes \<rightharpoonup> access_rights"

fun do_extend :: "context_access_rights \<Rightarrow> uref list \<Rightarrow> context_access_rights" where
  "do_extend self [] = self"
| "do_extend self (uref # uref_iter) =
     do_extend (case context_rights self (uref_addr uref) of
         Some rights \<Rightarrow>
           self\<lparr>context_rights := (context_rights self)(uref_addr uref \<mapsto> ar_union rights (uref_access_rights uref))\<rparr>
       | None \<Rightarrow> self\<lparr>context_rights := (context_rights self)(uref_addr uref \<mapsto> uref_access_rights uref)\<rparr>) uref_iter"

definition context_access_rights_new :: "key \<Rightarrow> uref list \<Rightarrow> context_access_rights" where
  "context_access_rights_new key uref_iter = do_extend \<lparr>context_key = key, context_rights = Map.empty\<rparr> uref_iter"

definition context_access_rights_extend :: "context_access_rights \<Rightarrow> uref list \<Rightarrow> context_access_rights" where
  "context_access_rights_extend self urefs = do_extend self urefs"

definition has_access_rights_to_uref :: "context_access_rights \<Rightarrow> uref \<Rightarrow> bool" where
  "has_access_rights_to_uref self uref =
     (case context_rights self (uref_addr uref) of
        Some known_rights \<Rightarrow> ar_contains known_rights (uref_access_rights uref)
      | None \<Rightarrow> False)"

definition grant_access :: "context_access_rights \<Rightarrow> uref \<Rightarrow> granted_access \<times> context_access_rights" where
  "grant_access self uref =
     (case context_rights self (uref_addr uref) of
        Some existing_rights \<Rightarrow>
          (let newly_granted_access_rights = ar_difference (uref_access_rights uref) existing_rights;
               self' = self\<lparr>context_rights :=
                 (context_rights self)(uref_addr uref \<mapsto> ar_union existing_rights (uref_access_rights uref))\<rparr>
           in (if ar_is_none newly_granted_access_rights then PreExisting
               else Granted (uref_addr uref) newly_granted_access_rights, self'))
      | None \<Rightarrow>
          (Granted (uref_addr uref) (uref_access_rights uref),
           self\<lparr>context_rights := (context_rights self)(uref_addr uref \<mapsto> uref_access_rights uref)\<rparr>))"

definition remove_access :: "context_access_rights \<Rightarrow> bytes \<Rightarrow> access_rights \<Rightarrow> context_access_rights" where
  "remove_access self addr access_rights =
     (case context_rights self addr of
        Some current_access_rights \<Rightarrow>
          self\<lparr>context_rights := (context_rights self)(addr \<mapsto> ar_difference current_access_rights access_rights)\<rparr>
      | None \<Rightarrow> self)"

text \<open>The rights a list of references confers on an address, as a set of bit positions.\<close>

definition conferred :: "uref list \<Rightarrow> bytes \<Rightarrow> nat set" where
  "conferred urefs addr = (\<Union>u \<in> {u \<in> set urefs. uref_addr u = addr}. {n. bit (uref_access_rights u) n})"

definition known_bits :: "context_access_rights \<Rightarrow> bytes \<Rightarrow> nat set" where
  "known_bits ctx addr = (case context_rights ctx addr of Some a \<Rightarrow> {n. bit a n} | None \<Rightarrow> {})"

lemma do_extend_known:
  "context_rights (do_extend ctx urefs) addr = None \<longleftrightarrow>
     context_rights ctx addr = None \<and> addr \<notin> uref_addr ` set urefs"
  by (induction ctx urefs rule: do_extend.induct) (auto split: option.splits)

lemma do_extend_bits: "known_bits (do_extend ctx urefs) addr = known_bits ctx addr \<union> conferred urefs addr"
proof (induction ctx urefs rule: do_extend.induct)
  case (2 ctx u us)
  show ?case unfolding do_extend.simps 2
    by (auto simp: known_bits_def conferred_def split: option.splits)
qed (simp add: conferred_def)

lemma do_extend_key [simp]: "context_key (do_extend ctx urefs) = context_key ctx"
  by (induction ctx urefs rule: do_extend.induct) (auto split: option.splits)

lemma has_access_iff:
  "has_access_rights_to_uref ctx u \<longleftrightarrow>
     context_rights ctx (uref_addr u) \<noteq> None \<and> {n. bit (uref_access_rights u) n} \<subseteq> known_bits ctx (uref_addr u)"
  by (auto simp: has_access_rights_to_uref_def known_bits_def ar_contains_iff split: option.splits)

text \<open>C15: No right can be forged: a context built from some references and then extended by others accepts a reference
  exactly when its address is the address of one of those, and each of its rights was conferred by one with that
  address.\<close>
theorem context_rights_not_forged:
  "has_access_rights_to_uref (context_access_rights_extend (context_access_rights_new key urefs) extra) u \<longleftrightarrow>
     uref_addr u \<in> uref_addr ` set (urefs @ extra) \<and>
     {n. bit (uref_access_rights u) n} \<subseteq> conferred (urefs @ extra) (uref_addr u)"
proof -
  have "known_bits (do_extend (do_extend \<lparr>context_key = key, context_rights = Map.empty\<rparr> urefs) extra) a =
      conferred (urefs @ extra) a" for a
    unfolding do_extend_bits by (auto simp: known_bits_def conferred_def)
  then show ?thesis
    unfolding has_access_iff context_access_rights_extend_def context_access_rights_new_def
    by (auto simp: do_extend_known image_Un)
qed

text \<open>C32: Granting a reference makes it usable, adds exactly its rights at its address and nothing elsewhere, and reports
  what was new: taking back the reported rights leaves every address with the rights it had before.\<close>
theorem grant_access_reversible:
  "has_access_rights_to_uref (snd (grant_access ctx u)) u \<and>
   known_bits (snd (grant_access ctx u)) addr = known_bits ctx addr \<union> conferred [u] addr \<and>
   known_bits (case fst (grant_access ctx u) of
       PreExisting \<Rightarrow> snd (grant_access ctx u)
     | Granted a rights \<Rightarrow> remove_access (snd (grant_access ctx u)) a rights) addr = known_bits ctx addr"
proof (cases "context_rights ctx (uref_addr u)")
  case None
  then show ?thesis
    by (auto simp: grant_access_def has_access_iff known_bits_def conferred_def remove_access_def)
next
  case (Some e)
  have "\<forall>n. bit (uref_access_rights u) n \<longrightarrow> bit e n" if "ar_is_none (ar_difference (uref_access_rights u) e)"
    using that ar_bits(2) [of "uref_access_rights u" e] by (simp add: ar_is_none_def AR_NONE_def)
  with Some show ?thesis
    by (auto simp: grant_access_def has_access_iff known_bits_def conferred_def remove_access_def Let_def)
qed

section \<open>Keys in the trie\<close>

definition key_codec :: "key codec" where
  "key_codec = \<lparr>cd_sl = key_serialized_length, cd_tb = key_to_bytes, cd_wb = key_write_bytes, cd_fb = key_from_bytes\<rparr>"

lemma key_codec_simps [simp]:
  "cd_sl key_codec = key_serialized_length" "cd_tb key_codec = key_to_bytes" "cd_wb key_codec = key_write_bytes"
  "cd_fb key_codec = key_from_bytes" "key_path key_codec k = key_tag k # key_body k"
  by (simp_all add: key_codec_def key_path_def key_to_bytes_eq)

lemma key_body_length:
  "key_valid k \<Longrightarrow> length (key_body k) =
     (if key_tag k = 2 then 33 else if key_tag k = 5 \<or> key_tag k = 13 \<or> key_tag k = 14 then 8 else 32)"
  by (cases k) (simp_all add: key_length_defs uref_valid_def)

text \<open>The keys of the global state meet what the trie requires of its keys, with any lawful codec of values: they
  encode without error to a nonempty path, two paths with the same first byte have the same length, so that no path is a
  prefix of another, and they are short enough for every node that is not a leaf to be hashed as one chunk.\<close>

lemma keys_fit_trie:
  assumes "codec_ok vv vc" "\<forall>v w. vv v \<longrightarrow> cd_wb vc v w \<noteq> Panic"
  shows "lawful_codecs key_valid key_codec vv vc \<and> short_keys key_valid key_codec"
proof
  show "lawful_codecs key_valid key_codec vv vc"
    using assms key_writer.bytes_writer_axioms
    by (simp add: lawful_codecs_def key_write_bytes_eq key_to_bytes_eq key_body_length)
  have "length (key_body k) \<le> 33" if "key_valid k" for k
    using key_body_length [OF that] by simp
  then show "short_keys key_valid key_codec" by (force simp: short_keys_def CHUNK_SIZE_BYTES_def)
qed

end
