(* ===== verification/Accounts.thy ===== *)
theory Accounts
  imports Keys
begin

text \<open>
  User accounts: \<^verbatim>\<open>types/src/account.rs\<close> with \<^verbatim>\<open>account/weight.rs\<close>, \<^verbatim>\<open>account/action_thresholds.rs\<close>,
  \<^verbatim>\<open>account/action_type.rs\<close>, \<^verbatim>\<open>account/associated_keys.rs\<close> and \<^verbatim>\<open>account/error.rs\<close>. A \<open>BTreeMap\<close> is the ordered list
  of its entries, a \<open>BTreeSet\<close> the ordered list of its elements; names of keys are the UTF-8 bytes of the string. A method
  on \<open>&mut self\<close> returns the changed value.
\<close>

section \<open>Weights and thresholds\<close>

type_synonym weight = u8

definition u8_saturating_add :: "u8 \<Rightarrow> u8 \<Rightarrow> u8" where
  "u8_saturating_add a b = (if unat a + unat b < 256 then a + b else 255)"

lemma unat_u8_saturating_add: "unat (u8_saturating_add a b) = min 255 (unat a + unat b)"
  by (auto simp: u8_saturating_add_def unat_word_ariths)

definition weight_serialized_length :: "weight \<Rightarrow> nat" where
  "weight_serialized_length self = 1"

definition weight_to_bytes :: "weight to_bytes" where
  "weight_to_bytes self = u8_to_bytes self"

definition weight_write_bytes :: "weight write_bytes" where
  "weight_write_bytes self writer = Ok (writer @ [self])"

definition weight_from_bytes :: "weight from_bytes" where
  "weight_from_bytes bs = res_bind (u8_from_bytes bs) (\<lambda>(byte, rem). Ok (byte, rem))"

datatype action_type = Deployment | KeyManagement

definition action_type_try_from :: "u32 \<Rightarrow> (unit, action_type) result" where
  "action_type_try_from value =
     (if value = 0 then Ok Deployment else if value = 1 then Ok KeyManagement else Err ())"

datatype set_threshold_failure =
  KeyManagementThreshold | DeploymentThreshold | SetThresholdPermissionDenied | InsufficientTotalWeight

datatype add_key_failure = MaxKeysLimit | DuplicateKey | AddKeyPermissionDenied

datatype remove_key_failure = RemoveMissingKey | RemoveKeyPermissionDenied | RemoveThresholdViolation

datatype update_key_failure = UpdateMissingKey | UpdateKeyPermissionDenied | UpdateThresholdViolation

record action_thresholds =
  deployment :: weight
  key_management :: weight

definition action_thresholds_new :: "weight \<Rightarrow> weight \<Rightarrow> (set_threshold_failure, action_thresholds) result" where
  "action_thresholds_new d km =
     (if d > km then Err DeploymentThreshold else Ok \<lparr>deployment = d, key_management = km\<rparr>)"

definition set_deployment_threshold ::
  "action_thresholds \<Rightarrow> weight \<Rightarrow> (set_threshold_failure, action_thresholds) result" where
  "set_deployment_threshold self new_threshold =
     (if new_threshold > key_management self then Err DeploymentThreshold
      else Ok (self\<lparr>deployment := new_threshold\<rparr>))"

definition set_key_management_threshold ::
  "action_thresholds \<Rightarrow> weight \<Rightarrow> (set_threshold_failure, action_thresholds) result" where
  "set_key_management_threshold self new_threshold =
     (if deployment self > new_threshold then Err KeyManagementThreshold
      else Ok (self\<lparr>key_management := new_threshold\<rparr>))"

fun set_threshold ::
  "action_thresholds \<Rightarrow> action_type \<Rightarrow> weight \<Rightarrow> (set_threshold_failure, action_thresholds) result" where
  "set_threshold self Deployment new_threshold = set_deployment_threshold self new_threshold"
| "set_threshold self KeyManagement new_threshold = set_key_management_threshold self new_threshold"

definition action_thresholds_default :: action_thresholds where
  "action_thresholds_default = \<lparr>deployment = 1, key_management = 1\<rparr>"

definition action_thresholds_serialized_length :: "action_thresholds \<Rightarrow> nat" where
  "action_thresholds_serialized_length self = 2 * 1"

definition action_thresholds_to_bytes :: "action_thresholds to_bytes" where
  "action_thresholds_to_bytes self =
     res_bind (weight_to_bytes (deployment self)) (\<lambda>a.
     res_bind (weight_to_bytes (key_management self)) (\<lambda>b. Ok (a @ b)))"

definition action_thresholds_write_bytes :: "action_thresholds write_bytes" where
  "action_thresholds_write_bytes self writer =
     res_bind (weight_write_bytes (deployment self) writer) (weight_write_bytes (key_management self))"

definition action_thresholds_from_bytes :: "action_thresholds from_bytes" where
  "action_thresholds_from_bytes bs =
     res_bind (weight_from_bytes bs) (\<lambda>(d, rem).
     res_bind (weight_from_bytes rem) (\<lambda>(km, rem).
     Ok (\<lparr>deployment = d, key_management = km\<rparr>, rem)))"

section \<open>Associated keys\<close>

type_synonym associated_keys = "(account_hash \<times> weight) list"

definition associated_keys_new :: "account_hash \<Rightarrow> weight \<Rightarrow> associated_keys" where
  "associated_keys_new key weight = btree_insert key weight []"

definition add_key :: "associated_keys \<Rightarrow> account_hash \<Rightarrow> weight \<Rightarrow> (add_key_failure, associated_keys) result" where
  "add_key self key weight =
     (case map_of self key of None \<Rightarrow> Ok (btree_insert key weight self) | Some _ \<Rightarrow> Err DuplicateKey)"

definition remove_key :: "associated_keys \<Rightarrow> account_hash \<Rightarrow> (remove_key_failure, associated_keys) result" where
  "remove_key self key =
     (case map_of self key of Some _ \<Rightarrow> Ok (btree_remove key self) | None \<Rightarrow> Err RemoveMissingKey)"

definition update_key :: "associated_keys \<Rightarrow> account_hash \<Rightarrow> weight \<Rightarrow> (update_key_failure, associated_keys) result" where
  "update_key self key weight =
     (case map_of self key of None \<Rightarrow> Err UpdateMissingKey | Some _ \<Rightarrow> Ok (btree_insert key weight self))"

definition contains_key :: "associated_keys \<Rightarrow> account_hash \<Rightarrow> bool" where
  "contains_key self key \<longleftrightarrow> map_of self key \<noteq> None"

definition calculate_any_keys_weight :: "associated_keys \<Rightarrow> account_hash list \<Rightarrow> weight" where
  "calculate_any_keys_weight self keys =
     foldl (\<lambda>acc w. u8_saturating_add acc w) 0 (List.map_filter (map_of self) keys)"

definition calculate_keys_weight :: "associated_keys \<Rightarrow> account_hash list \<Rightarrow> weight" where
  "calculate_keys_weight self authorization_keys = calculate_any_keys_weight self authorization_keys"

definition total_keys_weight :: "associated_keys \<Rightarrow> weight" where
  "total_keys_weight self = calculate_any_keys_weight self (map fst self)"

definition total_keys_weight_excluding :: "associated_keys \<Rightarrow> account_hash \<Rightarrow> weight" where
  "total_keys_weight_excluding self account_hash =
     calculate_any_keys_weight self (filter (\<lambda>element. element \<noteq> account_hash) (map fst self))"

definition associated_keys_serialized_length :: "associated_keys \<Rightarrow> nat" where
  "associated_keys_serialized_length self =
     btreemap_serialized_length account_hash_serialized_length weight_serialized_length self"

definition associated_keys_to_bytes :: "associated_keys to_bytes" where
  "associated_keys_to_bytes self =
     btreemap_to_bytes account_hash_serialized_length weight_serialized_length account_hash_to_bytes weight_to_bytes self"

definition associated_keys_write_bytes :: "associated_keys write_bytes" where
  "associated_keys_write_bytes self writer =
     res_bind (u32_try_from (length self)) (\<lambda>length_32.
     res_fold (\<lambda>(key, weight) w. res_bind (account_hash_write_bytes key w) (weight_write_bytes weight)) self
       (writer @ to_le_bytes 4 length_32))"

definition associated_keys_from_bytes :: "associated_keys from_bytes" where
  "associated_keys_from_bytes bs = btreemap_from_bytes account_hash_from_bytes weight_from_bytes bs"

section \<open>Accounts\<close>

type_synonym named_keys = "(bytes \<times> key) list"

record account =
  acc_hash :: account_hash
  acc_named_keys :: named_keys
  acc_main_purse :: uref
  acc_associated_keys :: associated_keys
  acc_thresholds :: action_thresholds

definition account_create :: "account_hash \<Rightarrow> named_keys \<Rightarrow> uref \<Rightarrow> account" where
  "account_create account named_keys main_purse =
     \<lparr>acc_hash = account, acc_named_keys = named_keys, acc_main_purse = main_purse,
      acc_associated_keys = associated_keys_new account 1, acc_thresholds = action_thresholds_default\<rparr>"

definition extract_access_rights :: "account \<Rightarrow> context_access_rights" where
  "extract_access_rights self =
     context_access_rights_new (KAccount (acc_hash self))
       (List.map_filter (\<lambda>(_, key). key_as_uref key) (acc_named_keys self) @ [acc_main_purse self])"

definition named_keys_append :: "account \<Rightarrow> named_keys \<Rightarrow> account" where
  "named_keys_append self keys = self\<lparr>acc_named_keys := btree_append (acc_named_keys self) keys\<rparr>"

definition main_purse_add_only :: "account \<Rightarrow> uref" where
  "main_purse_add_only self = uref_new (uref_addr (acc_main_purse self)) AR_ADD"

definition add_associated_key :: "account \<Rightarrow> account_hash \<Rightarrow> weight \<Rightarrow> (add_key_failure, account) result" where
  "add_associated_key self account_hash weight =
     res_bind (add_key (acc_associated_keys self) account_hash weight) (\<lambda>ks. Ok (self\<lparr>acc_associated_keys := ks\<rparr>))"

definition can_remove_key :: "account \<Rightarrow> account_hash \<Rightarrow> bool" where
  "can_remove_key self account_hash =
     (let total_weight_without = total_keys_weight_excluding (acc_associated_keys self) account_hash
      in total_weight_without \<ge> deployment (acc_thresholds self) \<and>
         total_weight_without \<ge> key_management (acc_thresholds self))"

definition can_update_key :: "account \<Rightarrow> account_hash \<Rightarrow> weight \<Rightarrow> bool" where
  "can_update_key self account_hash weight =
     (let total_weight = total_keys_weight_excluding (acc_associated_keys self) account_hash;
          new_weight = u8_saturating_add total_weight weight
      in new_weight \<ge> deployment (acc_thresholds self) \<and> new_weight \<ge> key_management (acc_thresholds self))"

definition remove_associated_key :: "account \<Rightarrow> account_hash \<Rightarrow> (remove_key_failure, account) result" where
  "remove_associated_key self account_hash =
     (if contains_key (acc_associated_keys self) account_hash \<and> \<not> can_remove_key self account_hash
      then Err RemoveThresholdViolation
      else res_bind (remove_key (acc_associated_keys self) account_hash) (\<lambda>ks. Ok (self\<lparr>acc_associated_keys := ks\<rparr>)))"

definition update_associated_key :: "account \<Rightarrow> account_hash \<Rightarrow> weight \<Rightarrow> (update_key_failure, account) result" where
  "update_associated_key self account_hash weight =
     (if (case map_of (acc_associated_keys self) account_hash of
            Some current_weight \<Rightarrow> weight < current_weight \<and> \<not> can_update_key self account_hash weight
          | None \<Rightarrow> False)
      then Err UpdateThresholdViolation
      else res_bind (update_key (acc_associated_keys self) account_hash weight) (\<lambda>ks. Ok (self\<lparr>acc_associated_keys := ks\<rparr>)))"

definition can_set_threshold :: "account \<Rightarrow> weight \<Rightarrow> (set_threshold_failure, unit) result" where
  "can_set_threshold self new_threshold =
     (let total_weight = total_keys_weight (acc_associated_keys self)
      in if new_threshold > total_weight then Err InsufficientTotalWeight else Ok ())"

definition set_action_threshold ::
  "account \<Rightarrow> action_type \<Rightarrow> weight \<Rightarrow> (set_threshold_failure, account) result" where
  "set_action_threshold self action_type weight =
     res_bind (can_set_threshold self weight) (\<lambda>_.
     res_bind (set_threshold (acc_thresholds self) action_type weight) (\<lambda>t. Ok (self\<lparr>acc_thresholds := t\<rparr>)))"

definition can_authorize :: "account \<Rightarrow> account_hash list \<Rightarrow> bool" where
  "can_authorize self authorization_keys \<longleftrightarrow>
     authorization_keys \<noteq> [] \<and> list_all (\<lambda>e. contains_key (acc_associated_keys self) e) authorization_keys"

definition can_deploy_with :: "account \<Rightarrow> account_hash list \<Rightarrow> bool" where
  "can_deploy_with self authorization_keys =
     (let total_weight = calculate_keys_weight (acc_associated_keys self) authorization_keys
      in total_weight \<ge> deployment (acc_thresholds self))"

definition can_manage_keys_with :: "account \<Rightarrow> account_hash list \<Rightarrow> bool" where
  "can_manage_keys_with self authorization_keys =
     (let total_weight = calculate_keys_weight (acc_associated_keys self) authorization_keys
      in total_weight \<ge> key_management (acc_thresholds self))"

subsection \<open>Encoding\<close>

definition named_keys_serialized_length :: "named_keys \<Rightarrow> nat" where
  "named_keys_serialized_length = btreemap_serialized_length u8_slice_serialized_length key_serialized_length"

definition named_keys_write_bytes :: "named_keys write_bytes" where
  "named_keys_write_bytes = btreemap_write_bytes write_u8_slice key_write_bytes"

definition named_keys_from_bytes :: "named_keys from_bytes" where
  "named_keys_from_bytes = btreemap_from_bytes String_from_bytes key_from_bytes"

definition account_serialized_length :: "account \<Rightarrow> nat" where
  "account_serialized_length self =
     account_hash_serialized_length (acc_hash self) + named_keys_serialized_length (acc_named_keys self) +
     uref_serialized_length (acc_main_purse self) + associated_keys_serialized_length (acc_associated_keys self) +
     action_thresholds_serialized_length (acc_thresholds self)"

definition account_write_bytes :: "account write_bytes" where
  "account_write_bytes self writer =
     res_bind (account_hash_write_bytes (acc_hash self) writer) (\<lambda>w.
     res_bind (named_keys_write_bytes (acc_named_keys self) w) (\<lambda>w.
     res_bind (uref_write_bytes (acc_main_purse self) w) (\<lambda>w.
     res_bind (associated_keys_write_bytes (acc_associated_keys self) w) (\<lambda>w.
     action_thresholds_write_bytes (acc_thresholds self) w))))"

definition account_to_bytes :: "account to_bytes" where
  "account_to_bytes self =
     res_bind (allocate_buffer (account_serialized_length self)) (\<lambda>result.
     res_bind (account_hash_write_bytes (acc_hash self) result) (\<lambda>w.
     res_bind (named_keys_write_bytes (acc_named_keys self) w) (\<lambda>w.
     res_bind (uref_write_bytes (acc_main_purse self) w) (\<lambda>w.
     res_bind (associated_keys_write_bytes (acc_associated_keys self) w) (\<lambda>w.
     action_thresholds_write_bytes (acc_thresholds self) w)))))"

definition account_from_bytes :: "account from_bytes" where
  "account_from_bytes bs =
     res_bind (account_hash_from_bytes bs) (\<lambda>(h, rem).
     res_bind (named_keys_from_bytes rem) (\<lambda>(nk, rem).
     res_bind (uref_from_bytes rem) (\<lambda>(purse, rem).
     res_bind (associated_keys_from_bytes rem) (\<lambda>(ak, rem).
     res_bind (action_thresholds_from_bytes rem) (\<lambda>(thr, rem).
     Ok (\<lparr>acc_hash = h, acc_named_keys = nk, acc_main_purse = purse, acc_associated_keys = ak, acc_thresholds = thr\<rparr>, rem))))))"

section \<open>The encoding of an account\<close>

lemma bytes_writer_stream: "bytes_writer valid sl tb wb fb \<Longrightarrow> stream_codec valid sl wb fb"
  by (rule stream_codec.intro) (rule bytes_writer.wb_sound)

lemmas key_stream = bytes_writer_stream [OF key_writer.bytes_writer_axioms]
lemmas uref_stream = bytes_writer_stream [OF uref_writer.bytes_writer_axioms]

lemma account_hash_stream:
  "stream_codec (\<lambda>h. length h = 32) account_hash_serialized_length account_hash_write_bytes account_hash_from_bytes"
  by unfold_locales (auto simp: key_body_defs ACCOUNT_HASH_LENGTH_def array_from_bytes_def)

lemma weight_stream: "stream_codec (\<lambda>_. True) weight_serialized_length weight_write_bytes weight_from_bytes"
  by unfold_locales (auto simp: weight_serialized_length_def weight_write_bytes_def weight_from_bytes_def)

definition associated_keys_valid :: "associated_keys \<Rightarrow> bool" where
  "associated_keys_valid m \<longleftrightarrow> (\<forall>k\<in>set (map fst m). length k = 32) \<and> btree_wf m"

lemma associated_keys_stream:
  "stream_codec associated_keys_valid associated_keys_serialized_length associated_keys_write_bytes associated_keys_from_bytes"
  by (rule stream_map [OF stream_btreemap [OF account_hash_stream weight_stream], where f = "\<lambda>x. x" and g = "\<lambda>x. x"])
    (auto simp: associated_keys_valid_def associated_keys_serialized_length_def associated_keys_from_bytes_def fb_map_def
      associated_keys_write_bytes_def btreemap_write_bytes_def write_items_def entry_write_bytes_def [abs_def] split_def)

definition named_keys_valid :: "named_keys \<Rightarrow> bool" where
  "named_keys_valid m \<longleftrightarrow> (\<forall>(n, k)\<in>set m. utf8_valid n \<and> key_valid k) \<and> btree_wf m"

lemma named_keys_stream:
  "stream_codec named_keys_valid named_keys_serialized_length named_keys_write_bytes named_keys_from_bytes"
  unfolding named_keys_valid_def [abs_def] named_keys_serialized_length_def named_keys_write_bytes_def named_keys_from_bytes_def
  by (rule stream_btreemap [OF string_stream.stream_codec_axioms key_stream])

lemma action_thresholds_stream:
  "stream_codec (\<lambda>_. True) action_thresholds_serialized_length action_thresholds_write_bytes action_thresholds_from_bytes"
  by (rule stream_map [OF stream_pair [OF weight_stream weight_stream],
        where f = "\<lambda>t. (deployment t, key_management t)" and g = "\<lambda>(d, km). \<lparr>deployment = d, key_management = km\<rparr>"])
    (auto simp: action_thresholds_serialized_length_def weight_serialized_length_def action_thresholds_write_bytes_def
      entry_write_bytes_def action_thresholds_from_bytes_def fb_map_def entry_from_bytes_def res_bind_assoc split_def)

definition account_valid :: "account \<Rightarrow> bool" where
  "account_valid a \<longleftrightarrow> length (acc_hash a) = 32 \<and> named_keys_valid (acc_named_keys a) \<and> uref_valid (acc_main_purse a) \<and>
     associated_keys_valid (acc_associated_keys a)"

lemma account_stream: "stream_codec account_valid account_serialized_length account_write_bytes account_from_bytes"
  by (rule stream_map [OF stream_pair [OF account_hash_stream stream_pair [OF named_keys_stream stream_pair [OF uref_stream
        stream_pair [OF associated_keys_stream action_thresholds_stream]]]],
        where f = "\<lambda>a. (acc_hash a, acc_named_keys a, acc_main_purse a, acc_associated_keys a, acc_thresholds a)"
          and g = "\<lambda>(h, nk, p, ak, t). \<lparr>acc_hash = h, acc_named_keys = nk, acc_main_purse = p, acc_associated_keys = ak,
            acc_thresholds = t\<rparr>"])
    (auto simp: account_valid_def account_serialized_length_def account_write_bytes_def entry_write_bytes_def [abs_def]
      account_from_bytes_def fb_map_def entry_from_bytes_def res_bind_assoc split_def)

interpretation account_writer: bytes_writer account_valid account_serialized_length account_to_bytes account_write_bytes
  account_from_bytes
  by (rule bytes_writer_struct [OF account_stream]) (simp add: account_to_bytes_def account_write_bytes_def [abs_def])

section \<open>Total weights\<close>

definition key_weight :: "associated_keys \<Rightarrow> account_hash \<Rightarrow> nat" where
  "key_weight m k = (case map_of m k of Some w \<Rightarrow> unat w | None \<Rightarrow> 0)"

definition mass :: "associated_keys \<Rightarrow> nat" where
  "mass m = sum_list (map (\<lambda>(_, w). unat w) m)"

lemma unat_u8_le: "unat (a :: u8) \<le> 255"
proof -
  have "unat a < 256" using unat_lt2p [of a] by simp
  then show ?thesis by linarith
qed

lemma unat_fold_saturating: "unat (foldl u8_saturating_add acc ws) = min 255 (unat acc + sum_list (map unat ws))"
proof (induction ws arbitrary: acc)
  case Nil
  show ?case using unat_u8_le [of acc] by simp
next
  case (Cons w ws)
  then show ?case by (simp add: unat_u8_saturating_add)
qed

lemma unat_any_keys_weight:
  "unat (calculate_any_keys_weight m keys) = min 255 (sum_list (map (key_weight m) keys))"
proof -
  have "sum_list (map unat (List.map_filter (map_of m) keys)) = sum_list (map (key_weight m) keys)"
    by (induction keys) (auto simp: key_weight_def List.map_filter_simps split: option.splits)
  then show ?thesis by (simp add: calculate_any_keys_weight_def unat_fold_saturating)
qed

lemma mass_insert:
  "btree_wf m \<Longrightarrow> mass (btree_insert k w m) + key_weight m k = mass m + unat w"
proof (induction k w m rule: btree_insert.induct)
  case (2 k w k' w' m)
  have "map_of m k = None" if "k < k'" using 2(2) that by (auto simp: map_of_eq_None_iff)
  moreover have "map_of m k = None" if "k = k'" using 2(2) that by (auto simp: map_of_eq_None_iff)
  ultimately show ?case using 2 by (auto simp: mass_def key_weight_def)
qed (simp add: mass_def key_weight_def)

lemma mass_remove: "btree_wf m \<Longrightarrow> mass (btree_remove k m) + key_weight m k = mass m"
proof (induction m)
  case (Cons kw m)
  obtain k' w where kw: "kw = (k', w)" by (cases kw)
  have "btree_remove k m = m \<and> map_of m k = None" if "k = k'"
    using Cons.prems that kw by (auto simp: btree_remove_def map_of_eq_None_iff intro!: filter_True)
  with Cons kw show ?case by (auto simp: mass_def key_weight_def btree_remove_def)
qed (simp add: mass_def key_weight_def btree_remove_def)

lemma key_weight_Cons: "fst kw \<noteq> k \<Longrightarrow> key_weight (kw # m) k = key_weight m k"
  by (simp add: key_weight_def)

lemma mass_eq: "btree_wf m \<Longrightarrow> sum_list (map (key_weight m) (map fst m)) = mass m"
proof (induction m)
  case (Cons kw m)
  then have "fst kw \<notin> fst ` set m" by auto
  then have "map (key_weight (kw # m)) (map fst m) = map (key_weight m) (map fst m)"
    by (intro map_cong refl key_weight_Cons) auto
  moreover have "key_weight (kw # m) (fst kw) = unat (snd kw)" by (simp add: key_weight_def)
  ultimately show ?case using Cons by (simp add: mass_def split_def del: map_map map_eq_conv)
qed (simp add: mass_def)

lemma mass_excluding:
  assumes "btree_wf m"
  shows "sum_list (map (key_weight m) (filter (\<lambda>e. e \<noteq> k) (map fst m))) = mass (btree_remove k m)"
proof -
  have "key_weight m e = key_weight (btree_remove k m) e" if "e \<noteq> k" for e
    using that btree.get_remove [of k m] by (simp add: key_weight_def)
  then have "map (key_weight m) (filter (\<lambda>e. e \<noteq> k) (map fst m)) =
      map (key_weight (btree_remove k m)) (map fst (btree_remove k m))"
    by (auto simp: btree_remove_def filter_map comp_def split_def intro!: map_cong filter_cong)
  with mass_eq [OF btree.wf_remove [OF assms]] show ?thesis by metis
qed

lemma unat_total: "btree_wf m \<Longrightarrow> unat (total_keys_weight m) = min 255 (mass m)"
  using mass_eq [of m] by (simp add: total_keys_weight_def unat_any_keys_weight del: map_map)

lemma unat_total_excluding: "btree_wf m \<Longrightarrow> unat (total_keys_weight_excluding m k) = min 255 (mass (btree_remove k m))"
  using mass_excluding [of m k] by (simp add: total_keys_weight_excluding_def unat_any_keys_weight)

section \<open>The account stays manageable\<close>

definition account_inv :: "account \<Rightarrow> bool" where
  "account_inv a \<longleftrightarrow> btree_wf (acc_associated_keys a) \<and> deployment (acc_thresholds a) \<le> key_management (acc_thresholds a) \<and>
     unat (key_management (acc_thresholds a)) \<le> mass (acc_associated_keys a)"

lemma threshold_le_min: "(a :: u8) \<le> b \<longleftrightarrow> unat a \<le> unat b"
  by (simp add: word_le_nat_alt)

lemma add_associated_key_inv: "account_inv a \<Longrightarrow> add_associated_key a h w = Ok a' \<Longrightarrow> account_inv a'"
  using mass_insert [of "acc_associated_keys a" h w]
  by (auto simp: account_inv_def add_associated_key_def add_key_def res_simps key_weight_def btree_wf_insert
    split: option.splits)

lemma remove_associated_key_inv: "account_inv a \<Longrightarrow> remove_associated_key a h = Ok a' \<Longrightarrow> account_inv a'"
  by (auto simp: account_inv_def remove_associated_key_def remove_key_def res_simps contains_key_def can_remove_key_def
    threshold_le_min unat_total_excluding btree.wf_remove split: option.splits if_splits)

lemma update_associated_key_inv: "account_inv a \<Longrightarrow> update_associated_key a h w = Ok a' \<Longrightarrow> account_inv a'"
proof -
  assume inv: "account_inv a" and u: "update_associated_key a h w = Ok a'"
  let ?m = "acc_associated_keys a"
  from u obtain w0 where w0: "map_of ?m h = Some w0" and a': "a' = a\<lparr>acc_associated_keys := btree_insert h w ?m\<rparr>"
    and c: "w < w0 \<Longrightarrow> can_update_key a h w"
    by (auto simp: update_associated_key_def update_key_def res_simps split: option.splits if_splits)
  from inv have wf: "btree_wf ?m" by (simp add: account_inv_def)
  have m: "mass (btree_insert h w ?m) = mass (btree_remove h ?m) + unat w" "mass (btree_insert h w ?m) + unat w0 = mass ?m + unat w"
    using mass_insert [OF wf, of h w] mass_remove [OF wf, of h] w0 by (simp_all add: key_weight_def)
  have "unat (key_management (acc_thresholds a)) \<le> mass (btree_insert h w ?m)"
  proof (cases "w < w0")
    case True
    from c [OF True] wf m(1) show ?thesis
      by (auto simp: can_update_key_def Let_def threshold_le_min unat_u8_saturating_add unat_total_excluding)
  next
    case False
    then have "unat w0 \<le> unat w" by (simp add: word_less_nat_alt)
    with m(2) inv show ?thesis by (simp add: account_inv_def)
  qed
  with inv a' wf show ?thesis by (simp add: account_inv_def btree_wf_insert)
qed

lemma set_action_threshold_inv: "account_inv a \<Longrightarrow> set_action_threshold a t w = Ok a' \<Longrightarrow> account_inv a'"
  by (cases t)
    (auto simp: account_inv_def set_action_threshold_def can_set_threshold_def Let_def res_simps set_deployment_threshold_def
      set_key_management_threshold_def threshold_le_min not_less unat_total split: if_splits)

inductive account_step :: "account \<Rightarrow> account \<Rightarrow> bool" where
  add: "add_associated_key a h w = Ok a' \<Longrightarrow> account_step a a'"
| remove: "remove_associated_key a h = Ok a' \<Longrightarrow> account_step a a'"
| update: "update_associated_key a h w = Ok a' \<Longrightarrow> account_step a a'"
| threshold: "set_action_threshold a t w = Ok a' \<Longrightarrow> account_step a a'"
| names: "account_step a (named_keys_append a keys)"

lemma account_step_inv: "account_step a a' \<Longrightarrow> account_inv a \<Longrightarrow> account_inv a'"
proof (induction rule: account_step.induct)
  case (names a keys)
  then show ?case by (simp add: named_keys_append_def account_inv_def)
qed (blast intro: add_associated_key_inv remove_associated_key_inv update_associated_key_inv set_action_threshold_inv)+

lemma account_create_inv: "account_inv (account_create h nk p)"
  by (simp add: account_inv_def account_create_def associated_keys_new_def action_thresholds_default_def mass_def)

lemma account_reachable_inv: "account_step\<^sup>*\<^sup>* a a' \<Longrightarrow> account_inv a \<Longrightarrow> account_inv a'"
  by (induction rule: rtranclp_induct) (auto intro: account_step_inv)

lemma can_manage_iff:
  "can_manage_keys_with a keys \<longleftrightarrow>
     unat (key_management (acc_thresholds a)) \<le> sum_list (map (key_weight (acc_associated_keys a)) keys)"
  using unat_u8_le [of "key_management (acc_thresholds a)"]
  by (simp add: can_manage_keys_with_def calculate_keys_weight_def threshold_le_min unat_any_keys_weight)

lemma can_deploy_iff:
  "can_deploy_with a keys \<longleftrightarrow>
     unat (deployment (acc_thresholds a)) \<le> sum_list (map (key_weight (acc_associated_keys a)) keys)"
  using unat_u8_le [of "deployment (acc_thresholds a)"]
  by (simp add: can_deploy_with_def calculate_keys_weight_def threshold_le_min unat_any_keys_weight)


definition ex_account :: account where
  "ex_account = account_create [1] [] (uref_new [7] AR_READ_ADD_WRITE)"

definition ex_account2 :: account where
  "ex_account2 = ex_account\<lparr>acc_associated_keys := [([1], 1), ([2], 3)]\<rparr>"

lemma ex_account_step: "account_step ex_account ex_account2"
proof (rule account_step.add)
  show "add_associated_key ex_account [2] 3 = Ok ex_account2"
    by (simp add: ex_account_def ex_account2_def add_associated_key_def add_key_def account_create_def associated_keys_new_def)
qed


text \<open>C37: Weights are bytes and sums saturate, but saturation never admits or rejects a set of keys wrongly: the test
  compares the threshold with the exact sum of the weights.\<close>
theorem can_manage_keys_exact:
  "(can_manage_keys_with a keys \<longleftrightarrow>
     unat (key_management (acc_thresholds a)) \<le> sum_list (map (key_weight (acc_associated_keys a)) keys)) \<and>
   (can_deploy_with a keys \<longleftrightarrow>
     unat (deployment (acc_thresholds a)) \<le> sum_list (map (key_weight (acc_associated_keys a)) keys))"
  using can_manage_iff can_deploy_iff by blast

end
