(* ===== verification/Cl_Values.thy ===== *)
theory Cl_Values
  imports Struct_Codec
begin

text \<open>
  The types and values of contracts: \<^verbatim>\<open>types/src/cl_type.rs\<close> and \<^verbatim>\<open>types/src/cl_value.rs\<close>. A \<open>CLValue\<close> is the
  serialised form of a value with a description of its type. The decoder of types is recursive and stops with an error at
  the depth \<open>CL_TYPE_RECURSION_DEPTH\<close>; it is a total function here, the depth being its measure.
\<close>

section \<open>Types\<close>

definition CL_TYPE_RECURSION_DEPTH :: nat where "CL_TYPE_RECURSION_DEPTH = 50"

definition CL_TYPE_TAG_BOOL :: u8 where "CL_TYPE_TAG_BOOL = 0"
definition CL_TYPE_TAG_I32 :: u8 where "CL_TYPE_TAG_I32 = 1"
definition CL_TYPE_TAG_I64 :: u8 where "CL_TYPE_TAG_I64 = 2"
definition CL_TYPE_TAG_U8 :: u8 where "CL_TYPE_TAG_U8 = 3"
definition CL_TYPE_TAG_U32 :: u8 where "CL_TYPE_TAG_U32 = 4"
definition CL_TYPE_TAG_U64 :: u8 where "CL_TYPE_TAG_U64 = 5"
definition CL_TYPE_TAG_U128 :: u8 where "CL_TYPE_TAG_U128 = 6"
definition CL_TYPE_TAG_U256 :: u8 where "CL_TYPE_TAG_U256 = 7"
definition CL_TYPE_TAG_U512 :: u8 where "CL_TYPE_TAG_U512 = 8"
definition CL_TYPE_TAG_UNIT :: u8 where "CL_TYPE_TAG_UNIT = 9"
definition CL_TYPE_TAG_STRING :: u8 where "CL_TYPE_TAG_STRING = 10"
definition CL_TYPE_TAG_KEY :: u8 where "CL_TYPE_TAG_KEY = 11"
definition CL_TYPE_TAG_UREF :: u8 where "CL_TYPE_TAG_UREF = 12"
definition CL_TYPE_TAG_OPTION :: u8 where "CL_TYPE_TAG_OPTION = 13"
definition CL_TYPE_TAG_LIST :: u8 where "CL_TYPE_TAG_LIST = 14"
definition CL_TYPE_TAG_BYTE_ARRAY :: u8 where "CL_TYPE_TAG_BYTE_ARRAY = 15"
definition CL_TYPE_TAG_RESULT :: u8 where "CL_TYPE_TAG_RESULT = 16"
definition CL_TYPE_TAG_MAP :: u8 where "CL_TYPE_TAG_MAP = 17"
definition CL_TYPE_TAG_TUPLE1 :: u8 where "CL_TYPE_TAG_TUPLE1 = 18"
definition CL_TYPE_TAG_TUPLE2 :: u8 where "CL_TYPE_TAG_TUPLE2 = 19"
definition CL_TYPE_TAG_TUPLE3 :: u8 where "CL_TYPE_TAG_TUPLE3 = 20"
definition CL_TYPE_TAG_ANY :: u8 where "CL_TYPE_TAG_ANY = 21"
definition CL_TYPE_TAG_PUBLIC_KEY :: u8 where "CL_TYPE_TAG_PUBLIC_KEY = 22"

lemmas cl_tag_defs = CL_TYPE_TAG_BOOL_def CL_TYPE_TAG_I32_def CL_TYPE_TAG_I64_def CL_TYPE_TAG_U8_def CL_TYPE_TAG_U32_def
  CL_TYPE_TAG_U64_def CL_TYPE_TAG_U128_def CL_TYPE_TAG_U256_def CL_TYPE_TAG_U512_def CL_TYPE_TAG_UNIT_def
  CL_TYPE_TAG_STRING_def CL_TYPE_TAG_KEY_def CL_TYPE_TAG_UREF_def CL_TYPE_TAG_OPTION_def CL_TYPE_TAG_LIST_def
  CL_TYPE_TAG_BYTE_ARRAY_def CL_TYPE_TAG_RESULT_def CL_TYPE_TAG_MAP_def CL_TYPE_TAG_TUPLE1_def CL_TYPE_TAG_TUPLE2_def
  CL_TYPE_TAG_TUPLE3_def CL_TYPE_TAG_ANY_def CL_TYPE_TAG_PUBLIC_KEY_def

datatype cl_type =
    CLBool | CLI32 | CLI64 | CLU8 | CLU32 | CLU64 | CLU128 | CLU256 | CLU512 | CLUnit | CLString | CLKey | CLURef
  | CLPublicKey
  | CLOption cl_type
  | CLList cl_type
  | CLByteArray u32
  | CLResult cl_type cl_type
  | CLMap cl_type cl_type
  | CLTuple1 cl_type
  | CLTuple2 cl_type cl_type
  | CLTuple3 cl_type cl_type cl_type
  | CLAny

fun cl_type_serialized_length :: "cl_type \<Rightarrow> nat" where
  "cl_type_serialized_length (CLOption t) = 1 + cl_type_serialized_length t"
| "cl_type_serialized_length (CLList t) = 1 + cl_type_serialized_length t"
| "cl_type_serialized_length (CLByteArray _) = 1 + 4"
| "cl_type_serialized_length (CLResult a b) = 1 + (cl_type_serialized_length a + cl_type_serialized_length b)"
| "cl_type_serialized_length (CLMap a b) = 1 + (cl_type_serialized_length a + cl_type_serialized_length b)"
| "cl_type_serialized_length (CLTuple1 a) = 1 + cl_type_serialized_length a"
| "cl_type_serialized_length (CLTuple2 a b) = 1 + (cl_type_serialized_length a + cl_type_serialized_length b)"
| "cl_type_serialized_length (CLTuple3 a b c) =
     1 + (cl_type_serialized_length a + cl_type_serialized_length b + cl_type_serialized_length c)"
| "cl_type_serialized_length _ = 1"

definition named_key_type :: cl_type where
  "named_key_type = CLTuple2 CLString CLKey"

fun cl_type_append_bytes :: "cl_type write_bytes" where
  "cl_type_append_bytes CLBool stream = Ok (stream @ [CL_TYPE_TAG_BOOL])"
| "cl_type_append_bytes CLI32 stream = Ok (stream @ [CL_TYPE_TAG_I32])"
| "cl_type_append_bytes CLI64 stream = Ok (stream @ [CL_TYPE_TAG_I64])"
| "cl_type_append_bytes CLU8 stream = Ok (stream @ [CL_TYPE_TAG_U8])"
| "cl_type_append_bytes CLU32 stream = Ok (stream @ [CL_TYPE_TAG_U32])"
| "cl_type_append_bytes CLU64 stream = Ok (stream @ [CL_TYPE_TAG_U64])"
| "cl_type_append_bytes CLU128 stream = Ok (stream @ [CL_TYPE_TAG_U128])"
| "cl_type_append_bytes CLU256 stream = Ok (stream @ [CL_TYPE_TAG_U256])"
| "cl_type_append_bytes CLU512 stream = Ok (stream @ [CL_TYPE_TAG_U512])"
| "cl_type_append_bytes CLUnit stream = Ok (stream @ [CL_TYPE_TAG_UNIT])"
| "cl_type_append_bytes CLString stream = Ok (stream @ [CL_TYPE_TAG_STRING])"
| "cl_type_append_bytes CLKey stream = Ok (stream @ [CL_TYPE_TAG_KEY])"
| "cl_type_append_bytes CLURef stream = Ok (stream @ [CL_TYPE_TAG_UREF])"
| "cl_type_append_bytes CLPublicKey stream = Ok (stream @ [CL_TYPE_TAG_PUBLIC_KEY])"
| "cl_type_append_bytes (CLOption t) stream = cl_type_append_bytes t (stream @ [CL_TYPE_TAG_OPTION])"
| "cl_type_append_bytes (CLList t) stream = cl_type_append_bytes t (stream @ [CL_TYPE_TAG_LIST])"
| "cl_type_append_bytes (CLByteArray len) stream =
     res_bind (u32_to_bytes len) (\<lambda>bs. Ok (stream @ [CL_TYPE_TAG_BYTE_ARRAY] @ bs))"
| "cl_type_append_bytes (CLResult ok err) stream =
     res_bind (cl_type_append_bytes ok (stream @ [CL_TYPE_TAG_RESULT])) (\<lambda>stream. cl_type_append_bytes err stream)"
| "cl_type_append_bytes (CLMap key value) stream =
     res_bind (cl_type_append_bytes key (stream @ [CL_TYPE_TAG_MAP])) (\<lambda>stream. cl_type_append_bytes value stream)"
| "cl_type_append_bytes (CLTuple1 a) stream = cl_type_append_bytes a (stream @ [CL_TYPE_TAG_TUPLE1])"
| "cl_type_append_bytes (CLTuple2 a b) stream =
     res_bind (cl_type_append_bytes a (stream @ [CL_TYPE_TAG_TUPLE2])) (\<lambda>stream. cl_type_append_bytes b stream)"
| "cl_type_append_bytes (CLTuple3 a b c) stream =
     res_bind (cl_type_append_bytes a (stream @ [CL_TYPE_TAG_TUPLE3])) (\<lambda>stream.
     res_bind (cl_type_append_bytes b stream) (\<lambda>stream. cl_type_append_bytes c stream))"
| "cl_type_append_bytes CLAny stream = Ok (stream @ [CL_TYPE_TAG_ANY])"

text \<open>Taking the front of a queue that is known not to be empty.\<close>

fun pop_front :: "'a list \<Rightarrow> ('e, 'a \<times> 'a list) result" where
  "pop_front [] = Panic"
| "pop_front (x # xs) = Ok (x, xs)"

function (sequential) depth_limited_from_bytes :: "nat \<Rightarrow> bytes \<Rightarrow> (bytes_error, cl_type \<times> bytes) result"
  and parse_cl_tuple_types :: "nat \<Rightarrow> nat \<Rightarrow> bytes \<Rightarrow> (bytes_error, cl_type list \<times> bytes) result"
where
  "depth_limited_from_bytes depth bs =
     (if depth \<ge> CL_TYPE_RECURSION_DEPTH then Err ExceededRecursionDepth
      else res_bind (u8_from_bytes bs) (\<lambda>(tag, remainder).
        if tag = CL_TYPE_TAG_BOOL then Ok (CLBool, remainder)
        else if tag = CL_TYPE_TAG_I32 then Ok (CLI32, remainder)
        else if tag = CL_TYPE_TAG_I64 then Ok (CLI64, remainder)
        else if tag = CL_TYPE_TAG_U8 then Ok (CLU8, remainder)
        else if tag = CL_TYPE_TAG_U32 then Ok (CLU32, remainder)
        else if tag = CL_TYPE_TAG_U64 then Ok (CLU64, remainder)
        else if tag = CL_TYPE_TAG_U128 then Ok (CLU128, remainder)
        else if tag = CL_TYPE_TAG_U256 then Ok (CLU256, remainder)
        else if tag = CL_TYPE_TAG_U512 then Ok (CLU512, remainder)
        else if tag = CL_TYPE_TAG_UNIT then Ok (CLUnit, remainder)
        else if tag = CL_TYPE_TAG_STRING then Ok (CLString, remainder)
        else if tag = CL_TYPE_TAG_KEY then Ok (CLKey, remainder)
        else if tag = CL_TYPE_TAG_UREF then Ok (CLURef, remainder)
        else if tag = CL_TYPE_TAG_PUBLIC_KEY then Ok (CLPublicKey, remainder)
        else if tag = CL_TYPE_TAG_OPTION then
          res_bind (depth_limited_from_bytes (depth + 1) remainder) (\<lambda>(inner_type, remainder).
          Ok (CLOption inner_type, remainder))
        else if tag = CL_TYPE_TAG_LIST then
          res_bind (depth_limited_from_bytes (depth + 1) remainder) (\<lambda>(inner_type, remainder).
          Ok (CLList inner_type, remainder))
        else if tag = CL_TYPE_TAG_BYTE_ARRAY then
          res_bind (u32_from_bytes remainder) (\<lambda>(len, remainder). Ok (CLByteArray len, remainder))
        else if tag = CL_TYPE_TAG_RESULT then
          res_bind (depth_limited_from_bytes (depth + 1) remainder) (\<lambda>(ok_type, remainder).
          res_bind (depth_limited_from_bytes (depth + 1) remainder) (\<lambda>(err_type, remainder).
          Ok (CLResult ok_type err_type, remainder)))
        else if tag = CL_TYPE_TAG_MAP then
          res_bind (depth_limited_from_bytes (depth + 1) remainder) (\<lambda>(key_type, remainder).
          res_bind (depth_limited_from_bytes (depth + 1) remainder) (\<lambda>(value_type, remainder).
          Ok (CLMap key_type value_type, remainder)))
        else if tag = CL_TYPE_TAG_TUPLE1 then
          res_bind (parse_cl_tuple_types (depth + 1) 1 remainder) (\<lambda>(inner_types, remainder).
          res_bind (pop_front inner_types) (\<lambda>(a, _). Ok (CLTuple1 a, remainder)))
        else if tag = CL_TYPE_TAG_TUPLE2 then
          res_bind (parse_cl_tuple_types (depth + 1) 2 remainder) (\<lambda>(inner_types, remainder).
          res_bind (pop_front inner_types) (\<lambda>(a, inner_types).
          res_bind (pop_front inner_types) (\<lambda>(b, _). Ok (CLTuple2 a b, remainder))))
        else if tag = CL_TYPE_TAG_TUPLE3 then
          res_bind (parse_cl_tuple_types (depth + 1) 3 remainder) (\<lambda>(inner_types, remainder).
          res_bind (pop_front inner_types) (\<lambda>(a, inner_types).
          res_bind (pop_front inner_types) (\<lambda>(b, inner_types).
          res_bind (pop_front inner_types) (\<lambda>(c, _). Ok (CLTuple3 a b c, remainder)))))
        else if tag = CL_TYPE_TAG_ANY then Ok (CLAny, remainder)
        else Err Formatting))"
| "parse_cl_tuple_types depth 0 bs = Ok ([], bs)"
| "parse_cl_tuple_types depth (Suc count) bs =
     res_bind (depth_limited_from_bytes depth bs) (\<lambda>(cl_type, remainder).
     res_bind (parse_cl_tuple_types depth count remainder) (\<lambda>(cl_types, remainder).
     Ok (cl_type # cl_types, remainder)))"
  by pat_completeness auto
termination
  by (relation "measures [\<lambda>x. case x of Inl (d, _) \<Rightarrow> CL_TYPE_RECURSION_DEPTH - d | Inr (d, _, _) \<Rightarrow> CL_TYPE_RECURSION_DEPTH - d,
      \<lambda>x. case x of Inl _ \<Rightarrow> 0 | Inr (_, n, _) \<Rightarrow> n]") auto

declare depth_limited_from_bytes.simps [simp del]

definition cl_type_from_bytes :: "cl_type from_bytes" where
  "cl_type_from_bytes bs = depth_limited_from_bytes 0 bs"

section \<open>Values\<close>

record cl_value =
  cl_value_type :: cl_type
  cl_value_bytes :: bytes

datatype cl_value_error = CLSerialization bytes_error | CLTypeMismatch cl_type cl_type

definition cl_value_from_t :: "cl_type \<Rightarrow> 'a to_bytes \<Rightarrow> 'a \<Rightarrow> (cl_value_error, cl_value) result" where
  "cl_value_from_t ty tb t =
     (case tb t of
        Ok bs \<Rightarrow> Ok \<lparr>cl_value_type = ty, cl_value_bytes = bs\<rparr>
      | Err e \<Rightarrow> Err (CLSerialization e)
      | Panic \<Rightarrow> Panic)"

definition cl_value_into_t :: "cl_type \<Rightarrow> 'a from_bytes \<Rightarrow> cl_value \<Rightarrow> (cl_value_error, 'a) result" where
  "cl_value_into_t expected fb self =
     (if cl_value_type self = expected then
        (case deserialize_from_slice fb (cl_value_bytes self) of
           Ok t \<Rightarrow> Ok t | Err e \<Rightarrow> Err (CLSerialization e) | Panic \<Rightarrow> Panic)
      else Err (CLTypeMismatch expected (cl_value_type self)))"

definition cl_value_unit :: cl_value where
  "cl_value_unit = \<lparr>cl_value_type = CLUnit, cl_value_bytes = []\<rparr>"

definition cl_value_serialized_length :: "cl_value \<Rightarrow> nat" where
  "cl_value_serialized_length self =
     u8_slice_serialized_length (cl_value_bytes self) + cl_type_serialized_length (cl_value_type self)"

definition cl_value_to_bytes :: "(nat \<Rightarrow> bool) \<Rightarrow> cl_value to_bytes" where
  "cl_value_to_bytes alloc self =
     res_bind (Bytes_to_bytes alloc (cl_value_bytes self)) (\<lambda>result. cl_type_append_bytes (cl_value_type self) result)"

definition cl_value_write_bytes :: "cl_value write_bytes" where
  "cl_value_write_bytes self writer =
     res_bind (write_u8_slice (cl_value_bytes self) writer) (\<lambda>writer. cl_type_append_bytes (cl_value_type self) writer)"

definition cl_value_from_bytes :: "cl_value from_bytes" where
  "cl_value_from_bytes bs =
     res_bind (Bytes_from_bytes bs) (\<lambda>(bytes, remainder).
     res_bind (cl_type_from_bytes remainder) (\<lambda>(cl_type, remainder).
     Ok (\<lparr>cl_value_type = cl_type, cl_value_bytes = bytes\<rparr>, remainder)))"

section \<open>The encoding of types\<close>

fun cl_type_depth :: "cl_type \<Rightarrow> nat" where
  "cl_type_depth (CLOption t) = Suc (cl_type_depth t)"
| "cl_type_depth (CLList t) = Suc (cl_type_depth t)"
| "cl_type_depth (CLResult a b) = Suc (max (cl_type_depth a) (cl_type_depth b))"
| "cl_type_depth (CLMap a b) = Suc (max (cl_type_depth a) (cl_type_depth b))"
| "cl_type_depth (CLTuple1 a) = Suc (cl_type_depth a)"
| "cl_type_depth (CLTuple2 a b) = Suc (max (cl_type_depth a) (cl_type_depth b))"
| "cl_type_depth (CLTuple3 a b c) = Suc (max (cl_type_depth a) (max (cl_type_depth b) (cl_type_depth c)))"
| "cl_type_depth _ = 1"

fun cl_type_code :: "cl_type \<Rightarrow> bytes" where
  "cl_type_code CLBool = [CL_TYPE_TAG_BOOL]"
| "cl_type_code CLI32 = [CL_TYPE_TAG_I32]"
| "cl_type_code CLI64 = [CL_TYPE_TAG_I64]"
| "cl_type_code CLU8 = [CL_TYPE_TAG_U8]"
| "cl_type_code CLU32 = [CL_TYPE_TAG_U32]"
| "cl_type_code CLU64 = [CL_TYPE_TAG_U64]"
| "cl_type_code CLU128 = [CL_TYPE_TAG_U128]"
| "cl_type_code CLU256 = [CL_TYPE_TAG_U256]"
| "cl_type_code CLU512 = [CL_TYPE_TAG_U512]"
| "cl_type_code CLUnit = [CL_TYPE_TAG_UNIT]"
| "cl_type_code CLString = [CL_TYPE_TAG_STRING]"
| "cl_type_code CLKey = [CL_TYPE_TAG_KEY]"
| "cl_type_code CLURef = [CL_TYPE_TAG_UREF]"
| "cl_type_code CLPublicKey = [CL_TYPE_TAG_PUBLIC_KEY]"
| "cl_type_code (CLOption t) = CL_TYPE_TAG_OPTION # cl_type_code t"
| "cl_type_code (CLList t) = CL_TYPE_TAG_LIST # cl_type_code t"
| "cl_type_code (CLByteArray n) = CL_TYPE_TAG_BYTE_ARRAY # to_le_bytes 4 n"
| "cl_type_code (CLResult a b) = CL_TYPE_TAG_RESULT # cl_type_code a @ cl_type_code b"
| "cl_type_code (CLMap a b) = CL_TYPE_TAG_MAP # cl_type_code a @ cl_type_code b"
| "cl_type_code (CLTuple1 a) = CL_TYPE_TAG_TUPLE1 # cl_type_code a"
| "cl_type_code (CLTuple2 a b) = CL_TYPE_TAG_TUPLE2 # cl_type_code a @ cl_type_code b"
| "cl_type_code (CLTuple3 a b c) = CL_TYPE_TAG_TUPLE3 # cl_type_code a @ cl_type_code b @ cl_type_code c"
| "cl_type_code CLAny = [CL_TYPE_TAG_ANY]"

lemma cl_type_append: "cl_type_append_bytes t w = Ok (w @ cl_type_code t)"
  by (induction t arbitrary: w) (simp_all add: u32_to_bytes_def le_to_bytes_def)

lemma length_cl_type_code: "length (cl_type_code t) = cl_type_serialized_length t"
  by (induction t) simp_all

lemma cl_type_depth_pos: "0 < cl_type_depth t"
  by (cases t) simp_all

lemma parse_tuple_counts:
  "parse_cl_tuple_types d 1 bs = parse_cl_tuple_types d (Suc 0) bs"
  "parse_cl_tuple_types d 2 bs = parse_cl_tuple_types d (Suc (Suc 0)) bs"
  "parse_cl_tuple_types d 3 bs = parse_cl_tuple_types d (Suc (Suc (Suc 0))) bs"
  by (simp_all only: One_nat_def numeral_2_eq_2 numeral_3_eq_3)

lemma cl_type_decode:
  "depth_limited_from_bytes d (cl_type_code t @ rest) =
     (if d + cl_type_depth t \<le> CL_TYPE_RECURSION_DEPTH then Ok (t, rest) else Err ExceededRecursionDepth)"
  by (induction t arbitrary: d rest)
    (simp_all add: depth_limited_from_bytes.simps [of _ "tag # remainder" for tag remainder] parse_tuple_counts cl_tag_defs max_def)

lemma cl_type_stream:
  "stream_codec (\<lambda>t. cl_type_depth t \<le> CL_TYPE_RECURSION_DEPTH) cl_type_serialized_length cl_type_append_bytes cl_type_from_bytes"
  by unfold_locales
    (auto simp: cl_type_append length_cl_type_code cl_type_from_bytes_def cl_type_decode)

lemma bytes_stream: "stream_codec (\<lambda>_. True) u8_slice_serialized_length write_u8_slice Bytes_from_bytes"
  by (rule stream_codec.intro) (rule Bytes_writer.wb_sound)

definition cl_value_valid :: "cl_value \<Rightarrow> bool" where
  "cl_value_valid v \<longleftrightarrow> cl_type_depth (cl_value_type v) \<le> CL_TYPE_RECURSION_DEPTH"

lemma cl_value_stream: "stream_codec cl_value_valid cl_value_serialized_length cl_value_write_bytes cl_value_from_bytes"
  by (rule stream_map [OF stream_pair [OF bytes_stream cl_type_stream],
        where f = "\<lambda>v. (cl_value_bytes v, cl_value_type v)" and g = "\<lambda>(b, t). \<lparr>cl_value_type = t, cl_value_bytes = b\<rparr>"])
    (auto simp: cl_value_valid_def cl_value_serialized_length_def cl_value_write_bytes_def entry_write_bytes_def
      cl_value_from_bytes_def fb_map_def entry_from_bytes_def res_bind_assoc split_def)

interpretation cl_value_writer: bytes_writer cl_value_valid cl_value_serialized_length "cl_value_to_bytes alloc"
  cl_value_write_bytes cl_value_from_bytes for alloc
proof (rule bytes_writerI, rule bytesreprI, goal_cases)
  case (1 x bs)
  then obtain b where "Bytes_to_bytes alloc (cl_value_bytes x) = Ok b" "bs = b @ cl_type_code (cl_value_type x)"
    by (auto simp: cl_value_to_bytes_def cl_type_append res_simps)
  then show ?case using Bytes_repr.tb_length [of alloc "cl_value_bytes x" b]
    by (simp add: cl_value_serialized_length_def length_cl_type_code)
next
  case (2 x bs w)
  then obtain b where "Bytes_to_bytes alloc (cl_value_bytes x) = Ok b" "bs = b @ cl_type_code (cl_value_type x)"
    by (auto simp: cl_value_to_bytes_def cl_type_append res_simps)
  then show ?case using Bytes_repr.tb_write [of alloc "cl_value_bytes x" b w]
    by (simp add: cl_value_write_bytes_def cl_type_append)
next
  case (3 x bs rest)
  then obtain b where "Bytes_to_bytes alloc (cl_value_bytes x) = Ok b" "bs = b @ cl_type_code (cl_value_type x)"
    by (auto simp: cl_value_to_bytes_def cl_type_append res_simps)
  then show ?case using Bytes_repr.roundtrip [of alloc "cl_value_bytes x" b "cl_type_code (cl_value_type x) @ rest"] 3(1)
    by (simp add: cl_value_from_bytes_def cl_type_from_bytes_def cl_type_decode cl_value_valid_def)
next
  case (4 x w out)
  then show ?case by (rule stream_codec.stream [OF cl_value_stream])
qed

lemma into_from_t:
  assumes "bytesrepr valid sl tb wb fb" "valid x" "cl_value_from_t ty tb x = Ok v"
  shows "cl_value_into_t ty fb v = Ok x"
  using assms bytesrepr.roundtrip_from_slice [OF assms(1,2)]
  by (auto simp: cl_value_from_t_def cl_value_into_t_def split: result.splits)

end
