(* ===== verification/Contracts.thy ===== *)
theory Contracts
  imports Accounts Cl_Values "HOL-Library.Product_Lexorder"
begin

text \<open>
  Contracts and their packages: \<^verbatim>\<open>types/src/contracts.rs\<close>, \<^verbatim>\<open>types/src/contract_wasm.rs\<close>, \<^verbatim>\<open>types/src/semver.rs\<close>
  and \<^verbatim>\<open>types/src/protocol_version.rs\<close>. The hashes are lists of 32 bytes. The sizes and alignments of Rust types, which
  only decide whether a vector can be allocated, and the allocator are a parameter, \<open>heap\<close>.
\<close>

record heap =
  heap_alloc :: "nat \<Rightarrow> bool"
  heap_size :: "string \<Rightarrow> nat"
  heap_align :: "string \<Rightarrow> nat"

section \<open>Versions\<close>

record sem_ver =
  sv_major :: u32
  sv_minor :: u32
  sv_patch :: u32

type_synonym protocol_version = sem_ver

definition sem_ver_new :: "u32 \<Rightarrow> u32 \<Rightarrow> u32 \<Rightarrow> sem_ver" where
  "sem_ver_new a b c = \<lparr>sv_major = a, sv_minor = b, sv_patch = c\<rparr>"

definition sem_ver_to_bytes :: "sem_ver to_bytes" where
  "sem_ver_to_bytes self =
     res_bind (u32_to_bytes (sv_major self)) (\<lambda>a.
     res_bind (u32_to_bytes (sv_minor self)) (\<lambda>b.
     res_bind (u32_to_bytes (sv_patch self)) (\<lambda>c. Ok (a @ b @ c))))"

definition sem_ver_serialized_length :: "sem_ver \<Rightarrow> nat" where
  "sem_ver_serialized_length self = 3 * 4"

definition sem_ver_from_bytes :: "sem_ver from_bytes" where
  "sem_ver_from_bytes bs =
     res_bind (u32_from_bytes bs) (\<lambda>(a, rem).
     res_bind (u32_from_bytes rem) (\<lambda>(b, rem).
     res_bind (u32_from_bytes rem) (\<lambda>(c, rem). Ok (sem_ver_new a b c, rem))))"

datatype parse_sem_ver_error = InvalidVersionFormat | ParseIntError parse_int_error

fun split_char :: "char \<Rightarrow> string \<Rightarrow> string list" where
  "split_char c [] = [[]]"
| "split_char c (d # ds) =
     (if d = c then [] # split_char c ds
      else (case split_char c ds of p # ps \<Rightarrow> (d # p) # ps | [] \<Rightarrow> []))"

definition u32_parse :: "string \<Rightarrow> (parse_int_error, u32) result" where
  "u32_parse s = res_bind (from_str_radix (2 ^ 32 - 1) 10 s) (\<lambda>n. Ok (word_of_nat n))"

definition u32_show :: "u32 \<Rightarrow> string" where
  "u32_show n = show_radix 10 (unat n)"

definition sem_ver_fmt :: "sem_ver \<Rightarrow> string" where
  "sem_ver_fmt self = u32_show (sv_major self) @ ''.'' @ u32_show (sv_minor self) @ ''.'' @ u32_show (sv_patch self)"

definition sem_ver_try_from :: "string \<Rightarrow> (parse_sem_ver_error, sem_ver) result" where
  "sem_ver_try_from value =
     (let tokens = split_char (CHR ''.'') value in
      if length tokens \<noteq> 3 then Err InvalidVersionFormat
      else res_bind (map_err ParseIntError (u32_parse (tokens ! 0))) (\<lambda>a.
        res_bind (map_err ParseIntError (u32_parse (tokens ! 1))) (\<lambda>b.
        res_bind (map_err ParseIntError (u32_parse (tokens ! 2))) (\<lambda>c. Ok (sem_ver_new a b c)))))"

datatype version_check_result = VersionValid bool | VersionInvalid

definition check_next_version :: "protocol_version \<Rightarrow> protocol_version \<Rightarrow> version_check_result" where
  "check_next_version self next =
     (let major_bumped = (if sv_major self = - 1 then - 1 else sv_major self + 1) in
      if sv_major next < sv_major self \<or> sv_major next > major_bumped then VersionInvalid
      else if sv_major next = major_bumped then VersionValid True
      else if sv_minor next < sv_minor self then VersionInvalid
      else if sv_minor next > sv_minor self then VersionValid False
      else if sv_patch next \<le> sv_patch self then VersionInvalid
      else VersionValid False)"

definition is_compatible_with :: "protocol_version \<Rightarrow> protocol_version \<Rightarrow> bool" where
  "is_compatible_with self version \<longleftrightarrow> sv_major self = sv_major version"

definition protocol_version_write_bytes :: "protocol_version write_bytes" where
  "protocol_version_write_bytes self writer =
     Ok (writer @ to_le_bytes 4 (sv_major self) @ to_le_bytes 4 (sv_minor self) @ to_le_bytes 4 (sv_patch self))"

definition protocol_version_from_bytes :: "protocol_version from_bytes" where
  "protocol_version_from_bytes bs = res_bind (sem_ver_from_bytes bs) (\<lambda>(version, rem). Ok (version, rem))"

section \<open>Contract packages\<close>

datatype contracts_error =
    PreviouslyUsedVersion | ContractNotFound | GroupAlreadyExists | MaxGroupsExceeded | MaxTotalURefsExceeded
  | GroupDoesNotExist | UnableToRemoveURef | GroupInUse | URefAlreadyExists

definition contracts_error_try_from :: "u8 \<Rightarrow> (unit, contracts_error) result" where
  "contracts_error_try_from value =
     (if value = 1 then Ok PreviouslyUsedVersion else if value = 2 then Ok ContractNotFound
      else if value = 3 then Ok GroupAlreadyExists else if value = 4 then Ok MaxGroupsExceeded
      else if value = 5 then Ok MaxTotalURefsExceeded else if value = 6 then Ok GroupDoesNotExist
      else if value = 7 then Ok UnableToRemoveURef else if value = 8 then Ok GroupInUse
      else if value = 9 then Ok URefAlreadyExists else Err ())"

type_synonym group = bytes
type_synonym contract_version_key = "u32 \<times> u32"
type_synonym contract_hash = bytes
type_synonym contract_package_hash = bytes
type_synonym contract_wasm_hash = bytes
type_synonym contract_versions = "(contract_version_key \<times> contract_hash) list"
type_synonym disabled_versions = "contract_version_key list"
type_synonym groups = "(group \<times> uref list) list"

text \<open>References are ordered by address, then by access rights, as the derived \<open>Ord\<close> orders them.\<close>

instantiation uref_ext :: (linorder) linorder
begin

definition less_eq_uref_ext :: "'a uref_ext \<Rightarrow> 'a uref_ext \<Rightarrow> bool" where
  "less_eq_uref_ext x y \<longleftrightarrow>
     (uref_addr x, uref_access_rights x, uref.more x) \<le> (uref_addr y, uref_access_rights y, uref.more y)"

definition less_uref_ext :: "'a uref_ext \<Rightarrow> 'a uref_ext \<Rightarrow> bool" where
  "less_uref_ext x y \<longleftrightarrow>
     (uref_addr x, uref_access_rights x, uref.more x) < (uref_addr y, uref_access_rights y, uref.more y)"

instance
proof
  fix x y z :: "'a uref_ext"
  show "x < y \<longleftrightarrow> x \<le> y \<and> \<not> y \<le> x" unfolding less_eq_uref_ext_def less_uref_ext_def by (rule less_le_not_le)
  show "x \<le> x" unfolding less_eq_uref_ext_def by (rule order.refl)
  show "x \<le> y \<Longrightarrow> y \<le> z \<Longrightarrow> x \<le> z" unfolding less_eq_uref_ext_def by (rule order.trans)
  show "x \<le> y \<Longrightarrow> y \<le> x \<Longrightarrow> x = y"
    unfolding less_eq_uref_ext_def by (drule (1) order.antisym) (simp add: uref.equality)
  show "x \<le> y \<or> y \<le> x" unfolding less_eq_uref_ext_def by (rule linear)
qed

end

datatype contract_package_status = Locked | Unlocked

definition contract_package_status_new :: "bool \<Rightarrow> contract_package_status" where
  "contract_package_status_new is_locked = (if is_locked then Locked else Unlocked)"

definition contract_package_status_write_bytes :: "contract_package_status write_bytes" where
  "contract_package_status_write_bytes self writer = Ok (writer @ [case self of Locked \<Rightarrow> 1 | Unlocked \<Rightarrow> 0])"

definition contract_package_status_serialized_length :: "contract_package_status \<Rightarrow> nat" where
  "contract_package_status_serialized_length self = 1"

definition contract_package_status_from_bytes :: "contract_package_status from_bytes" where
  "contract_package_status_from_bytes bs =
     res_bind (bool_from_bytes bs) (\<lambda>(val, bytes). Ok (contract_package_status_new val, bytes))"

record contract_package =
  cp_access_key :: uref
  cp_versions :: contract_versions
  cp_disabled_versions :: disabled_versions
  cp_groups :: groups
  cp_lock_status :: contract_package_status

definition contract_package_new ::
  "uref \<Rightarrow> contract_versions \<Rightarrow> disabled_versions \<Rightarrow> groups \<Rightarrow> contract_package_status \<Rightarrow> contract_package" where
  "contract_package_new access_key versions disabled groups lock =
     \<lparr>cp_access_key = access_key, cp_versions = versions, cp_disabled_versions = disabled, cp_groups = groups,
      cp_lock_status = lock\<rparr>"

definition add_group :: "contract_package \<Rightarrow> group \<Rightarrow> uref list \<Rightarrow> contract_package" where
  "add_group self label urefs =
     (let v = (case map_of (cp_groups self) label of Some v \<Rightarrow> v | None \<Rightarrow> [])
      in self\<lparr>cp_groups := btree_insert label (fold btree_set_insert urefs v) (cp_groups self)\<rparr>)"

definition is_version_enabled :: "contract_package \<Rightarrow> contract_version_key \<Rightarrow> bool" where
  "is_version_enabled self k \<longleftrightarrow> k \<notin> set (cp_disabled_versions self) \<and> map_of (cp_versions self) k \<noteq> None"

definition lookup_contract_hash :: "contract_package \<Rightarrow> contract_version_key \<Rightarrow> contract_hash option" where
  "lookup_contract_hash self k =
     (if \<not> is_version_enabled self k then None else map_of (cp_versions self) k)"

definition find_contract_version_key_by_hash :: "contract_package \<Rightarrow> contract_hash \<Rightarrow> contract_version_key option" where
  "find_contract_version_key_by_hash self contract_hash =
     (case List.map_filter (\<lambda>(k, v). if v = contract_hash then Some k else None) (cp_versions self) of
        k # _ \<Rightarrow> Some k | [] \<Rightarrow> None)"

definition is_contract_enabled :: "contract_package \<Rightarrow> contract_hash \<Rightarrow> bool" where
  "is_contract_enabled self contract_hash =
     (case find_contract_version_key_by_hash self contract_hash of
        Some version_key \<Rightarrow> version_key \<notin> set (cp_disabled_versions self)
      | None \<Rightarrow> False)"

definition next_contract_version_for :: "contract_package \<Rightarrow> u32 \<Rightarrow> u32" where
  "next_contract_version_for self protocol_version =
     (let current_version =
        (case List.map_filter (\<lambda>(major, version). if major = protocol_version then Some version else None)
            (rev (map fst (cp_versions self))) of
           v # _ \<Rightarrow> v | [] \<Rightarrow> 0)
      in current_version + 1)"

definition insert_contract_version ::
  "contract_package \<Rightarrow> u32 \<Rightarrow> contract_hash \<Rightarrow> contract_version_key \<times> contract_package" where
  "insert_contract_version self protocol_version_major contract_hash =
     (let contract_version = next_contract_version_for self protocol_version_major;
          key = (protocol_version_major, contract_version)
      in (key, self\<lparr>cp_versions := btree_insert key contract_hash (cp_versions self)\<rparr>))"

definition disable_contract_version ::
  "contract_package \<Rightarrow> contract_hash \<Rightarrow> (contracts_error, contract_package) result" where
  "disable_contract_version self contract_hash =
     (case List.map_filter (\<lambda>(k, v). if v = contract_hash then Some k else None) (cp_versions self) of
        [] \<Rightarrow> Err ContractNotFound
      | contract_version_key # _ \<Rightarrow>
          Ok (if contract_version_key \<notin> set (cp_disabled_versions self)
              then self\<lparr>cp_disabled_versions := btree_set_insert contract_version_key (cp_disabled_versions self)\<rparr>
              else self))"

definition enabled_versions :: "contract_package \<Rightarrow> contract_versions" where
  "enabled_versions self =
     foldl (\<lambda>ret (k, h). if \<not> is_version_enabled self k then ret else btree_insert k h ret) [] (cp_versions self)"

definition remove_group :: "contract_package \<Rightarrow> group \<Rightarrow> bool \<times> contract_package" where
  "remove_group self label =
     (map_of (cp_groups self) label \<noteq> None, self\<lparr>cp_groups := btree_remove label (cp_groups self)\<rparr>)"

definition next_back :: "'a list \<Rightarrow> 'a option" where
  "next_back xs = (if xs = [] then None else Some (last xs))"

definition current_contract_version :: "contract_package \<Rightarrow> contract_version_key option" where
  "current_contract_version self = next_back (map fst (enabled_versions self))"

definition current_contract_hash :: "contract_package \<Rightarrow> contract_hash option" where
  "current_contract_hash self = next_back (map snd (enabled_versions self))"

definition is_locked :: "contract_package \<Rightarrow> bool" where
  "is_locked self = (case cp_lock_status self of Unlocked \<Rightarrow> False | Locked \<Rightarrow> True)"

section \<open>Contracts\<close>

datatype entry_point_type = EPSession | EPContract

definition entry_point_type_write_bytes :: "entry_point_type write_bytes" where
  "entry_point_type_write_bytes self writer = Ok (writer @ [case self of EPSession \<Rightarrow> 0 | EPContract \<Rightarrow> 1])"

definition entry_point_type_serialized_length :: "entry_point_type \<Rightarrow> nat" where
  "entry_point_type_serialized_length self = 1"

definition entry_point_type_from_bytes :: "entry_point_type from_bytes" where
  "entry_point_type_from_bytes bs =
     res_bind (u8_from_bytes bs) (\<lambda>(value, bytes).
     if value = 0 then Ok (EPSession, bytes) else if value = 1 then Ok (EPContract, bytes) else Err Formatting)"

datatype entry_point_access = AccessPublic | AccessGroups "group list"

definition ENTRYPOINTACCESS_PUBLIC_TAG :: u8 where "ENTRYPOINTACCESS_PUBLIC_TAG = 1"
definition ENTRYPOINTACCESS_GROUPS_TAG :: u8 where "ENTRYPOINTACCESS_GROUPS_TAG = 2"

fun entry_point_access_serialized_length :: "entry_point_access \<Rightarrow> nat" where
  "entry_point_access_serialized_length AccessPublic = 1"
| "entry_point_access_serialized_length (AccessGroups groups) =
     1 + iterator_serialized_length u8_slice_serialized_length groups"

fun entry_point_access_write_bytes :: "entry_point_access write_bytes" where
  "entry_point_access_write_bytes AccessPublic writer = Ok (writer @ [ENTRYPOINTACCESS_PUBLIC_TAG])"
| "entry_point_access_write_bytes (AccessGroups groups) writer =
     vec_write_bytes write_u8_slice groups (writer @ [ENTRYPOINTACCESS_GROUPS_TAG])"

definition entry_point_access_from_bytes :: "heap \<Rightarrow> entry_point_access from_bytes" where
  "entry_point_access_from_bytes h bs =
     res_bind (u8_from_bytes bs) (\<lambda>(tag, bytes).
     if tag = ENTRYPOINTACCESS_PUBLIC_TAG then Ok (AccessPublic, bytes)
     else if tag = ENTRYPOINTACCESS_GROUPS_TAG then
       res_bind (vec_from_bytes (heap_alloc h) (heap_size h ''Group'') (heap_align h ''Group'') String_from_bytes bytes)
         (\<lambda>(groups, bytes). Ok (AccessGroups groups, bytes))
     else Err Formatting)"

record parameter =
  param_name :: bytes
  param_cl_type :: cl_type

definition parameter_serialized_length :: "parameter \<Rightarrow> nat" where
  "parameter_serialized_length self =
     u8_slice_serialized_length (param_name self) + cl_type_serialized_length (param_cl_type self)"

definition parameter_write_bytes :: "parameter write_bytes" where
  "parameter_write_bytes self writer =
     res_bind (write_u8_slice (param_name self) writer) (\<lambda>w. cl_type_append_bytes (param_cl_type self) w)"

definition parameter_from_bytes :: "parameter from_bytes" where
  "parameter_from_bytes bs =
     res_bind (String_from_bytes bs) (\<lambda>(name, bytes).
     res_bind (cl_type_from_bytes bytes) (\<lambda>(ty, bytes). Ok (\<lparr>param_name = name, param_cl_type = ty\<rparr>, bytes)))"

record entry_point =
  ep_name :: bytes
  ep_args :: "parameter list"
  ep_ret :: cl_type
  ep_access :: entry_point_access
  ep_type :: entry_point_type

definition entry_point_serialized_length :: "entry_point \<Rightarrow> nat" where
  "entry_point_serialized_length self =
     u8_slice_serialized_length (ep_name self) + iterator_serialized_length parameter_serialized_length (ep_args self) +
     cl_type_serialized_length (ep_ret self) + entry_point_access_serialized_length (ep_access self) +
     entry_point_type_serialized_length (ep_type self)"

definition entry_point_write_bytes :: "entry_point write_bytes" where
  "entry_point_write_bytes self writer =
     res_bind (write_u8_slice (ep_name self) writer) (\<lambda>w.
     res_bind (vec_write_bytes parameter_write_bytes (ep_args self) w) (\<lambda>w.
     res_bind (cl_type_append_bytes (ep_ret self) w) (\<lambda>w.
     res_bind (entry_point_access_write_bytes (ep_access self) w) (\<lambda>w.
     entry_point_type_write_bytes (ep_type self) w))))"

definition entry_point_from_bytes :: "heap \<Rightarrow> entry_point from_bytes" where
  "entry_point_from_bytes h bs =
     res_bind (String_from_bytes bs) (\<lambda>(name, bytes).
     res_bind (vec_from_bytes (heap_alloc h) (heap_size h ''Parameter'') (heap_align h ''Parameter'') parameter_from_bytes bytes)
       (\<lambda>(args, bytes).
     res_bind (cl_type_from_bytes bytes) (\<lambda>(ret, bytes).
     res_bind (entry_point_access_from_bytes h bytes) (\<lambda>(access, bytes).
     res_bind (entry_point_type_from_bytes bytes) (\<lambda>(ty, bytes).
     Ok (\<lparr>ep_name = name, ep_args = args, ep_ret = ret, ep_access = access, ep_type = ty\<rparr>, bytes))))))"

type_synonym entry_points = "(bytes \<times> entry_point) list"

definition add_entry_point :: "entry_points \<Rightarrow> entry_point \<Rightarrow> entry_points" where
  "add_entry_point self entry_point = btree_insert (ep_name entry_point) entry_point self"

definition has_entry_point :: "entry_points \<Rightarrow> bytes \<Rightarrow> bool" where
  "has_entry_point self name \<longleftrightarrow> map_of self name \<noteq> None"

definition entry_points_from :: "entry_point list \<Rightarrow> entry_points" where
  "entry_points_from eps = fold (\<lambda>(k, v). btree_insert k v) (map (\<lambda>ep. (ep_name ep, ep)) eps) []"

definition entry_points_serialized_length :: "entry_points \<Rightarrow> nat" where
  "entry_points_serialized_length self =
     btreemap_serialized_length u8_slice_serialized_length entry_point_serialized_length self"

definition entry_points_write_bytes :: "entry_points write_bytes" where
  "entry_points_write_bytes self writer = btreemap_write_bytes write_u8_slice entry_point_write_bytes self writer"

definition entry_points_from_bytes :: "heap \<Rightarrow> entry_points from_bytes" where
  "entry_points_from_bytes h bs = btreemap_from_bytes String_from_bytes (entry_point_from_bytes h) bs"

record contract =
  ct_package_hash :: contract_package_hash
  ct_wasm_hash :: contract_wasm_hash
  ct_named_keys :: named_keys
  ct_entry_points :: entry_points
  ct_protocol_version :: protocol_version

definition contract_named_keys_append :: "contract \<Rightarrow> named_keys \<Rightarrow> contract" where
  "contract_named_keys_append self keys = self\<lparr>ct_named_keys := btree_append (ct_named_keys self) keys\<rparr>"

definition remove_named_key :: "contract \<Rightarrow> bytes \<Rightarrow> key option \<times> contract" where
  "remove_named_key self k =
     (map_of (ct_named_keys self) k, self\<lparr>ct_named_keys := btree_remove k (ct_named_keys self)\<rparr>)"

definition is_compatible_protocol_version :: "contract \<Rightarrow> protocol_version \<Rightarrow> bool" where
  "is_compatible_protocol_version self v \<longleftrightarrow> sv_major (ct_protocol_version self) = sv_major v"

definition contract_extract_access_rights :: "contract \<Rightarrow> contract_hash \<Rightarrow> context_access_rights" where
  "contract_extract_access_rights self contract_hash =
     context_access_rights_new (KHash contract_hash) (List.map_filter (\<lambda>(_, key). key_as_uref key) (ct_named_keys self))"

subsection \<open>Encoding of packages and contracts\<close>

definition contract_version_key_write_bytes :: "contract_version_key write_bytes" where
  "contract_version_key_write_bytes self writer =
     res_bind (u32_write_bytes (fst self) writer) (\<lambda>w. u32_write_bytes (snd self) w)"

definition contract_version_key_serialized_length :: "contract_version_key \<Rightarrow> nat" where
  "contract_version_key_serialized_length self = 4 + 4"

definition contract_version_key_from_bytes :: "contract_version_key from_bytes" where
  "contract_version_key_from_bytes bs =
     res_bind (u32_from_bytes bs) (\<lambda>(major, rem).
     res_bind (u32_from_bytes rem) (\<lambda>(contract, rem). Ok ((major, contract), rem)))"

definition hash_addr_serialized_length :: "bytes \<Rightarrow> nat" where
  "hash_addr_serialized_length self = length self"

definition contract_package_serialized_length :: "contract_package \<Rightarrow> nat" where
  "contract_package_serialized_length self =
     uref_serialized_length (cp_access_key self) +
     btreemap_serialized_length contract_version_key_serialized_length hash_addr_serialized_length (cp_versions self) +
     btreeset_serialized_length contract_version_key_serialized_length (cp_disabled_versions self) +
     btreemap_serialized_length u8_slice_serialized_length (btreeset_serialized_length uref_serialized_length) (cp_groups self) +
     contract_package_status_serialized_length (cp_lock_status self)"

definition contract_package_write_bytes :: "contract_package write_bytes" where
  "contract_package_write_bytes self writer =
     res_bind (uref_write_bytes (cp_access_key self) writer) (\<lambda>w.
     res_bind (btreemap_write_bytes contract_version_key_write_bytes array_write_bytes (cp_versions self) w) (\<lambda>w.
     res_bind (btreeset_write_bytes contract_version_key_write_bytes (cp_disabled_versions self) w) (\<lambda>w.
     res_bind (btreemap_write_bytes write_u8_slice (btreeset_write_bytes uref_write_bytes) (cp_groups self) w) (\<lambda>w.
     contract_package_status_write_bytes (cp_lock_status self) w))))"

definition contract_package_to_bytes :: "contract_package to_bytes" where
  "contract_package_to_bytes self =
     res_bind (allocate_buffer (contract_package_serialized_length self)) (\<lambda>result.
     res_bind (uref_write_bytes (cp_access_key self) result) (\<lambda>w.
     res_bind (btreemap_write_bytes contract_version_key_write_bytes array_write_bytes (cp_versions self) w) (\<lambda>w.
     res_bind (btreeset_write_bytes contract_version_key_write_bytes (cp_disabled_versions self) w) (\<lambda>w.
     res_bind (btreemap_write_bytes write_u8_slice (btreeset_write_bytes uref_write_bytes) (cp_groups self) w) (\<lambda>w.
     contract_package_status_write_bytes (cp_lock_status self) w)))))"

definition contract_package_from_bytes :: "contract_package from_bytes" where
  "contract_package_from_bytes bs =
     res_bind (uref_from_bytes bs) (\<lambda>(access_key, bytes).
     res_bind (btreemap_from_bytes contract_version_key_from_bytes (array_from_bytes KEY_HASH_LENGTH) bytes) (\<lambda>(versions, bytes).
     res_bind (btreeset_from_bytes contract_version_key_from_bytes bytes) (\<lambda>(disabled, bytes).
     res_bind (btreemap_from_bytes String_from_bytes (btreeset_from_bytes uref_from_bytes) bytes) (\<lambda>(groups, bytes).
     res_bind (contract_package_status_from_bytes bytes) (\<lambda>(lock, bytes).
     Ok (contract_package_new access_key versions disabled groups lock, bytes))))))"

definition contract_serialized_length :: "contract \<Rightarrow> nat" where
  "contract_serialized_length self =
     entry_points_serialized_length (ct_entry_points self) + hash_addr_serialized_length (ct_package_hash self) +
     hash_addr_serialized_length (ct_wasm_hash self) + sem_ver_serialized_length (ct_protocol_version self) +
     named_keys_serialized_length (ct_named_keys self)"

definition contract_write_bytes :: "contract write_bytes" where
  "contract_write_bytes self writer =
     res_bind (array_write_bytes (ct_package_hash self) writer) (\<lambda>w.
     res_bind (array_write_bytes (ct_wasm_hash self) w) (\<lambda>w.
     res_bind (named_keys_write_bytes (ct_named_keys self) w) (\<lambda>w.
     res_bind (entry_points_write_bytes (ct_entry_points self) w) (\<lambda>w.
     protocol_version_write_bytes (ct_protocol_version self) w))))"

definition contract_to_bytes :: "contract to_bytes" where
  "contract_to_bytes self =
     res_bind (allocate_buffer (contract_serialized_length self)) (\<lambda>result.
     res_bind (array_write_bytes (ct_package_hash self) result) (\<lambda>w.
     res_bind (array_write_bytes (ct_wasm_hash self) w) (\<lambda>w.
     res_bind (named_keys_write_bytes (ct_named_keys self) w) (\<lambda>w.
     res_bind (entry_points_write_bytes (ct_entry_points self) w) (\<lambda>w.
     protocol_version_write_bytes (ct_protocol_version self) w)))))"

definition contract_from_bytes :: "heap \<Rightarrow> contract from_bytes" where
  "contract_from_bytes h bs =
     res_bind (array_from_bytes KEY_HASH_LENGTH bs) (\<lambda>(package_hash, bytes).
     res_bind (array_from_bytes KEY_HASH_LENGTH bytes) (\<lambda>(wasm_hash, bytes).
     res_bind (named_keys_from_bytes bytes) (\<lambda>(nk, bytes).
     res_bind (entry_points_from_bytes h bytes) (\<lambda>(eps, bytes).
     res_bind (protocol_version_from_bytes bytes) (\<lambda>(version, bytes).
     Ok (\<lparr>ct_package_hash = package_hash, ct_wasm_hash = wasm_hash, ct_named_keys = nk, ct_entry_points = eps,
          ct_protocol_version = version\<rparr>, bytes))))))"

lemma hash_addr_stream:
  "stream_codec (\<lambda>h. length h = 32) hash_addr_serialized_length array_write_bytes (array_from_bytes KEY_HASH_LENGTH)"
  by unfold_locales (auto simp: array_write_bytes_def array_from_bytes_def hash_addr_serialized_length_def KEY_HASH_LENGTH_def)

lemma contract_version_key_stream:
  "stream_codec (\<lambda>_. True) contract_version_key_serialized_length contract_version_key_write_bytes contract_version_key_from_bytes"
  by (rule stream_map [OF stream_pair [OF u32_stream.stream_codec_axioms u32_stream.stream_codec_axioms],
        where f = "\<lambda>x. x" and g = "\<lambda>x. x"])
    (auto simp: contract_version_key_serialized_length_def contract_version_key_write_bytes_def entry_write_bytes_def
      contract_version_key_from_bytes_def fb_map_def entry_from_bytes_def res_bind_assoc split_def)

lemma contract_package_status_stream:
  "stream_codec (\<lambda>_. True) contract_package_status_serialized_length contract_package_status_write_bytes
     contract_package_status_from_bytes"
  by unfold_locales
    (auto simp: contract_package_status_serialized_length_def contract_package_status_write_bytes_def
      contract_package_status_from_bytes_def contract_package_status_new_def split: contract_package_status.splits)

definition contract_package_valid :: "contract_package \<Rightarrow> bool" where
  "contract_package_valid p \<longleftrightarrow> uref_valid (cp_access_key p) \<and>
     (\<forall>(k, h)\<in>set (cp_versions p). True \<and> length h = 32) \<and> btree_wf (cp_versions p) \<and>
     (\<forall>k\<in>set (cp_disabled_versions p). True) \<and> sorted_wrt (<) (cp_disabled_versions p) \<and>
     (\<forall>(g, us)\<in>set (cp_groups p). utf8_valid g \<and> ((\<forall>u\<in>set us. uref_valid u) \<and> sorted_wrt (<) us)) \<and> btree_wf (cp_groups p)"

lemma contract_package_stream:
  "stream_codec contract_package_valid contract_package_serialized_length contract_package_write_bytes
     contract_package_from_bytes"
  by (rule stream_map [OF stream_pair [OF uref_stream stream_pair [OF stream_btreemap [OF contract_version_key_stream hash_addr_stream]
        stream_pair [OF stream_btreeset [OF contract_version_key_stream]
          stream_pair [OF stream_btreemap [OF string_stream.stream_codec_axioms stream_btreeset [OF uref_stream]]
            contract_package_status_stream]]]],
        where f = "\<lambda>p. (cp_access_key p, cp_versions p, cp_disabled_versions p, cp_groups p, cp_lock_status p)"
          and g = "\<lambda>(a, v, d, g, l). contract_package_new a v d g l"])
    (auto simp: contract_package_valid_def contract_package_serialized_length_def contract_package_write_bytes_def
      contract_package_new_def entry_write_bytes_def [abs_def] contract_package_from_bytes_def fb_map_def entry_from_bytes_def
      res_bind_assoc split_def)

interpretation contract_package_writer: bytes_writer contract_package_valid contract_package_serialized_length
  contract_package_to_bytes contract_package_write_bytes contract_package_from_bytes
  by (rule bytes_writer_struct [OF contract_package_stream])
    (simp add: contract_package_to_bytes_def contract_package_write_bytes_def [abs_def])

lemma protocol_version_stream:
  "stream_codec (\<lambda>_. True) sem_ver_serialized_length protocol_version_write_bytes protocol_version_from_bytes"
  by unfold_locales
    (auto simp: sem_ver_serialized_length_def protocol_version_write_bytes_def protocol_version_from_bytes_def
      sem_ver_from_bytes_def sem_ver_new_def)

definition entry_point_valid :: "heap \<Rightarrow> entry_point \<Rightarrow> bool" where
  "entry_point_valid h e \<longleftrightarrow> utf8_valid (ep_name e) \<and>
     ((\<forall>p\<in>set (ep_args e). utf8_valid (param_name p) \<and> cl_type_depth (param_cl_type p) \<le> CL_TYPE_RECURSION_DEPTH) \<and>
      capacity_granted (heap_alloc h) (heap_size h ''Parameter'') (heap_align h ''Parameter'') (length (ep_args e))) \<and>
     cl_type_depth (ep_ret e) \<le> CL_TYPE_RECURSION_DEPTH \<and>
     (\<forall>gs. ep_access e = AccessGroups gs \<longrightarrow> (\<forall>g\<in>set gs. utf8_valid g) \<and>
        capacity_granted (heap_alloc h) (heap_size h ''Group'') (heap_align h ''Group'') (length gs))"

lemma parameter_stream:
  "stream_codec (\<lambda>p. utf8_valid (param_name p) \<and> cl_type_depth (param_cl_type p) \<le> CL_TYPE_RECURSION_DEPTH)
     parameter_serialized_length parameter_write_bytes parameter_from_bytes"
  by (rule stream_map [OF stream_pair [OF string_stream.stream_codec_axioms cl_type_stream],
        where f = "\<lambda>p. (param_name p, param_cl_type p)" and g = "\<lambda>(n, t). \<lparr>param_name = n, param_cl_type = t\<rparr>"])
    (auto simp: parameter_serialized_length_def parameter_write_bytes_def entry_write_bytes_def parameter_from_bytes_def
      fb_map_def entry_from_bytes_def res_bind_assoc split_def)

lemma entry_point_type_stream:
  "stream_codec (\<lambda>_. True) entry_point_type_serialized_length entry_point_type_write_bytes entry_point_type_from_bytes"
  by unfold_locales
    (auto simp: entry_point_type_serialized_length_def entry_point_type_write_bytes_def entry_point_type_from_bytes_def
      split: entry_point_type.splits)

lemma entry_point_access_stream:
  "stream_codec (\<lambda>a. \<forall>gs. a = AccessGroups gs \<longrightarrow> (\<forall>g\<in>set gs. utf8_valid g) \<and>
        capacity_granted (heap_alloc h) (heap_size h ''Group'') (heap_align h ''Group'') (length gs))
     entry_point_access_serialized_length entry_point_access_write_bytes (entry_point_access_from_bytes h)"
proof (unfold_locales, goal_cases)
  case (1 x w out)
  show ?case
  proof (cases x)
    case AccessPublic
    with 1 show ?thesis
      by (intro exI [of _ "[ENTRYPOINTACCESS_PUBLIC_TAG]"]) (simp add: entry_point_access_from_bytes_def)
  next
    case (AccessGroups gs)
    with 1 have v: "(\<forall>g\<in>set gs. utf8_valid g) \<and>
        capacity_granted (heap_alloc h) (heap_size h ''Group'') (heap_align h ''Group'') (length gs)"
      and w: "vec_write_bytes write_u8_slice gs (w @ [ENTRYPOINTACCESS_GROUPS_TAG]) = Ok out" by simp_all
    obtain bs where "out = w @ ENTRYPOINTACCESS_GROUPS_TAG # bs" "length bs = iterator_serialized_length u8_slice_serialized_length gs"
        "\<forall>rest. vec_from_bytes (heap_alloc h) (heap_size h ''Group'') (heap_align h ''Group'') String_from_bytes (bs @ rest) = Ok (gs, rest)"
        "\<forall>w'. vec_write_bytes write_u8_slice gs (w' @ [ENTRYPOINTACCESS_GROUPS_TAG]) = Ok (w' @ ENTRYPOINTACCESS_GROUPS_TAG # bs)"
      using stream_tagged [OF stream_vec [OF string_stream.stream_codec_axioms, of "heap_alloc h" "heap_size h ''Group''"
          "heap_align h ''Group''"], of gs, OF v w] by (elim exE conjE)
    then show ?thesis
      by (intro exI [of _ "ENTRYPOINTACCESS_GROUPS_TAG # bs"])
        (simp add: AccessGroups entry_point_access_from_bytes_def ENTRYPOINTACCESS_PUBLIC_TAG_def ENTRYPOINTACCESS_GROUPS_TAG_def)
  qed
qed

lemma entry_point_stream:
  "stream_codec (entry_point_valid h) entry_point_serialized_length entry_point_write_bytes (entry_point_from_bytes h)"
  by (rule stream_map [OF stream_pair [OF string_stream.stream_codec_axioms stream_pair [OF stream_vec [OF parameter_stream]
        stream_pair [OF cl_type_stream stream_pair [OF entry_point_access_stream entry_point_type_stream]]]],
        where f = "\<lambda>e. (ep_name e, ep_args e, ep_ret e, ep_access e, ep_type e)"
          and g = "\<lambda>(n, a, r, c, t). \<lparr>ep_name = n, ep_args = a, ep_ret = r, ep_access = c, ep_type = t\<rparr>"])
    (auto simp: entry_point_valid_def entry_point_serialized_length_def entry_point_write_bytes_def
      entry_write_bytes_def [abs_def] entry_point_from_bytes_def fb_map_def entry_from_bytes_def res_bind_assoc split_def)

definition contract_valid :: "heap \<Rightarrow> contract \<Rightarrow> bool" where
  "contract_valid h c \<longleftrightarrow> length (ct_package_hash c) = 32 \<and> length (ct_wasm_hash c) = 32 \<and> named_keys_valid (ct_named_keys c) \<and>
     (\<forall>(n, e)\<in>set (ct_entry_points c). utf8_valid n \<and> entry_point_valid h e) \<and> btree_wf (ct_entry_points c)"

lemma entry_points_stream:
  "stream_codec (\<lambda>m. (\<forall>(n, e)\<in>set m. utf8_valid n \<and> entry_point_valid h e) \<and> btree_wf m)
     entry_points_serialized_length entry_points_write_bytes (entry_points_from_bytes h)"
  unfolding entry_points_serialized_length_def [abs_def] entry_points_write_bytes_def [abs_def] entry_points_from_bytes_def [abs_def]
  by (rule stream_btreemap [OF string_stream.stream_codec_axioms entry_point_stream])

lemma contract_stream:
  "stream_codec (contract_valid h) contract_serialized_length contract_write_bytes (contract_from_bytes h)"
  by (rule stream_map [OF stream_pair [OF hash_addr_stream stream_pair [OF hash_addr_stream stream_pair [OF named_keys_stream
        stream_pair [OF entry_points_stream protocol_version_stream]]]],
        where f = "\<lambda>c. (ct_package_hash c, ct_wasm_hash c, ct_named_keys c, ct_entry_points c, ct_protocol_version c)"
          and g = "\<lambda>(p, w, n, e, v). \<lparr>ct_package_hash = p, ct_wasm_hash = w, ct_named_keys = n, ct_entry_points = e,
            ct_protocol_version = v\<rparr>"])
    (auto simp: contract_valid_def contract_serialized_length_def contract_write_bytes_def
      entry_write_bytes_def [abs_def] contract_from_bytes_def fb_map_def entry_from_bytes_def res_bind_assoc split_def)

interpretation contract_writer: bytes_writer "contract_valid h" contract_serialized_length
  contract_to_bytes contract_write_bytes "contract_from_bytes h" for h
  by (rule bytes_writer_struct [OF contract_stream]) (simp add: contract_to_bytes_def contract_write_bytes_def [abs_def])

section \<open>Versions are immutable\<close>

inductive package_step :: "contract_package \<Rightarrow> contract_package \<Rightarrow> bool" where
  insert_version: "package_step p (snd (insert_contract_version p major h))"
| disable_version: "disable_contract_version p h = Ok p' \<Longrightarrow> package_step p p'"
| add_group: "package_step p (add_group p label urefs)"
| remove_group: "package_step p (snd (remove_group p label))"

definition package_inv :: "contract_package \<Rightarrow> bool" where
  "package_inv p \<longleftrightarrow> btree_wf (cp_versions p) \<and> (\<forall>k\<in>fst ` set (cp_versions p). unat (snd k) \<le> length (cp_versions p))"

definition major_versions :: "u32 \<Rightarrow> contract_versions \<Rightarrow> u32 list" where
  "major_versions major vs = List.map_filter (\<lambda>(m, v). if m = major then Some v else None) (map fst vs)"

lemma set_major_versions: "set (major_versions major vs) = {v. (major, v) \<in> fst ` set vs}"
  unfolding major_versions_def by (induction vs) (auto simp: List.map_filter_simps split: if_splits)

lemma sorted_major_versions: "btree_wf vs \<Longrightarrow> sorted_wrt (<) (major_versions major vs)"
proof (induction vs)
  case (Cons kv vs)
  have "\<forall>v\<in>set (major_versions major vs). snd (fst kv) < v" if "fst (fst kv) = major"
    unfolding set_major_versions using Cons.prems that by (auto simp: less_prod_def prod_eq_iff split: prod.splits)
  with Cons show ?case
    by (cases kv) (auto simp: major_versions_def List.map_filter_simps)
qed (simp add: major_versions_def List.map_filter_simps)

lemma map_filter_rev: "List.map_filter f (rev xs) = rev (List.map_filter f xs)"
  by (simp add: List.map_filter_def rev_map rev_filter)

lemma next_version_eq:
  "next_contract_version_for p major =
     (let vs = major_versions major (cp_versions p) in if vs = [] then 1 else last vs + 1)"
proof (cases "major_versions major (cp_versions p)" rule: rev_cases)
  case Nil
  then show ?thesis by (simp add: next_contract_version_for_def map_filter_rev flip: major_versions_def)
next
  case (snoc ys y)
  then show ?thesis by (simp add: next_contract_version_for_def map_filter_rev flip: major_versions_def)
qed

lemma next_version_fresh:
  assumes inv: "package_inv p" and len: "length (cp_versions p) < 2 ^ 32 - 1"
  shows "(major, next_contract_version_for p major) \<notin> fst ` set (cp_versions p) \<and>
    unat (next_contract_version_for p major) \<le> Suc (length (cp_versions p))"
proof (cases "major_versions major (cp_versions p)" rule: rev_cases)
  case Nil
  with set_major_versions [of major "cp_versions p"] show ?thesis by (auto simp: next_version_eq)
next
  case (snoc ys y)
  have wf: "btree_wf (cp_versions p)" using inv by (simp add: package_inv_def)
  have "y \<in> set (major_versions major (cp_versions p))" using snoc by simp
  then have y: "unat y \<le> length (cp_versions p)" using inv by (auto simp: set_major_versions package_inv_def)
  with len have u: "unat (y + 1) = unat y + 1" by (simp add: unat_word_ariths)
  have "v \<le> y" if "v \<in> set (major_versions major (cp_versions p))" for v
    using sorted_major_versions [OF wf, of major] that snoc by (auto simp: sorted_wrt_append)
  then have "y + 1 \<notin> set (major_versions major (cp_versions p))" using u by (fastforce simp: word_le_nat_alt)
  then have "(major, y + 1) \<notin> fst ` set (cp_versions p)" unfolding set_major_versions by simp
  then show ?thesis using snoc y u by (simp add: next_version_eq)
qed

lemma length_btree_insert: "k \<notin> fst ` set m \<Longrightarrow> length (btree_insert k v m) = Suc (length m)"
  by (induction k v m rule: btree_insert.induct) auto

lemma length_btree_insert_le: "length m \<le> length (btree_insert k v m)"
  by (induction k v m rule: btree_insert.induct) auto

lemma set_btree_set_insert: "set (btree_set_insert k xs) = insert k (set xs)"
  using set_btree_insert [of k "()" "map (\<lambda>x. (x, ())) xs"] by (simp add: btree_set_insert_def image_image)

lemma disable_Ok:
  "disable_contract_version p h = Ok p' \<Longrightarrow>
   cp_versions p' = cp_versions p \<and> set (cp_disabled_versions p) \<subseteq> set (cp_disabled_versions p')"
  by (auto simp: disable_contract_version_def set_btree_set_insert split: list.splits if_splits)

lemma package_step_versions:
  assumes "package_step p q" "package_inv p" "length (cp_versions q) < 2 ^ 32 - 1"
  shows "package_inv q \<and> map_of (cp_versions p) \<subseteq>\<^sub>m map_of (cp_versions q) \<and>
    set (cp_disabled_versions p) \<subseteq> set (cp_disabled_versions q) \<and> length (cp_versions p) \<le> length (cp_versions q)"
  using assms
proof (induction rule: package_step.induct)
  case (insert_version p major h)
  let ?k = "(major, next_contract_version_for p major)"
  have q: "cp_versions (snd (insert_contract_version p major h)) = btree_insert ?k h (cp_versions p)"
      "cp_disabled_versions (snd (insert_contract_version p major h)) = cp_disabled_versions p"
    by (simp_all add: insert_contract_version_def Let_def)
  have len: "length (cp_versions p) < 2 ^ 32 - 1" using insert_version(2) length_btree_insert_le [of "cp_versions p" ?k h] q by simp
  note f = next_version_fresh [OF insert_version(1) len, of major]
  have m: "map_of (cp_versions p) ?k = None" using f by (simp add: map_of_eq_None_iff)
  have "btree_wf (btree_insert ?k h (cp_versions p))"
    using insert_version(1) by (simp add: package_inv_def btree_wf_insert)
  moreover have "unat (snd k) \<le> Suc (length (cp_versions p))" if "k \<in> fst ` set (btree_insert ?k h (cp_versions p))" for k
    using that insert_version(1) f unfolding set_btree_insert package_inv_def by (auto intro: le_SucI)
  ultimately show ?case using f m unfolding q
    by (auto simp: package_inv_def q length_btree_insert btree.get_insert map_le_def)
next
  case (disable_version p h p')
  with disable_Ok [OF disable_version(1)] show ?case by (simp add: package_inv_def)
next
  case (add_group p label urefs)
  then show ?case by (simp add: add_group_def Let_def package_inv_def)
next
  case (remove_group p label)
  then show ?case by (simp add: remove_group_def package_inv_def)
qed

lemma package_step_len: "package_step p q \<Longrightarrow> length (cp_versions p) \<le> length (cp_versions q)"
  by (induction rule: package_step.induct)
    (auto simp: insert_contract_version_def Let_def length_btree_insert_le add_group_def remove_group_def dest: disable_Ok)

lemma package_steps_len: "package_step\<^sup>*\<^sup>* p q \<Longrightarrow> length (cp_versions p) \<le> length (cp_versions q)"
  by (induction rule: rtranclp_induct) (auto dest: package_step_len)

lemma package_steps_versions:
  assumes "package_step\<^sup>*\<^sup>* p q" "package_inv p" "length (cp_versions q) < 2 ^ 32 - 1"
  shows "package_inv q \<and> map_of (cp_versions p) \<subseteq>\<^sub>m map_of (cp_versions q) \<and>
    set (cp_disabled_versions p) \<subseteq> set (cp_disabled_versions q) \<and> length (cp_versions p) \<le> length (cp_versions q)"
  using assms
proof (induction rule: converse_rtranclp_induct)
  case (step p p')
  have "length (cp_versions p') < 2 ^ 32 - 1" using package_steps_len [OF step(2)] step(5) by linarith
  from package_step_versions [OF step(1,4) this] step(3,5) show ?case by (meson map_le_trans order.trans subset_trans)
qed simp

text \<open>C13: A version of a contract package is immutable. Starting from a package without versions and for as long as fewer
  than \<open>2\<^sup>3\<^sup>2 - 1\<close> versions exist, no sequence of operations on the package changes the contract under an existing version, and a
  disabled version is never enabled again: what can be looked up later under a version that existed before is what could
  be looked up before.\<close>
theorem contract_versions_immutable:
  assumes "package_step\<^sup>*\<^sup>* (contract_package_new access_key [] [] gs lock) p" "package_step\<^sup>*\<^sup>* p q"
    and "length (cp_versions q) < 2 ^ 32 - 1"
  shows "map_of (cp_versions p) \<subseteq>\<^sub>m map_of (cp_versions q) \<and> set (cp_disabled_versions p) \<subseteq> set (cp_disabled_versions q) \<and>
    (lookup_contract_hash q k = None \<or> map_of (cp_versions p) k = None \<or> lookup_contract_hash q k = lookup_contract_hash p k)"
proof -
  let ?p0 = "contract_package_new access_key [] [] gs lock"
  have i0: "package_inv ?p0" by (simp add: package_inv_def contract_package_new_def)
  have q: "package_inv q \<and> length (cp_versions p) \<le> length (cp_versions q)"
    using package_steps_versions [OF rtranclp_trans [OF assms(1,2)] i0 assms(3)] package_steps_len [OF assms(2)] by simp
  then have "package_inv p" using package_steps_versions [OF assms(1) i0] assms(3) by linarith
  note pq = package_steps_versions [OF assms(2) this assms(3)]
  have "lookup_contract_hash q k = None \<or> map_of (cp_versions p) k = None \<or> lookup_contract_hash q k = lookup_contract_hash p k"
  proof (cases "map_of (cp_versions p) k")
    case (Some v)
    then have "k \<in> dom (map_of (cp_versions p))" by (rule domI)
    with pq Some have "map_of (cp_versions q) k = Some v" unfolding map_le_def by metis
    moreover have "k \<notin> set (cp_disabled_versions p)" if "k \<notin> set (cp_disabled_versions q)" using pq that by blast
    ultimately show ?thesis using Some by (simp add: lookup_contract_hash_def is_version_enabled_def)
  qed simp
  with pq show ?thesis by blast
qed

definition ex_package1 :: contract_package where
  "ex_package1 = snd (insert_contract_version (contract_package_new (uref_new [7] AR_NONE) [] [] [] Unlocked) 1 [42])"

definition ex_package2 :: contract_package where
  "ex_package2 = ex_package1\<lparr>cp_disabled_versions := [(1, 1)]\<rparr>"

lemma ex_package_simps:
  "cp_versions ex_package1 = [((1, 1), [42])]" "cp_disabled_versions ex_package1 = []"
  "cp_versions ex_package2 = [((1, 1), [42])]" "cp_disabled_versions ex_package2 = [(1, 1)]"
  by (simp_all add: ex_package1_def ex_package2_def insert_contract_version_def next_contract_version_for_def Let_def
    contract_package_new_def List.map_filter_simps)

theorem contract_versions_immutable_witness:
  "map_of (cp_versions ex_package1) \<subseteq>\<^sub>m map_of (cp_versions ex_package2) \<and>
   set (cp_disabled_versions ex_package1) \<subseteq> set (cp_disabled_versions ex_package2) \<and>
   (lookup_contract_hash ex_package2 (1, 1) = None \<or> map_of (cp_versions ex_package1) (1, 1) = None \<or>
    lookup_contract_hash ex_package2 (1, 1) = lookup_contract_hash ex_package1 (1, 1))"
proof (rule contract_versions_immutable)
  show "package_step\<^sup>*\<^sup>* (contract_package_new (uref_new [7] AR_NONE) [] [] [] Unlocked) ex_package1"
    unfolding ex_package1_def by (rule r_into_rtranclp) (rule package_step.insert_version)
  have "disable_contract_version ex_package1 [42] = Ok ex_package2"
    by (simp add: disable_contract_version_def ex_package_simps List.map_filter_simps ex_package2_def btree_set_insert_def)
  then have "package_step ex_package1 ex_package2" by (rule package_step.disable_version)
  then show "package_step\<^sup>*\<^sup>* ex_package1 ex_package2" by (rule r_into_rtranclp)
qed (simp add: ex_package_simps)

end
