(* ===== verification/Public_Keys.thy ===== *)
theory Public_Keys
  imports Contracts Uint
begin

text \<open>
  Public keys (\<^verbatim>\<open>types/src/crypto/asymmetric_key.rs\<close>): the three kinds, their order and encoding, and the account hash of
  a key (\<^verbatim>\<open>types/src/account/account_hash.rs\<close>). The curve arithmetic of the crates \<^verbatim>\<open>ed25519_dalek\<close> and
  \<^verbatim>\<open>k256\<close> is the parameter \<open>curves\<close>: what each crate makes of a byte string, a key being represented by the bytes that
  the crate prints for it.

  The theory also completes the toolbox of encoders: a field that is appended through its \<open>to_bytes\<close>, and the numbers
  \<open>U512\<close>.
\<close>

section \<open>Fields appended through \<open>to_bytes\<close>\<close>

lemma stream_extend: "bytesrepr valid sl tb wb fb \<Longrightarrow> stream_codec valid sl (default_write_bytes tb) fb"
  by (rule bytesrepr_stream_default, rule bytesrepr_default) (auto simp: bytesrepr.tb_length bytesrepr.roundtrip)

lemma extend_writes:
  "bytesrepr valid sl tb wb fb \<Longrightarrow> valid x \<Longrightarrow> default_write_bytes tb x w = Ok out \<Longrightarrow> wb x w = Ok out"
  by (auto simp: default_write_bytes_def res_simps bytesrepr.tb_write)

lemma bytes_writer_struct_extend:
  assumes s: "stream_codec valid sl wb fb" and tb: "\<And>x. tb x = res_bind (allocate_buffer (sl x)) (wb' x)"
    and w: "\<And>x w out. valid x \<Longrightarrow> wb' x w = Ok out \<Longrightarrow> wb x w = Ok out"
  shows "bytes_writer valid sl tb wb fb"
proof (rule bytes_writerI, rule bytesreprI, goal_cases)
  case (1 x bs)
  then have "wb x [] = Ok bs" using w by (auto simp: tb res_simps)
  with stream_codec.stream [OF s 1(1)] show ?case by fastforce
next
  case (2 x bs v)
  then have "wb x [] = Ok bs" using w by (auto simp: tb res_simps)
  with stream_codec.stream [OF s 2(1)] show ?case by fastforce
next
  case (3 x bs rest)
  then have "wb x [] = Ok bs" using w by (auto simp: tb res_simps)
  with stream_codec.stream [OF s 3(1)] show ?case by fastforce
next
  case (4 x v out)
  then show ?case by (rule stream_codec.stream [OF s])
qed

abbreviation U512_serialized_length :: "u512 \<Rightarrow> nat" where "U512_serialized_length \<equiv> uint_serialized_length 64"
abbreviation U512_to_bytes :: "u512 to_bytes" where "U512_to_bytes \<equiv> uint_to_bytes 64"
abbreviation U512_write_bytes :: "u512 write_bytes" where "U512_write_bytes \<equiv> default_write_bytes (uint_to_bytes 64)"
abbreviation U512_from_bytes :: "u512 from_bytes" where "U512_from_bytes \<equiv> uint_from_bytes 64"

lemma U512_stream: "stream_codec (\<lambda>_. True) U512_serialized_length U512_write_bytes U512_from_bytes"
  by (rule bytesrepr_stream_default) (rule U512_repr.bytesrepr_axioms)

lemma u8_stream: "stream_codec (\<lambda>_. True) u8_serialized_length u8_write_bytes u8_from_bytes"
  by (rule bytes_writer_stream) (rule u8_writer.bytes_writer_axioms)

lemma era_stream: "stream_codec (\<lambda>_. True) (\<lambda>_. 8) era_write_bytes era_from_bytes"
  by unfold_locales (auto simp: era_write_bytes_def era_from_bytes_def u64_write_bytes_def u64_from_bytes_def le_write_bytes_def)

lemma era_bytesrepr: "bytesrepr (\<lambda>_. True) (\<lambda>_. 8) era_to_bytes era_write_bytes era_from_bytes"
  by unfold_locales
    (auto simp: era_to_bytes_def era_write_bytes_def era_from_bytes_def u64_to_bytes_def u64_write_bytes_def u64_from_bytes_def
      le_to_bytes_def le_write_bytes_def)

lemma deploy_hash_stream: "stream_codec (\<lambda>h. length h = 32) length deploy_hash_write_bytes deploy_hash_from_bytes"
  by unfold_locales
    (auto simp: deploy_hash_write_bytes_def deploy_hash_from_bytes_def array_write_bytes_def array_from_bytes_def DEPLOY_HASH_LENGTH_def)

lemma transfer_addr_stream: "stream_codec (\<lambda>h. length h = 32) length transfer_addr_write_bytes transfer_addr_from_bytes"
  by unfold_locales
    (auto simp: transfer_addr_write_bytes_def transfer_addr_from_bytes_def array_write_bytes_def array_from_bytes_def
      TRANSFER_ADDR_LENGTH_def)

section \<open>Public keys\<close>

record curves =
  ed25519_decode :: "bytes \<Rightarrow> bytes option"
  secp256k1_decode :: "bytes \<Rightarrow> bytes option"

datatype public_key = PKSystem | PKEd25519 bytes | PKSecp256k1 bytes

definition SYSTEM_TAG :: u8 where "SYSTEM_TAG = 0"
definition ED25519_TAG :: u8 where "ED25519_TAG = 1"
definition SECP256K1_TAG :: u8 where "SECP256K1_TAG = 2"

lemmas public_key_tag_defs = SYSTEM_TAG_def ED25519_TAG_def SECP256K1_TAG_def

fun public_key_tag :: "public_key \<Rightarrow> u8" where
  "public_key_tag PKSystem = SYSTEM_TAG"
| "public_key_tag (PKEd25519 _) = ED25519_TAG"
| "public_key_tag (PKSecp256k1 _) = SECP256K1_TAG"

fun public_key_bytes :: "public_key \<Rightarrow> bytes" where
  "public_key_bytes PKSystem = []"
| "public_key_bytes (PKEd25519 key) = key"
| "public_key_bytes (PKSecp256k1 key) = key"

text \<open>The order compares the tags and then the bytes.\<close>

lemma public_key_eqI: "public_key_tag a = public_key_tag b \<Longrightarrow> public_key_bytes a = public_key_bytes b \<Longrightarrow> a = b"
  by (cases a; cases b) (simp_all add: public_key_tag_defs)

definition public_key_le :: "public_key \<Rightarrow> public_key \<Rightarrow> bool" where
  "public_key_le self other = (if public_key_tag self = public_key_tag other then public_key_bytes self \<le> public_key_bytes other
     else public_key_tag self \<le> public_key_tag other)"

instantiation public_key :: linorder
begin

definition less_eq_public_key :: "public_key \<Rightarrow> public_key \<Rightarrow> bool" where
  "a \<le> b \<longleftrightarrow> public_key_le a b"

definition less_public_key :: "public_key \<Rightarrow> public_key \<Rightarrow> bool" where
  "(a :: public_key) < b \<longleftrightarrow> a \<le> b \<and> \<not> b \<le> a"

instance
  by standard (auto simp: less_eq_public_key_def public_key_le_def less_public_key_def split: if_splits intro: public_key_eqI)

end

fun public_key_serialized_length :: "public_key \<Rightarrow> nat" where
  "public_key_serialized_length PKSystem = 1 + 0"
| "public_key_serialized_length (PKEd25519 _) = 1 + 32"
| "public_key_serialized_length (PKSecp256k1 _) = 1 + 33"

fun public_key_write_bytes :: "public_key write_bytes" where
  "public_key_write_bytes PKSystem writer = Ok (writer @ [SYSTEM_TAG])"
| "public_key_write_bytes (PKEd25519 pk) writer = Ok (writer @ [ED25519_TAG] @ pk)"
| "public_key_write_bytes (PKSecp256k1 pk) writer = Ok (writer @ [SECP256K1_TAG] @ pk)"

text \<open>\<open>to_bytes\<close> inserts the tag at the front of the fresh buffer and appends the bytes of the key.\<close>

definition public_key_to_bytes :: "public_key to_bytes" where
  "public_key_to_bytes self =
     res_bind (allocate_buffer (public_key_serialized_length self)) (\<lambda>buffer.
     Ok (case self of
           PKSystem \<Rightarrow> SYSTEM_TAG # buffer
         | PKEd25519 key \<Rightarrow> (ED25519_TAG # buffer) @ key
         | PKSecp256k1 key \<Rightarrow> (SECP256K1_TAG # buffer) @ key))"

definition public_key_from_bytes :: "curves \<Rightarrow> public_key from_bytes" where
  "public_key_from_bytes cv bs =
     res_bind (u8_from_bytes bs) (\<lambda>(tag, remainder).
     if tag = SYSTEM_TAG then Ok (PKSystem, remainder)
     else if tag = ED25519_TAG then
       res_bind (array_from_bytes 32 remainder) (\<lambda>(raw_bytes, remainder).
       res_bind (ok_or (ed25519_decode cv raw_bytes) Formatting) (\<lambda>key. Ok (PKEd25519 key, remainder)))
     else if tag = SECP256K1_TAG then
       res_bind (array_from_bytes 33 remainder) (\<lambda>(raw_bytes, remainder).
       res_bind (ok_or (secp256k1_decode cv raw_bytes) Formatting) (\<lambda>key. Ok (PKSecp256k1 key, remainder)))
     else Err Formatting)"

definition algorithm_name :: "public_key \<Rightarrow> string" where
  "algorithm_name public_key =
     (case public_key of PKSystem \<Rightarrow> ''system'' | PKEd25519 _ \<Rightarrow> ''ed25519'' | PKSecp256k1 _ \<Rightarrow> ''secp256k1'')"

definition account_hash_from_public_key :: "(bytes \<Rightarrow> bytes) \<Rightarrow> public_key \<Rightarrow> account_hash" where
  "account_hash_from_public_key blake2b_hash_fn public_key =
     blake2b_hash_fn (map of_char (algorithm_name public_key) @ [0] @ public_key_bytes public_key)"

text \<open>A key that one of the crates has produced prints as bytes that the crate reads back as the same key.\<close>

fun public_key_valid :: "curves \<Rightarrow> public_key \<Rightarrow> bool" where
  "public_key_valid cv PKSystem = True"
| "public_key_valid cv (PKEd25519 key) \<longleftrightarrow> length key = 32 \<and> ed25519_decode cv key = Some key"
| "public_key_valid cv (PKSecp256k1 key) \<longleftrightarrow> length key = 33 \<and> secp256k1_decode cv key = Some key"

lemma public_key_stream:
  "stream_codec (public_key_valid cv) public_key_serialized_length public_key_write_bytes (public_key_from_bytes cv)"
proof (unfold_locales, goal_cases)
  case (1 x w out)
  then show ?case
    by (cases x) (auto simp: public_key_from_bytes_def public_key_tag_defs array_from_bytes_def)
qed

interpretation public_key_writer: bytes_writer "public_key_valid cv" public_key_serialized_length public_key_to_bytes
  public_key_write_bytes "public_key_from_bytes cv" for cv
  by (rule bytes_writer_struct [OF public_key_stream])
    (auto simp: public_key_to_bytes_def fun_eq_iff allocate_buffer_def split: public_key.splits)

end
