(* ===== verification/Bids.thy ===== *)
theory Bids
  imports Public_Keys
begin

text \<open>
  The data of the auction that lives in the global state (\<^verbatim>\<open>types/src/system/auction/\<close>): vesting schedules
  (\<^verbatim>\<open>bid/vesting.rs\<close>), delegators, bids, purses that are being withdrawn or unbonded, and the allocations of an era, with
  their operations, errors and encodings. A bid that is locked can never be withdrawn below what its schedule still locks
  (\<open>vesting_protects_stake\<close>).
\<close>

section \<open>Numbers\<close>

text \<open>The operators of \<open>U512\<close> panic on overflow and on division by zero.\<close>

definition U512_sub :: "u512 \<Rightarrow> u512 \<Rightarrow> ('e, u512) result" where
  "U512_sub a b = (if b \<le> a then Ok (a - b) else Panic)"

definition U512_div :: "u512 \<Rightarrow> u512 \<Rightarrow> ('e, u512) result" where
  "U512_div a b = (if b = 0 then Panic else Ok (a div b))"

datatype (plugins only: code size) auction_error =
  MissingKey | InvalidKeyVariant | MissingValue | AuctionSerialization | TransferToBidPurse | InvalidAmount | BidNotFound
  | ValidatorNotFound | DelegatorNotFound | AuctionStorage | Bonding | Unbonding | ReleaseFounderStake | GetBalance
  | InvalidContext | ValidatorFundsLocked | InvalidCaller | InvalidPublicKey | BondNotFound | CreatePurseFailed | UnbondTooLarge
  | BondTooSmall | MissingDelegations | MismatchedEraValidators | MintReward | InvalidValidatorSlotsValue | MintReduceTotalSupply
  | TransferToDelegatorPurse | ValidatorRewardTransfer | DelegatorRewardTransfer | WithdrawDelegatorReward
  | WithdrawValidatorReward | TransferToUnbondingPurse | RecordEraInfo | AuctionCLValue | MissingSeigniorageRecipients
  | AuctionTransfer | DelegationRateTooLarge | DelegatorFundsLocked | ArithmeticOverflow | AuctionGasLimit
  | AuctionRuntimeStackOverflow | MintError | ExceededDelegatorSizeLimit | GlobalDelegatorCapacityReached
  | DelegationAmountTooSmall | AuctionRuntimeStack

section \<open>Vesting schedules\<close>

definition DAY_MILLIS :: nat where "DAY_MILLIS = 24 * 60 * 60 * 1000"
definition DAYS_IN_WEEK :: nat where "DAYS_IN_WEEK = 7"
definition WEEK_MILLIS :: nat where "WEEK_MILLIS = DAYS_IN_WEEK * DAY_MILLIS"
definition VESTING_SCHEDULE_LENGTH_DAYS :: nat where "VESTING_SCHEDULE_LENGTH_DAYS = 91"
definition VESTING_SCHEDULE_LENGTH_MILLIS :: u64 where
  "VESTING_SCHEDULE_LENGTH_MILLIS = word_of_nat (VESTING_SCHEDULE_LENGTH_DAYS * DAY_MILLIS)"
definition LOCKED_AMOUNTS_LENGTH :: nat where "LOCKED_AMOUNTS_LENGTH = VESTING_SCHEDULE_LENGTH_DAYS div DAYS_IN_WEEK + 1"

definition UNINITIALIZED_LOCKED_AMOUNTS_TAG :: u8 where "UNINITIALIZED_LOCKED_AMOUNTS_TAG = 0"
definition INITIALIZED_14W_FIXED_LOCKED_AMOUNTS_TAG :: u8 where "INITIALIZED_14W_FIXED_LOCKED_AMOUNTS_TAG = 1"
definition VARIABLE_LOCKED_AMOUNTS_LENGTH_TAG :: u8 where "VARIABLE_LOCKED_AMOUNTS_LENGTH_TAG = 2"

lemmas vesting_consts = DAY_MILLIS_def DAYS_IN_WEEK_def WEEK_MILLIS_def VESTING_SCHEDULE_LENGTH_DAYS_def
  VESTING_SCHEDULE_LENGTH_MILLIS_def LOCKED_AMOUNTS_LENGTH_def
lemmas vesting_tags = UNINITIALIZED_LOCKED_AMOUNTS_TAG_def INITIALIZED_14W_FIXED_LOCKED_AMOUNTS_TAG_def
  VARIABLE_LOCKED_AMOUNTS_LENGTH_TAG_def

record vesting_schedule =
  vs_initial_release :: u64
  vs_locked_amounts :: "u512 list option"

definition vesting_schedule_period_to_weeks :: "u64 \<Rightarrow> u64" where
  "vesting_schedule_period_to_weeks vesting_schedule_period_millis =
     vesting_schedule_period_millis div word_of_nat DAY_MILLIS div word_of_nat DAYS_IN_WEEK"

definition vesting_schedule_new :: "u64 \<Rightarrow> vesting_schedule" where
  "vesting_schedule_new initial_release = \<lparr>vs_initial_release = initial_release, vs_locked_amounts = None\<rparr>"

fun weekly_releases :: "nat \<Rightarrow> u512 \<Rightarrow> u512 \<Rightarrow> u512 list \<Rightarrow> ('e, u512 list) result" where
  "weekly_releases 0 weekly_release remaining_locked locked_amounts = Ok locked_amounts"
| "weekly_releases (Suc n) weekly_release remaining_locked locked_amounts =
     res_bind (U512_sub remaining_locked weekly_release) (\<lambda>remaining_locked.
     weekly_releases n weekly_release remaining_locked (locked_amounts @ [remaining_locked]))"

definition initialize_with_schedule ::
  "vesting_schedule \<Rightarrow> u512 \<Rightarrow> u64 \<Rightarrow> ('e, bool \<times> vesting_schedule) result" where
  "initialize_with_schedule self staked_amount vesting_schedule_period_millis =
     (if vs_locked_amounts self \<noteq> None then Ok (False, self)
      else let locked_amounts_length = vesting_schedule_period_to_weeks vesting_schedule_period_millis in
        if locked_amounts_length = 0 \<or> vesting_schedule_period_millis = 0
        then Ok (True, self\<lparr>vs_locked_amounts := Some [0]\<rparr>)
        else
          res_bind (U512_div staked_amount (ucast (locked_amounts_length + 1))) (\<lambda>weekly_release.
          res_bind (weekly_releases (unat locked_amounts_length) weekly_release staked_amount []) (\<lambda>locked_amounts.
          Ok (True, self\<lparr>vs_locked_amounts := Some (locked_amounts @ [0])\<rparr>))))"

definition vesting_initialize :: "vesting_schedule \<Rightarrow> u512 \<Rightarrow> ('e, bool \<times> vesting_schedule) result" where
  "vesting_initialize self staked_amount = initialize_with_schedule self staked_amount VESTING_SCHEDULE_LENGTH_MILLIS"

definition locked_amount :: "vesting_schedule \<Rightarrow> u64 \<Rightarrow> u512 option" where
  "locked_amount self timestamp_millis =
     (case vs_locked_amounts self of None \<Rightarrow> None
      | Some locked_amounts \<Rightarrow>
          (case checked_sub timestamp_millis (vs_initial_release self) of None \<Rightarrow> None
           | Some index_timestamp \<Rightarrow>
               (let index = unat index_timestamp div WEEK_MILLIS
                in Some (if index < length locked_amounts then locked_amounts ! index else 0))))"

definition is_vesting :: "vesting_schedule \<Rightarrow> u64 \<Rightarrow> u64 \<Rightarrow> bool" where
  "is_vesting self timestamp_millis vesting_schedule_period_millis =
     (let vested_period =
        (case vs_locked_amounts self of
           Some locked_amounts \<Rightarrow>
             (let vesting_weeks = length locked_amounts - 1;
                  vesting_weeks_millis = u64_saturating_mul (word_of_nat vesting_weeks) (word_of_nat WEEK_MILLIS)
              in u64_saturating_add (vs_initial_release self) vesting_weeks_millis)
         | None \<Rightarrow> u64_saturating_add (vs_initial_release self) vesting_schedule_period_millis)
      in timestamp_millis < vested_period)"

definition vesting_schedule_serialized_length :: "vesting_schedule \<Rightarrow> nat" where
  "vesting_schedule_serialized_length self =
     8 + 1 + (case vs_locked_amounts self of
                Some locked_amounts \<Rightarrow> iterator_serialized_length U512_serialized_length locked_amounts
              | None \<Rightarrow> 0)"

definition vesting_schedule_write_bytes :: "vesting_schedule write_bytes" where
  "vesting_schedule_write_bytes self writer =
     res_bind (u64_write_bytes (vs_initial_release self) writer) (\<lambda>w.
     case vs_locked_amounts self of
       None \<Rightarrow> u8_write_bytes UNINITIALIZED_LOCKED_AMOUNTS_TAG w
     | Some locked_amounts \<Rightarrow>
         res_bind (u8_write_bytes VARIABLE_LOCKED_AMOUNTS_LENGTH_TAG w) (\<lambda>w. vec_write_bytes U512_write_bytes locked_amounts w))"

definition vesting_schedule_to_bytes :: "vesting_schedule to_bytes" where
  "vesting_schedule_to_bytes self =
     res_bind (allocate_buffer (vesting_schedule_serialized_length self)) (\<lambda>result. vesting_schedule_write_bytes self result)"

definition vesting_schedule_from_bytes :: "heap \<Rightarrow> vesting_schedule from_bytes" where
  "vesting_schedule_from_bytes h bs =
     res_bind (u64_from_bytes bs) (\<lambda>(initial_release, bytes).
     res_bind (u8_from_bytes bytes) (\<lambda>(locked_amounts_tag, bytes).
     if locked_amounts_tag = UNINITIALIZED_LOCKED_AMOUNTS_TAG then
       Ok (\<lparr>vs_initial_release = initial_release, vs_locked_amounts = None\<rparr>, bytes)
     else if locked_amounts_tag = INITIALIZED_14W_FIXED_LOCKED_AMOUNTS_TAG then
       res_bind (read_items U512_from_bytes (\<lambda>x xs. xs @ [x]) LOCKED_AMOUNTS_LENGTH [] bytes) (\<lambda>(locked_amounts, bytes).
       Ok (\<lparr>vs_initial_release = initial_release, vs_locked_amounts = Some locked_amounts\<rparr>, bytes))
     else if locked_amounts_tag = VARIABLE_LOCKED_AMOUNTS_LENGTH_TAG then
       res_bind (vec_from_bytes (heap_alloc h) (heap_size h ''U512'') (heap_align h ''U512'') U512_from_bytes bytes)
         (\<lambda>(locked_amounts, bytes).
       Ok (\<lparr>vs_initial_release = initial_release, vs_locked_amounts = Some locked_amounts\<rparr>, bytes))
     else Err Formatting))"

section \<open>Delegators\<close>

record delegator =
  dlg_delegator_public_key :: public_key
  dlg_staked_amount :: u512
  dlg_bonding_purse :: uref
  dlg_validator_public_key :: public_key
  dlg_vesting_schedule :: "vesting_schedule option"

definition delegator_unlocked :: "public_key \<Rightarrow> u512 \<Rightarrow> uref \<Rightarrow> public_key \<Rightarrow> delegator" where
  "delegator_unlocked delegator_public_key staked_amount bonding_purse validator_public_key =
     \<lparr>dlg_delegator_public_key = delegator_public_key, dlg_staked_amount = staked_amount, dlg_bonding_purse = bonding_purse,
      dlg_validator_public_key = validator_public_key, dlg_vesting_schedule = None\<rparr>"

definition delegator_locked :: "public_key \<Rightarrow> u512 \<Rightarrow> uref \<Rightarrow> public_key \<Rightarrow> u64 \<Rightarrow> delegator" where
  "delegator_locked delegator_public_key staked_amount bonding_purse validator_public_key release_timestamp_millis =
     \<lparr>dlg_delegator_public_key = delegator_public_key, dlg_staked_amount = staked_amount, dlg_bonding_purse = bonding_purse,
      dlg_validator_public_key = validator_public_key,
      dlg_vesting_schedule = Some (vesting_schedule_new release_timestamp_millis)\<rparr>"

text \<open>What a schedule allows a stake to become: the part that \<open>Bid\<close> and \<open>Delegator\<close> share.\<close>

definition vesting_allows :: "vesting_schedule option \<Rightarrow> auction_error \<Rightarrow> u512 \<Rightarrow> u64 \<Rightarrow> (auction_error, unit) result" where
  "vesting_allows schedule funds_locked updated_staked_amount era_end_timestamp_millis =
     (case schedule of None \<Rightarrow> Ok ()
      | Some vesting_schedule \<Rightarrow>
          (case locked_amount vesting_schedule era_end_timestamp_millis of
             None \<Rightarrow> Err funds_locked
           | Some locked \<Rightarrow> if updated_staked_amount < locked then Err funds_locked else Ok ()))"

definition delegator_decrease_stake :: "delegator \<Rightarrow> u512 \<Rightarrow> u64 \<Rightarrow> (auction_error, u512 \<times> delegator) result" where
  "delegator_decrease_stake self amount era_end_timestamp_millis =
     res_bind (ok_or (checked_sub (dlg_staked_amount self) amount) InvalidAmount) (\<lambda>updated_staked_amount.
     res_bind (vesting_allows (dlg_vesting_schedule self) DelegatorFundsLocked updated_staked_amount era_end_timestamp_millis) (\<lambda>_.
     Ok (updated_staked_amount, self\<lparr>dlg_staked_amount := updated_staked_amount\<rparr>)))"

definition delegator_increase_stake :: "delegator \<Rightarrow> u512 \<Rightarrow> (auction_error, u512 \<times> delegator) result" where
  "delegator_increase_stake self amount =
     res_bind (ok_or (checked_add (dlg_staked_amount self) amount) InvalidAmount) (\<lambda>updated_staked_amount.
     Ok (updated_staked_amount, self\<lparr>dlg_staked_amount := updated_staked_amount\<rparr>))"

definition delegator_serialized_length :: "delegator \<Rightarrow> nat" where
  "delegator_serialized_length self =
     public_key_serialized_length (dlg_delegator_public_key self) + U512_serialized_length (dlg_staked_amount self) +
     uref_serialized_length (dlg_bonding_purse self) + public_key_serialized_length (dlg_validator_public_key self) +
     option_serialized_length vesting_schedule_serialized_length (dlg_vesting_schedule self)"

definition delegator_write_bytes :: "delegator write_bytes" where
  "delegator_write_bytes self writer =
     res_bind (public_key_write_bytes (dlg_delegator_public_key self) writer) (\<lambda>w.
     res_bind (U512_write_bytes (dlg_staked_amount self) w) (\<lambda>w.
     res_bind (uref_write_bytes (dlg_bonding_purse self) w) (\<lambda>w.
     res_bind (public_key_write_bytes (dlg_validator_public_key self) w) (\<lambda>w.
     option_write_bytes vesting_schedule_write_bytes (dlg_vesting_schedule self) w))))"

definition delegator_to_bytes :: "delegator to_bytes" where
  "delegator_to_bytes self =
     res_bind (allocate_buffer (delegator_serialized_length self)) (\<lambda>buffer.
     res_bind (default_write_bytes public_key_to_bytes (dlg_delegator_public_key self) buffer) (\<lambda>buffer.
     res_bind (default_write_bytes U512_to_bytes (dlg_staked_amount self) buffer) (\<lambda>buffer.
     res_bind (default_write_bytes uref_to_bytes (dlg_bonding_purse self) buffer) (\<lambda>buffer.
     res_bind (default_write_bytes public_key_to_bytes (dlg_validator_public_key self) buffer) (\<lambda>buffer.
     default_write_bytes (option_to_bytes vesting_schedule_serialized_length vesting_schedule_to_bytes)
       (dlg_vesting_schedule self) buffer)))))"

definition delegator_from_bytes :: "curves \<Rightarrow> heap \<Rightarrow> delegator from_bytes" where
  "delegator_from_bytes cv h bs =
     res_bind (public_key_from_bytes cv bs) (\<lambda>(delegator_public_key, bytes).
     res_bind (U512_from_bytes bytes) (\<lambda>(staked_amount, bytes).
     res_bind (uref_from_bytes bytes) (\<lambda>(bonding_purse, bytes).
     res_bind (public_key_from_bytes cv bytes) (\<lambda>(validator_public_key, bytes).
     res_bind (option_from_bytes (vesting_schedule_from_bytes h) bytes) (\<lambda>(vesting_schedule, bytes).
     Ok (\<lparr>dlg_delegator_public_key = delegator_public_key, dlg_staked_amount = staked_amount, dlg_bonding_purse = bonding_purse,
          dlg_validator_public_key = validator_public_key, dlg_vesting_schedule = vesting_schedule\<rparr>, bytes))))))"

section \<open>Bids\<close>

record bid =
  bid_validator_public_key :: public_key
  bid_bonding_purse :: uref
  bid_staked_amount :: u512
  bid_delegation_rate :: u8
  bid_vesting_schedule :: "vesting_schedule option"
  bid_delegators :: "(public_key \<times> delegator) list"
  bid_inactive :: bool

definition bid_locked :: "public_key \<Rightarrow> uref \<Rightarrow> u512 \<Rightarrow> u8 \<Rightarrow> u64 \<Rightarrow> bid" where
  "bid_locked validator_public_key bonding_purse staked_amount delegation_rate release_timestamp_millis =
     \<lparr>bid_validator_public_key = validator_public_key, bid_bonding_purse = bonding_purse, bid_staked_amount = staked_amount,
      bid_delegation_rate = delegation_rate, bid_vesting_schedule = Some (vesting_schedule_new release_timestamp_millis),
      bid_delegators = [], bid_inactive = False\<rparr>"

definition bid_unlocked :: "public_key \<Rightarrow> uref \<Rightarrow> u512 \<Rightarrow> u8 \<Rightarrow> bid" where
  "bid_unlocked validator_public_key bonding_purse staked_amount delegation_rate =
     \<lparr>bid_validator_public_key = validator_public_key, bid_bonding_purse = bonding_purse, bid_staked_amount = staked_amount,
      bid_delegation_rate = delegation_rate, bid_vesting_schedule = None, bid_delegators = [], bid_inactive = False\<rparr>"

definition bid_empty :: "public_key \<Rightarrow> uref \<Rightarrow> bid" where
  "bid_empty validator_public_key bonding_purse =
     \<lparr>bid_validator_public_key = validator_public_key, bid_bonding_purse = bonding_purse, bid_staked_amount = 0,
      bid_delegation_rate = 0, bid_vesting_schedule = None, bid_delegators = [], bid_inactive = True\<rparr>"

definition is_locked_with_vesting_schedule :: "bid \<Rightarrow> u64 \<Rightarrow> u64 \<Rightarrow> bool" where
  "is_locked_with_vesting_schedule self timestamp_millis vesting_schedule_period_millis =
     (case bid_vesting_schedule self of
        Some vesting_schedule \<Rightarrow> is_vesting vesting_schedule timestamp_millis vesting_schedule_period_millis
      | None \<Rightarrow> False)"

definition bid_decrease_stake :: "bid \<Rightarrow> u512 \<Rightarrow> u64 \<Rightarrow> (auction_error, u512 \<times> bid) result" where
  "bid_decrease_stake self amount era_end_timestamp_millis =
     res_bind (ok_or (checked_sub (bid_staked_amount self) amount) UnbondTooLarge) (\<lambda>updated_staked_amount.
     res_bind (vesting_allows (bid_vesting_schedule self) ValidatorFundsLocked updated_staked_amount era_end_timestamp_millis) (\<lambda>_.
     Ok (updated_staked_amount, self\<lparr>bid_staked_amount := updated_staked_amount\<rparr>)))"

definition bid_increase_stake :: "bid \<Rightarrow> u512 \<Rightarrow> (auction_error, u512 \<times> bid) result" where
  "bid_increase_stake self amount =
     res_bind (ok_or (checked_add (bid_staked_amount self) amount) InvalidAmount) (\<lambda>updated_staked_amount.
     Ok (updated_staked_amount, self\<lparr>bid_staked_amount := updated_staked_amount\<rparr>))"

definition with_delegation_rate :: "bid \<Rightarrow> u8 \<Rightarrow> bid" where
  "with_delegation_rate self delegation_rate = self\<lparr>bid_delegation_rate := delegation_rate\<rparr>"

fun process_delegators ::
  "u64 \<Rightarrow> u64 \<Rightarrow> (public_key \<times> delegator) list \<Rightarrow> bool \<Rightarrow> ('e, bool \<times> (public_key \<times> delegator) list) result" where
  "process_delegators timestamp_millis period [] initialized = Ok (initialized, [])"
| "process_delegators timestamp_millis period ((pk, delegator) # rest) initialized =
     res_bind (case dlg_vesting_schedule delegator of
         Some vesting_schedule \<Rightarrow>
           if timestamp_millis \<ge> vs_initial_release vesting_schedule then
             res_bind (initialize_with_schedule vesting_schedule (dlg_staked_amount delegator) period) (\<lambda>(done, vesting_schedule).
             Ok (initialized \<or> done, delegator\<lparr>dlg_vesting_schedule := Some vesting_schedule\<rparr>))
           else Ok (initialized, delegator)
       | None \<Rightarrow> Ok (initialized, delegator)) (\<lambda>(initialized, delegator).
     res_bind (process_delegators timestamp_millis period rest initialized) (\<lambda>(initialized, rest).
     Ok (initialized, (pk, delegator) # rest)))"

definition process_with_vesting_schedule :: "bid \<Rightarrow> u64 \<Rightarrow> u64 \<Rightarrow> ('e, bool \<times> bid) result" where
  "process_with_vesting_schedule self timestamp_millis vesting_schedule_period_millis =
     (case bid_vesting_schedule self of
        None \<Rightarrow> Ok (False, self)
      | Some vesting_schedule \<Rightarrow>
          if timestamp_millis < vs_initial_release vesting_schedule then Ok (False, self)
          else
            res_bind (initialize_with_schedule vesting_schedule (bid_staked_amount self) vesting_schedule_period_millis)
              (\<lambda>(initialized, vesting_schedule).
            res_bind (process_delegators timestamp_millis vesting_schedule_period_millis (bid_delegators self) initialized)
              (\<lambda>(initialized, delegators).
            Ok (initialized, self\<lparr>bid_vesting_schedule := Some vesting_schedule, bid_delegators := delegators\<rparr>))))"

definition bid_activate :: "bid \<Rightarrow> bool \<times> bid" where
  "bid_activate self = (False, self\<lparr>bid_inactive := False\<rparr>)"

definition bid_deactivate :: "bid \<Rightarrow> bool \<times> bid" where
  "bid_deactivate self = (True, self\<lparr>bid_inactive := True\<rparr>)"

text \<open>What \<open>slash\<close> of the auction does to the bid it has read, before it is written back: through \<open>staked_amount_mut\<close> it
  takes the stake of the validator and of every delegator, whatever the schedules lock, and deactivates the bid.\<close>

definition slash_bid :: "bid \<Rightarrow> bid" where
  "slash_bid bid =
     (let bid = bid\<lparr>bid_staked_amount := 0\<rparr>;
          bid = snd (bid_deactivate bid)
      in bid\<lparr>bid_delegators := map (\<lambda>(pk, delegator). (pk, delegator\<lparr>dlg_staked_amount := 0\<rparr>)) (bid_delegators bid)\<rparr>)"

definition total_staked_amount :: "bid \<Rightarrow> (auction_error, u512) result" where
  "total_staked_amount self =
     ok_or (Option.bind (foldl (\<lambda>maybe_a (_, b). Option.bind maybe_a (\<lambda>a. checked_add a (dlg_staked_amount b)))
              (Some 0) (bid_delegators self))
       (\<lambda>delegators_sum. checked_add delegators_sum (bid_staked_amount self))) InvalidAmount"

definition bid_serialized_length :: "bid \<Rightarrow> nat" where
  "bid_serialized_length self =
     public_key_serialized_length (bid_validator_public_key self) + uref_serialized_length (bid_bonding_purse self) +
     U512_serialized_length (bid_staked_amount self) + u8_serialized_length (bid_delegation_rate self) +
     option_serialized_length vesting_schedule_serialized_length (bid_vesting_schedule self) +
     btreemap_serialized_length public_key_serialized_length delegator_serialized_length (bid_delegators self) +
     bool_serialized_length (bid_inactive self)"

definition bid_write_bytes :: "bid write_bytes" where
  "bid_write_bytes self writer =
     res_bind (public_key_write_bytes (bid_validator_public_key self) writer) (\<lambda>w.
     res_bind (uref_write_bytes (bid_bonding_purse self) w) (\<lambda>w.
     res_bind (U512_write_bytes (bid_staked_amount self) w) (\<lambda>w.
     res_bind (u8_write_bytes (bid_delegation_rate self) w) (\<lambda>w.
     res_bind (option_write_bytes vesting_schedule_write_bytes (bid_vesting_schedule self) w) (\<lambda>w.
     res_bind (btreemap_write_bytes public_key_write_bytes delegator_write_bytes (bid_delegators self) w) (\<lambda>w.
     bool_write_bytes (bid_inactive self) w))))))"

definition bid_to_bytes :: "bid to_bytes" where
  "bid_to_bytes self = res_bind (allocate_buffer (bid_serialized_length self)) (\<lambda>result.
     res_bind (public_key_write_bytes (bid_validator_public_key self) result) (\<lambda>w.
     res_bind (uref_write_bytes (bid_bonding_purse self) w) (\<lambda>w.
     res_bind (U512_write_bytes (bid_staked_amount self) w) (\<lambda>w.
     res_bind (u8_write_bytes (bid_delegation_rate self) w) (\<lambda>w.
     res_bind (option_write_bytes vesting_schedule_write_bytes (bid_vesting_schedule self) w) (\<lambda>w.
     res_bind (btreemap_write_bytes public_key_write_bytes delegator_write_bytes (bid_delegators self) w) (\<lambda>w.
     bool_write_bytes (bid_inactive self) w)))))))"

definition bid_from_bytes :: "curves \<Rightarrow> heap \<Rightarrow> bid from_bytes" where
  "bid_from_bytes cv h bs =
     res_bind (public_key_from_bytes cv bs) (\<lambda>(validator_public_key, bytes).
     res_bind (uref_from_bytes bytes) (\<lambda>(bonding_purse, bytes).
     res_bind (U512_from_bytes bytes) (\<lambda>(staked_amount, bytes).
     res_bind (u8_from_bytes bytes) (\<lambda>(delegation_rate, bytes).
     res_bind (option_from_bytes (vesting_schedule_from_bytes h) bytes) (\<lambda>(vesting_schedule, bytes).
     res_bind (btreemap_from_bytes (public_key_from_bytes cv) (delegator_from_bytes cv h) bytes) (\<lambda>(delegators, bytes).
     res_bind (bool_from_bytes bytes) (\<lambda>(inactive, bytes).
     Ok (\<lparr>bid_validator_public_key = validator_public_key, bid_bonding_purse = bonding_purse, bid_staked_amount = staked_amount,
          bid_delegation_rate = delegation_rate, bid_vesting_schedule = vesting_schedule, bid_delegators = delegators,
          bid_inactive = inactive\<rparr>, bytes))))))))"

section \<open>Purses that are being withdrawn or unbonded\<close>

record withdraw_purse =
  wp_bonding_purse :: uref
  wp_validator_public_key :: public_key
  wp_unbonder_public_key :: public_key
  wp_era_of_creation :: era_id
  wp_amount :: u512

definition withdraw_purse_serialized_length :: "withdraw_purse \<Rightarrow> nat" where
  "withdraw_purse_serialized_length self =
     uref_serialized_length (wp_bonding_purse self) + public_key_serialized_length (wp_validator_public_key self) +
     public_key_serialized_length (wp_unbonder_public_key self) + 8 + U512_serialized_length (wp_amount self)"

definition withdraw_purse_to_bytes :: "withdraw_purse to_bytes" where
  "withdraw_purse_to_bytes self =
     res_bind (allocate_buffer (withdraw_purse_serialized_length self)) (\<lambda>result.
     res_bind (default_write_bytes uref_to_bytes (wp_bonding_purse self) result) (\<lambda>result.
     res_bind (default_write_bytes public_key_to_bytes (wp_validator_public_key self) result) (\<lambda>result.
     res_bind (default_write_bytes public_key_to_bytes (wp_unbonder_public_key self) result) (\<lambda>result.
     res_bind (default_write_bytes era_to_bytes (wp_era_of_creation self) result) (\<lambda>result.
     default_write_bytes U512_to_bytes (wp_amount self) result)))))"

definition withdraw_purse_from_bytes :: "curves \<Rightarrow> withdraw_purse from_bytes" where
  "withdraw_purse_from_bytes cv bs =
     res_bind (uref_from_bytes bs) (\<lambda>(bonding_purse, remainder).
     res_bind (public_key_from_bytes cv remainder) (\<lambda>(validator_public_key, remainder).
     res_bind (public_key_from_bytes cv remainder) (\<lambda>(unbonder_public_key, remainder).
     res_bind (era_from_bytes remainder) (\<lambda>(era_of_creation, remainder).
     res_bind (U512_from_bytes remainder) (\<lambda>(amount, remainder).
     Ok (\<lparr>wp_bonding_purse = bonding_purse, wp_validator_public_key = validator_public_key,
          wp_unbonder_public_key = unbonder_public_key, wp_era_of_creation = era_of_creation, wp_amount = amount\<rparr>, remainder))))))"

record unbonding_purse =
  ubp_bonding_purse :: uref
  ubp_validator_public_key :: public_key
  ubp_unbonder_public_key :: public_key
  ubp_era_of_creation :: era_id
  ubp_amount :: u512
  ubp_new_validator :: "public_key option"

definition unbonding_purse_from_withdraw :: "withdraw_purse \<Rightarrow> unbonding_purse" where
  "unbonding_purse_from_withdraw withdraw_purse =
     \<lparr>ubp_bonding_purse = wp_bonding_purse withdraw_purse, ubp_validator_public_key = wp_validator_public_key withdraw_purse,
      ubp_unbonder_public_key = wp_unbonder_public_key withdraw_purse, ubp_era_of_creation = wp_era_of_creation withdraw_purse,
      ubp_amount = wp_amount withdraw_purse, ubp_new_validator = None\<rparr>"

definition unbonding_purse_serialized_length :: "unbonding_purse \<Rightarrow> nat" where
  "unbonding_purse_serialized_length self =
     uref_serialized_length (ubp_bonding_purse self) + public_key_serialized_length (ubp_validator_public_key self) +
     public_key_serialized_length (ubp_unbonder_public_key self) + 8 + U512_serialized_length (ubp_amount self) +
     option_serialized_length public_key_serialized_length (ubp_new_validator self)"

definition unbonding_purse_to_bytes :: "unbonding_purse to_bytes" where
  "unbonding_purse_to_bytes self =
     res_bind (allocate_buffer (unbonding_purse_serialized_length self)) (\<lambda>result.
     res_bind (default_write_bytes uref_to_bytes (ubp_bonding_purse self) result) (\<lambda>result.
     res_bind (default_write_bytes public_key_to_bytes (ubp_validator_public_key self) result) (\<lambda>result.
     res_bind (default_write_bytes public_key_to_bytes (ubp_unbonder_public_key self) result) (\<lambda>result.
     res_bind (default_write_bytes era_to_bytes (ubp_era_of_creation self) result) (\<lambda>result.
     res_bind (default_write_bytes U512_to_bytes (ubp_amount self) result) (\<lambda>result.
     default_write_bytes (option_to_bytes public_key_serialized_length public_key_to_bytes) (ubp_new_validator self) result))))))"

definition unbonding_purse_write_bytes :: "unbonding_purse write_bytes" where
  "unbonding_purse_write_bytes self writer =
     res_bind (uref_write_bytes (ubp_bonding_purse self) writer) (\<lambda>w.
     res_bind (public_key_write_bytes (ubp_validator_public_key self) w) (\<lambda>w.
     res_bind (public_key_write_bytes (ubp_unbonder_public_key self) w) (\<lambda>w.
     res_bind (era_write_bytes (ubp_era_of_creation self) w) (\<lambda>w.
     res_bind (U512_write_bytes (ubp_amount self) w) (\<lambda>w.
     option_write_bytes public_key_write_bytes (ubp_new_validator self) w)))))"

definition unbonding_purse_from_bytes :: "curves \<Rightarrow> unbonding_purse from_bytes" where
  "unbonding_purse_from_bytes cv bs =
     res_bind (uref_from_bytes bs) (\<lambda>(bonding_purse, remainder).
     res_bind (public_key_from_bytes cv remainder) (\<lambda>(validator_public_key, remainder).
     res_bind (public_key_from_bytes cv remainder) (\<lambda>(unbonder_public_key, remainder).
     res_bind (era_from_bytes remainder) (\<lambda>(era_of_creation, remainder).
     res_bind (U512_from_bytes remainder) (\<lambda>(amount, remainder).
     res_bind (option_from_bytes (public_key_from_bytes cv) remainder) (\<lambda>(new_validator, remainder).
     Ok (\<lparr>ubp_bonding_purse = bonding_purse, ubp_validator_public_key = validator_public_key,
          ubp_unbonder_public_key = unbonder_public_key, ubp_era_of_creation = era_of_creation, ubp_amount = amount,
          ubp_new_validator = new_validator\<rparr>, remainder)))))))"

section \<open>The allocations of an era\<close>

definition SEIGNIORAGE_ALLOCATION_VALIDATOR_TAG :: u8 where "SEIGNIORAGE_ALLOCATION_VALIDATOR_TAG = 0"
definition SEIGNIORAGE_ALLOCATION_DELEGATOR_TAG :: u8 where "SEIGNIORAGE_ALLOCATION_DELEGATOR_TAG = 1"

datatype seigniorage_allocation = AllocValidator public_key u512 | AllocDelegator public_key public_key u512

fun seigniorage_allocation_serialized_length :: "seigniorage_allocation \<Rightarrow> nat" where
  "seigniorage_allocation_serialized_length (AllocValidator validator_public_key amount) =
     1 + (public_key_serialized_length validator_public_key + U512_serialized_length amount)"
| "seigniorage_allocation_serialized_length (AllocDelegator delegator_public_key validator_public_key amount) =
     1 + (public_key_serialized_length delegator_public_key + public_key_serialized_length validator_public_key +
          U512_serialized_length amount)"

fun seigniorage_allocation_write_bytes :: "seigniorage_allocation write_bytes" where
  "seigniorage_allocation_write_bytes (AllocValidator validator_public_key amount) writer =
     res_bind (public_key_write_bytes validator_public_key (writer @ [SEIGNIORAGE_ALLOCATION_VALIDATOR_TAG])) (\<lambda>w.
     U512_write_bytes amount w)"
| "seigniorage_allocation_write_bytes (AllocDelegator delegator_public_key validator_public_key amount) writer =
     res_bind (public_key_write_bytes delegator_public_key (writer @ [SEIGNIORAGE_ALLOCATION_DELEGATOR_TAG])) (\<lambda>w.
     res_bind (public_key_write_bytes validator_public_key w) (\<lambda>w. U512_write_bytes amount w))"

definition seigniorage_allocation_from_bytes :: "curves \<Rightarrow> seigniorage_allocation from_bytes" where
  "seigniorage_allocation_from_bytes cv bs =
     res_bind (u8_from_bytes bs) (\<lambda>(tag, rem).
     if tag = SEIGNIORAGE_ALLOCATION_VALIDATOR_TAG then
       res_bind (public_key_from_bytes cv rem) (\<lambda>(validator_public_key, rem).
       res_bind (U512_from_bytes rem) (\<lambda>(amount, rem). Ok (AllocValidator validator_public_key amount, rem)))
     else if tag = SEIGNIORAGE_ALLOCATION_DELEGATOR_TAG then
       res_bind (public_key_from_bytes cv rem) (\<lambda>(delegator_public_key, rem).
       res_bind (public_key_from_bytes cv rem) (\<lambda>(validator_public_key, rem).
       res_bind (U512_from_bytes rem) (\<lambda>(amount, rem). Ok (AllocDelegator delegator_public_key validator_public_key amount, rem))))
     else Err Formatting)"

type_synonym era_info = "seigniorage_allocation list"

definition era_info_select :: "era_info \<Rightarrow> public_key \<Rightarrow> seigniorage_allocation list" where
  "era_info_select self public_key =
     filter (\<lambda>allocation. case allocation of AllocValidator validator_public_key _ \<Rightarrow> public_key = validator_public_key
       | AllocDelegator delegator_public_key _ _ \<Rightarrow> public_key = delegator_public_key) self"

definition era_info_serialized_length :: "era_info \<Rightarrow> nat" where
  "era_info_serialized_length self = iterator_serialized_length seigniorage_allocation_serialized_length self"

definition era_info_write_bytes :: "era_info write_bytes" where
  "era_info_write_bytes self writer = vec_write_bytes seigniorage_allocation_write_bytes self writer"

definition era_info_to_bytes :: "era_info to_bytes" where
  "era_info_to_bytes self =
     res_bind (allocate_buffer (era_info_serialized_length self)) (\<lambda>result.
     vec_write_bytes seigniorage_allocation_write_bytes self result)"

definition era_info_from_bytes :: "curves \<Rightarrow> heap \<Rightarrow> era_info from_bytes" where
  "era_info_from_bytes cv h bs =
     vec_from_bytes (heap_alloc h) (heap_size h ''SeigniorageAllocation'') (heap_align h ''SeigniorageAllocation'')
       (seigniorage_allocation_from_bytes cv) bs"

section \<open>The encodings\<close>

abbreviation granted :: "heap \<Rightarrow> string \<Rightarrow> 'a list \<Rightarrow> bool" where
  "granted h ty xs \<equiv> capacity_granted (heap_alloc h) (heap_size h ty) (heap_align h ty) (length xs)"

abbreviation heap_vec :: "heap \<Rightarrow> string \<Rightarrow> 'a from_bytes \<Rightarrow> 'a list from_bytes" where
  "heap_vec h ty fb \<equiv> vec_from_bytes (heap_alloc h) (heap_size h ty) (heap_align h ty) fb"

lemma stream_heap_vec:
  "stream_codec valid sl wb fb \<Longrightarrow>
   stream_codec (\<lambda>xs. (\<forall>x\<in>set xs. valid x) \<and> granted h ty xs) (iterator_serialized_length sl) (vec_write_bytes wb) (heap_vec h ty fb)"
  by (rule stream_vec)

lemma stream_taggedE:
  assumes "stream_codec v sl wb fb" "v x" "wb x (w @ [tag]) = Ok out"
  obtains bs where "out = w @ tag # bs" "length bs = sl x" "\<And>rest. fb (bs @ rest) = Ok (x, rest)"
    "\<And>w'. wb x (w' @ [tag]) = Ok (w' @ tag # bs)"
  using stream_tagged [OF assms] by blast

definition vesting_schedule_valid :: "heap \<Rightarrow> vesting_schedule \<Rightarrow> bool" where
  "vesting_schedule_valid h s \<longleftrightarrow> (\<forall>l. vs_locked_amounts s = Some l \<longrightarrow> granted h ''U512'' l)"

lemma vesting_schedule_stream:
  "stream_codec (vesting_schedule_valid h) vesting_schedule_serialized_length vesting_schedule_write_bytes
     (vesting_schedule_from_bytes h)"
proof (unfold_locales, goal_cases)
  case (1 s w out)
  obtain rel la where s: "s = \<lparr>vs_initial_release = rel, vs_locked_amounts = la\<rparr>" by (cases s) auto
  let ?r = "to_le_bytes 8 rel"
  show ?case
  proof (cases la)
    case None
    with 1 show ?thesis
      by (intro exI [of _ "?r @ [UNINITIALIZED_LOCKED_AMOUNTS_TAG]"])
        (simp add: s vesting_schedule_write_bytes_def u64_write_bytes_def le_write_bytes_def u8_write_bytes_def
          vesting_schedule_serialized_length_def vesting_schedule_from_bytes_def u64_from_bytes_def)
  next
    case (Some l)
    have v: "(\<forall>x\<in>set l. True) \<and> granted h ''U512'' l" using 1(1) Some by (simp add: s vesting_schedule_valid_def)
    have "vec_write_bytes U512_write_bytes l ((w @ ?r) @ [VARIABLE_LOCKED_AMOUNTS_LENGTH_TAG]) = Ok out"
      using 1(2) Some by (simp add: s vesting_schedule_write_bytes_def u64_write_bytes_def le_write_bytes_def u8_write_bytes_def)
    from stream_taggedE [where x = l, OF stream_heap_vec [OF U512_stream, of h "''U512''"] v this]
    obtain bs where bs: "out = (w @ ?r) @ VARIABLE_LOCKED_AMOUNTS_LENGTH_TAG # bs"
        "length bs = iterator_serialized_length U512_serialized_length l"
        "\<And>rest. heap_vec h ''U512'' U512_from_bytes (bs @ rest) = Ok (l, rest)"
        "\<And>w'. vec_write_bytes U512_write_bytes l (w' @ [VARIABLE_LOCKED_AMOUNTS_LENGTH_TAG]) = Ok (w' @ VARIABLE_LOCKED_AMOUNTS_LENGTH_TAG # bs)"
      by metis
    have wr: "vesting_schedule_write_bytes s w' = Ok (w' @ ?r @ VARIABLE_LOCKED_AMOUNTS_LENGTH_TAG # bs)" for w'
      using bs(4) [of "w' @ ?r"]
      by (simp add: s Some vesting_schedule_write_bytes_def u64_write_bytes_def le_write_bytes_def u8_write_bytes_def)
    have rd: "vesting_schedule_from_bytes h ((?r @ VARIABLE_LOCKED_AMOUNTS_LENGTH_TAG # bs) @ rest) = Ok (s, rest)" for rest
      using bs(3) [of rest] by (simp add: s Some vesting_schedule_from_bytes_def u64_from_bytes_def vesting_tags)
    from bs(1,2) wr rd show ?thesis
      by (intro exI [of _ "?r @ VARIABLE_LOCKED_AMOUNTS_LENGTH_TAG # bs"])
        (simp add: s Some vesting_schedule_serialized_length_def)
  qed
qed

interpretation vesting_schedule_writer: bytes_writer "vesting_schedule_valid h" vesting_schedule_serialized_length
  vesting_schedule_to_bytes vesting_schedule_write_bytes "vesting_schedule_from_bytes h" for h
  by (rule bytes_writer_struct [OF vesting_schedule_stream]) (simp add: vesting_schedule_to_bytes_def)

definition delegator_valid :: "curves \<Rightarrow> heap \<Rightarrow> delegator \<Rightarrow> bool" where
  "delegator_valid cv h d \<longleftrightarrow> public_key_valid cv (dlg_delegator_public_key d) \<and> uref_valid (dlg_bonding_purse d) \<and>
     public_key_valid cv (dlg_validator_public_key d) \<and>
     (\<forall>s. dlg_vesting_schedule d = Some s \<longrightarrow> vesting_schedule_valid h s)"

lemma delegator_stream:
  "stream_codec (delegator_valid cv h) delegator_serialized_length delegator_write_bytes (delegator_from_bytes cv h)"
  by (rule stream_map [OF stream_pair [OF public_key_stream stream_pair [OF U512_stream stream_pair [OF uref_stream
        stream_pair [OF public_key_stream stream_option [OF vesting_schedule_stream]]]]],
        where f = "\<lambda>d. (dlg_delegator_public_key d, dlg_staked_amount d, dlg_bonding_purse d, dlg_validator_public_key d,
            dlg_vesting_schedule d)"
          and g = "\<lambda>(a, b, c, d, e). \<lparr>dlg_delegator_public_key = a, dlg_staked_amount = b, dlg_bonding_purse = c,
            dlg_validator_public_key = d, dlg_vesting_schedule = e\<rparr>"])
    (auto simp: delegator_valid_def delegator_serialized_length_def delegator_write_bytes_def entry_write_bytes_def [abs_def]
      delegator_from_bytes_def fb_map_def entry_from_bytes_def res_bind_assoc split_def)

lemmas public_key_extends = extend_writes [OF public_key_writer.bytesrepr_axioms]
lemmas uref_extends = extend_writes [OF uref_writer.bytesrepr_axioms]
lemmas era_extends = extend_writes [OF era_bytesrepr]

lemma option_extends:
  "bytesrepr valid sl tb wb fb \<Longrightarrow> (\<And>v. x = Some v \<Longrightarrow> valid v) \<Longrightarrow>
   default_write_bytes (option_to_bytes sl tb) x w = Ok out \<Longrightarrow> option_write_bytes wb x w = Ok out"
  by (cases x) (auto simp: default_write_bytes_def res_simps bytesrepr.tb_write)

interpretation delegator_writer: bytes_writer "delegator_valid cv h" delegator_serialized_length delegator_to_bytes
  delegator_write_bytes "delegator_from_bytes cv h" for cv h
  by (rule bytes_writer_struct_extend [OF delegator_stream delegator_to_bytes_def])
    (unfold delegator_write_bytes_def delegator_valid_def res_bind_eq_Ok,
     meson public_key_extends uref_extends option_extends [OF vesting_schedule_writer.bytesrepr_axioms])

definition bid_valid :: "curves \<Rightarrow> heap \<Rightarrow> bid \<Rightarrow> bool" where
  "bid_valid cv h b \<longleftrightarrow> public_key_valid cv (bid_validator_public_key b) \<and> uref_valid (bid_bonding_purse b) \<and>
     (\<forall>s. bid_vesting_schedule b = Some s \<longrightarrow> vesting_schedule_valid h s) \<and>
     (\<forall>(k, d)\<in>set (bid_delegators b). public_key_valid cv k \<and> delegator_valid cv h d) \<and> btree_wf (bid_delegators b)"

lemma bid_stream: "stream_codec (bid_valid cv h) bid_serialized_length bid_write_bytes (bid_from_bytes cv h)"
  by (rule stream_map [OF stream_pair [OF public_key_stream stream_pair [OF uref_stream stream_pair [OF U512_stream
        stream_pair [OF u8_stream stream_pair [OF stream_option [OF vesting_schedule_stream]
          stream_pair [OF stream_btreemap [OF public_key_stream delegator_stream] bool_stream.stream_codec_axioms]]]]]],
        where f = "\<lambda>b. (bid_validator_public_key b, bid_bonding_purse b, bid_staked_amount b, bid_delegation_rate b,
            bid_vesting_schedule b, bid_delegators b, bid_inactive b)"
          and g = "\<lambda>(a, b, c, d, e, f, g). \<lparr>bid_validator_public_key = a, bid_bonding_purse = b, bid_staked_amount = c,
            bid_delegation_rate = d, bid_vesting_schedule = e, bid_delegators = f, bid_inactive = g\<rparr>"])
    (auto simp: bid_valid_def bid_serialized_length_def bid_write_bytes_def entry_write_bytes_def [abs_def]
      bid_from_bytes_def fb_map_def entry_from_bytes_def res_bind_assoc split_def)

interpretation bid_writer: bytes_writer "bid_valid cv h" bid_serialized_length bid_to_bytes bid_write_bytes "bid_from_bytes cv h"
  for cv h
  by (rule bytes_writer_struct [OF bid_stream]) (simp add: bid_to_bytes_def bid_write_bytes_def [abs_def])

definition withdraw_purse_valid :: "curves \<Rightarrow> withdraw_purse \<Rightarrow> bool" where
  "withdraw_purse_valid cv p \<longleftrightarrow> uref_valid (wp_bonding_purse p) \<and> public_key_valid cv (wp_validator_public_key p) \<and>
     public_key_valid cv (wp_unbonder_public_key p)"

text \<open>A withdrawal overrides only \<open>to_bytes\<close>; its \<open>write_bytes\<close> is the provided method.\<close>

definition withdraw_purse_fields :: "withdraw_purse write_bytes" where
  "withdraw_purse_fields self result =
     res_bind (default_write_bytes uref_to_bytes (wp_bonding_purse self) result) (\<lambda>result.
     res_bind (default_write_bytes public_key_to_bytes (wp_validator_public_key self) result) (\<lambda>result.
     res_bind (default_write_bytes public_key_to_bytes (wp_unbonder_public_key self) result) (\<lambda>result.
     res_bind (default_write_bytes era_to_bytes (wp_era_of_creation self) result) (\<lambda>result.
     default_write_bytes U512_to_bytes (wp_amount self) result))))"

lemma withdraw_purse_stream:
  "stream_codec (withdraw_purse_valid cv) withdraw_purse_serialized_length withdraw_purse_fields (withdraw_purse_from_bytes cv)"
  by (rule stream_map [OF stream_pair [OF stream_extend [OF uref_writer.bytesrepr_axioms]
        stream_pair [OF stream_extend [OF public_key_writer.bytesrepr_axioms]
          stream_pair [OF stream_extend [OF public_key_writer.bytesrepr_axioms]
            stream_pair [OF stream_extend [OF era_bytesrepr] U512_stream]]]],
        where f = "\<lambda>p. (wp_bonding_purse p, wp_validator_public_key p, wp_unbonder_public_key p, wp_era_of_creation p, wp_amount p)"
          and g = "\<lambda>(a, b, c, d, e). \<lparr>wp_bonding_purse = a, wp_validator_public_key = b, wp_unbonder_public_key = c,
            wp_era_of_creation = d, wp_amount = e\<rparr>"])
    (auto simp: withdraw_purse_valid_def withdraw_purse_serialized_length_def withdraw_purse_fields_def
      entry_write_bytes_def [abs_def] withdraw_purse_from_bytes_def fb_map_def entry_from_bytes_def res_bind_assoc split_def)

interpretation withdraw_purse_writer: bytes_writer "withdraw_purse_valid cv" withdraw_purse_serialized_length
  withdraw_purse_to_bytes "default_write_bytes withdraw_purse_to_bytes" "withdraw_purse_from_bytes cv" for cv
proof (rule bytes_writer_default, rule bytesrepr_default, goal_cases)
  have w: "bytes_writer (withdraw_purse_valid cv) withdraw_purse_serialized_length withdraw_purse_to_bytes
      withdraw_purse_fields (withdraw_purse_from_bytes cv)"
    by (rule bytes_writer_struct [OF withdraw_purse_stream])
      (simp add: withdraw_purse_to_bytes_def withdraw_purse_fields_def [abs_def])
  case (1 x bs)
  then show ?case by (rule bytesrepr.tb_length [OF bytes_writer.axioms(1) [OF w]])
next
  have w: "bytes_writer (withdraw_purse_valid cv) withdraw_purse_serialized_length withdraw_purse_to_bytes
      withdraw_purse_fields (withdraw_purse_from_bytes cv)"
    by (rule bytes_writer_struct [OF withdraw_purse_stream])
      (simp add: withdraw_purse_to_bytes_def withdraw_purse_fields_def [abs_def])
  case (2 x bs rest)
  then show ?case by (rule bytesrepr.roundtrip [OF bytes_writer.axioms(1) [OF w]])
qed

definition unbonding_purse_valid :: "curves \<Rightarrow> unbonding_purse \<Rightarrow> bool" where
  "unbonding_purse_valid cv p \<longleftrightarrow> uref_valid (ubp_bonding_purse p) \<and> public_key_valid cv (ubp_validator_public_key p) \<and>
     public_key_valid cv (ubp_unbonder_public_key p) \<and> (\<forall>v. ubp_new_validator p = Some v \<longrightarrow> public_key_valid cv v)"

lemma unbonding_purse_stream:
  "stream_codec (unbonding_purse_valid cv) unbonding_purse_serialized_length unbonding_purse_write_bytes
     (unbonding_purse_from_bytes cv)"
  by (rule stream_map [OF stream_pair [OF uref_stream stream_pair [OF public_key_stream stream_pair [OF public_key_stream
        stream_pair [OF era_stream stream_pair [OF U512_stream stream_option [OF public_key_stream]]]]]],
        where f = "\<lambda>p. (ubp_bonding_purse p, ubp_validator_public_key p, ubp_unbonder_public_key p, ubp_era_of_creation p,
            ubp_amount p, ubp_new_validator p)"
          and g = "\<lambda>(a, b, c, d, e, f). \<lparr>ubp_bonding_purse = a, ubp_validator_public_key = b, ubp_unbonder_public_key = c,
            ubp_era_of_creation = d, ubp_amount = e, ubp_new_validator = f\<rparr>"])
    (auto simp: unbonding_purse_valid_def unbonding_purse_serialized_length_def unbonding_purse_write_bytes_def
      entry_write_bytes_def [abs_def] unbonding_purse_from_bytes_def fb_map_def entry_from_bytes_def res_bind_assoc split_def)

interpretation unbonding_purse_writer: bytes_writer "unbonding_purse_valid cv" unbonding_purse_serialized_length
  unbonding_purse_to_bytes unbonding_purse_write_bytes "unbonding_purse_from_bytes cv" for cv
  by (rule bytes_writer_struct_extend [OF unbonding_purse_stream unbonding_purse_to_bytes_def])
    (unfold unbonding_purse_write_bytes_def unbonding_purse_valid_def res_bind_eq_Ok,
     meson public_key_extends uref_extends era_extends option_extends [OF public_key_writer.bytesrepr_axioms])

fun seigniorage_allocation_valid :: "curves \<Rightarrow> seigniorage_allocation \<Rightarrow> bool" where
  "seigniorage_allocation_valid cv (AllocValidator v _) \<longleftrightarrow> public_key_valid cv v"
| "seigniorage_allocation_valid cv (AllocDelegator d v _) \<longleftrightarrow> public_key_valid cv d \<and> public_key_valid cv v"

lemma seigniorage_allocation_stream:
  "stream_codec (seigniorage_allocation_valid cv) seigniorage_allocation_serialized_length seigniorage_allocation_write_bytes
     (seigniorage_allocation_from_bytes cv)"
proof (unfold_locales, goal_cases)
  case (1 x w out)
  show ?case
  proof (cases x)
    case (AllocValidator v a)
    let ?tag = SEIGNIORAGE_ALLOCATION_VALIDATOR_TAG
    have "(\<lambda>(x, y). public_key_valid cv x \<and> True) (v, a)"
      and "entry_write_bytes public_key_write_bytes U512_write_bytes (v, a) (w @ [?tag]) = Ok out"
      using 1 by (simp_all add: AllocValidator entry_write_bytes_def)
    from stream_taggedE [OF stream_pair [OF public_key_stream U512_stream] this]
    obtain bs where "out = w @ ?tag # bs" "length bs = public_key_serialized_length v + U512_serialized_length a"
      "\<And>rest. entry_from_bytes (public_key_from_bytes cv) U512_from_bytes (bs @ rest) = Ok ((v, a), rest)"
      "\<And>w'. entry_write_bytes public_key_write_bytes U512_write_bytes (v, a) (w' @ [?tag]) = Ok (w' @ ?tag # bs)"
      by auto
    then show ?thesis
      by (intro exI [of _ "?tag # bs"])
        (auto simp: AllocValidator seigniorage_allocation_from_bytes_def entry_write_bytes_def entry_from_bytes_def res_simps split_def)
  next
    case (AllocDelegator d v a)
    let ?tag = SEIGNIORAGE_ALLOCATION_DELEGATOR_TAG
    have "(\<lambda>(x, y). public_key_valid cv x \<and> (\<lambda>(x, y). public_key_valid cv x \<and> True) y) (d, v, a)"
      and "entry_write_bytes public_key_write_bytes (entry_write_bytes public_key_write_bytes U512_write_bytes) (d, v, a) (w @ [?tag]) = Ok out"
      using 1 by (simp_all add: AllocDelegator entry_write_bytes_def [abs_def])
    from stream_taggedE [OF stream_pair [OF public_key_stream stream_pair [OF public_key_stream U512_stream]] this]
    obtain bs where "out = w @ ?tag # bs"
      "length bs = public_key_serialized_length d + (public_key_serialized_length v + U512_serialized_length a)"
      "\<And>rest. entry_from_bytes (public_key_from_bytes cv) (entry_from_bytes (public_key_from_bytes cv) U512_from_bytes) (bs @ rest)
         = Ok ((d, v, a), rest)"
      "\<And>w'. entry_write_bytes public_key_write_bytes (entry_write_bytes public_key_write_bytes U512_write_bytes) (d, v, a) (w' @ [?tag])
         = Ok (w' @ ?tag # bs)"
      by auto
    then show ?thesis
      by (intro exI [of _ "?tag # bs"])
        (auto simp: AllocDelegator seigniorage_allocation_from_bytes_def entry_write_bytes_def [abs_def] entry_from_bytes_def res_simps split_def
          SEIGNIORAGE_ALLOCATION_VALIDATOR_TAG_def SEIGNIORAGE_ALLOCATION_DELEGATOR_TAG_def, metis)
  qed
qed

definition era_info_valid :: "curves \<Rightarrow> heap \<Rightarrow> era_info \<Rightarrow> bool" where
  "era_info_valid cv h e \<longleftrightarrow> (\<forall>a\<in>set e. seigniorage_allocation_valid cv a) \<and> granted h ''SeigniorageAllocation'' e"

lemma era_info_stream: "stream_codec (era_info_valid cv h) era_info_serialized_length era_info_write_bytes (era_info_from_bytes cv h)"
  unfolding era_info_valid_def [abs_def] era_info_serialized_length_def [abs_def] era_info_write_bytes_def [abs_def]
    era_info_from_bytes_def [abs_def]
  by (rule stream_heap_vec [OF seigniorage_allocation_stream])

interpretation era_info_writer: bytes_writer "era_info_valid cv h" era_info_serialized_length era_info_to_bytes
  era_info_write_bytes "era_info_from_bytes cv h" for cv h
  by (rule bytes_writer_struct [OF era_info_stream]) (simp add: era_info_to_bytes_def era_info_write_bytes_def [abs_def])

section \<open>What a schedule locks\<close>

lemma unat_weeks:
  "unat (vesting_schedule_period_to_weeks p) = unat p div WEEK_MILLIS" "unat p div WEEK_MILLIS < 2 ^ 35"
proof -
  show "unat (vesting_schedule_period_to_weeks p) = unat p div WEEK_MILLIS"
    by (simp add: vesting_schedule_period_to_weeks_def vesting_consts unat_div div_mult2_eq)
  have "unat p div WEEK_MILLIS \<le> 2 ^ 64 div WEEK_MILLIS"
    using unat_lt2p [of p] by (intro div_le_mono) simp
  then show "unat p div WEEK_MILLIS < 2 ^ 35" by (simp add: vesting_consts)
qed

lemma weekly_releases_Ok:
  assumes "n * unat r \<le> unat a"
  shows "(weekly_releases n r a acc :: ('e, u512 list) result) = Ok (acc @ map (\<lambda>i. word_of_nat (unat a - Suc i * unat r)) [0..<n])"
  using assms
proof (induction n arbitrary: a acc)
  case (Suc n)
  then have le: "r \<le> a" by (simp add: word_le_nat_alt)
  then have u: "unat (a - r) = unat a - unat r" by (simp add: unat_sub word_le_nat_alt)
  with Suc.prems have "n * unat r \<le> unat (a - r)" by simp
  from Suc.IH [OF this, of "acc @ [a - r]"] le
  have "(weekly_releases (Suc n) r a acc :: ('e, u512 list) result) = Ok (acc @ (a - r) # map (\<lambda>i. word_of_nat (unat (a - r) - Suc i * unat r)) [0..<n])"
    by (simp add: U512_sub_def)
  moreover have "a - r = word_of_nat (unat a - unat r)" by (simp flip: u)
  moreover have "map (\<lambda>i. word_of_nat (unat (a - r) - Suc i * unat r)) [0..<n]
      = map (\<lambda>i. word_of_nat (unat a - Suc i * unat r) :: u512) [1..<Suc n]"
    unfolding One_nat_def map_Suc_upt [symmetric] map_map by (rule map_cong) (simp_all add: u)
  ultimately show ?case by (simp add: upt_conv_Cons del: upt_Suc)
qed simp

text \<open>The schedule that \<open>initialize_with_schedule\<close> computes, over the natural numbers: after the \<open>i\<close>-th week \<open>i + 1\<close>
  parts of \<open>weeks + 1\<close> are free, and in the last entry everything is.\<close>

definition locked_after :: "u512 \<Rightarrow> u64 \<Rightarrow> nat \<Rightarrow> nat" where
  "locked_after stake period i =
     (let weeks = unat period div WEEK_MILLIS
      in if i < weeks then unat stake - Suc i * (unat stake div Suc weeks) else 0)"

lemma initialize_new:
  assumes "vs_locked_amounts s = None"
  shows "(initialize_with_schedule s stake period :: ('e, bool \<times> vesting_schedule) result) =
    Ok (True, s\<lparr>vs_locked_amounts := Some (map (\<lambda>i. word_of_nat (locked_after stake period i)) [0..<Suc (unat period div WEEK_MILLIS)])\<rparr>)"
proof (cases "unat period div WEEK_MILLIS = 0")
  case True
  then have "vesting_schedule_period_to_weeks period = 0" using unat_weeks(1) [of period] by (simp add: unat_eq_0)
  with True assms show ?thesis by (simp add: initialize_with_schedule_def locked_after_def Let_def)
next
  case False
  let ?w = "vesting_schedule_period_to_weeks period" and ?n = "unat period div WEEK_MILLIS"
  have w: "?w \<noteq> 0" "period \<noteq> 0" using False unat_weeks(1) [of period] by auto
  have "unat (?w + 1) = Suc ?n"
    using unat_weeks [of period] by (simp add: unat_word_ariths)
  moreover have "Suc ?n < 2 ^ LENGTH(512)" using unat_weeks(2) [of period] by simp
  ultimately have d: "unat (ucast (?w + 1) :: u512) = Suc ?n"
    by (simp only: unsigned_ucast_eq take_bit_nat_eq_self)
  then have nz: "(ucast (?w + 1) :: u512) \<noteq> 0" by auto
  let ?r = "stake div ucast (?w + 1)"
  have r: "unat ?r = unat stake div Suc ?n" using d by (simp add: unat_div)
  have "?n * unat ?r \<le> unat stake"
    unfolding r by (meson div_times_less_eq_dividend le_SucI mult_le_mono1 order.trans order_refl times_div_less_eq_dividend)
  from weekly_releases_Ok [OF this, of "[]"]
  have "(weekly_releases (unat ?w) ?r stake [] :: ('e, u512 list) result) =
      Ok (map (\<lambda>i. word_of_nat (unat stake - Suc i * (unat stake div Suc ?n))) [0..<?n])"
    by (simp add: unat_weeks r)
  also have "map (\<lambda>i. word_of_nat (unat stake - Suc i * (unat stake div Suc ?n))) [0..<?n] =
      (map (\<lambda>i. word_of_nat (locked_after stake period i)) [0..<?n] :: u512 list)"
    by (rule map_cong) (simp_all add: locked_after_def Let_def)
  finally have "(weekly_releases (unat ?w) ?r stake [] :: ('e, u512 list) result) =
      Ok (map (\<lambda>i. word_of_nat (locked_after stake period i)) [0..<?n])" .
  moreover have "locked_after stake period ?n = 0" by (simp add: locked_after_def)
  ultimately show ?thesis using w nz assms by (simp add: initialize_with_schedule_def U512_div_def Let_def)
qed

lemma locked_after_le: "locked_after stake period i \<le> unat stake"
  by (simp add: locked_after_def Let_def)

lemma locked_after_antimono: "i \<le> j \<Longrightarrow> locked_after stake period j \<le> locked_after stake period i"
  by (auto simp: locked_after_def Let_def intro!: diff_le_mono2 mult_le_mono1)

lemma unat_locked_after: "unat (word_of_nat (locked_after stake period i) :: u512) = locked_after stake period i"
  by (rule unat_of_nat_eq) (rule le_less_trans [OF locked_after_le unat_lt2p])

lemma initialize_old: "vs_locked_amounts s \<noteq> None \<Longrightarrow> initialize_with_schedule s stake period = Ok (False, s)"
  by (simp add: initialize_with_schedule_def)

lemma initialize_release: "initialize_with_schedule s stake period = Ok (i, s') \<Longrightarrow> vs_initial_release s' = vs_initial_release s"
  by (cases "vs_locked_amounts s") (auto simp: initialize_new initialize_old)

text \<open>A table that never grows: what is locked later is at most what is locked earlier.\<close>

definition vesting_wf :: "vesting_schedule \<Rightarrow> bool" where
  "vesting_wf s \<longleftrightarrow> (\<forall>l. vs_locked_amounts s = Some l \<longrightarrow> sorted_wrt (\<ge>) l)"

lemma initialize_wf:
  assumes "initialize_with_schedule s stake period = Ok (i, s')" "vesting_wf s"
  shows "vesting_wf s'"
proof (cases "vs_locked_amounts s")
  case None
  have "sorted_wrt (\<ge>) (map (\<lambda>i. word_of_nat (locked_after stake period i) :: u512) [0..<n])" for n
    by (auto simp: sorted_wrt_map word_le_nat_alt unat_locked_after sorted_wrt_iff_nth_less locked_after_antimono)
  with None assms(1) show ?thesis by (auto simp: initialize_new vesting_wf_def simp del: upt_Suc)
next
  case (Some l)
  with assms show ?thesis by (simp add: initialize_old)
qed

lemma locked_amount_antimono:
  assumes "vesting_wf s" "t \<le> t'" "locked_amount s t = Some l" "locked_amount s t' = Some l'"
  shows "l' \<le> l"
proof -
  let ?r = "vs_initial_release s"
  obtain ls where ls: "vs_locked_amounts s = Some ls" "sorted_wrt (\<ge>) ls"
    using assms(1,3) by (auto simp: locked_amount_def vesting_wf_def split: option.splits)
  have r: "?r \<le> t" "?r \<le> t'" using assms(3,4) ls by (auto simp: locked_amount_def checked_sub_def split: if_splits option.splits)
  let ?i = "unat (t - ?r) div WEEK_MILLIS" and ?j = "unat (t' - ?r) div WEEK_MILLIS"
  have l: "l = (if ?i < length ls then ls ! ?i else 0)" "l' = (if ?j < length ls then ls ! ?j else 0)"
    using assms(3,4) ls r by (auto simp: locked_amount_def checked_sub_def)
  have "unat (t - ?r) \<le> unat (t' - ?r)" using r assms(2) by (simp add: unat_sub word_le_nat_alt)
  then have "?i \<le> ?j" by (rule div_le_mono)
  with ls(2) show ?thesis unfolding l
    by (cases "?i = ?j") (auto simp: sorted_wrt_iff_nth_less)
qed

section \<open>A locked stake stays locked\<close>

text \<open>What can happen to a bid. The state has the bid, the time of the last event and whether the bid was ever slashed.
  The delegators can be changed in any way, as \<open>delegators_mut\<close> allows. The other two mutable accessors have one caller
  each outside of tests, which is a step here: \<open>staked_amount_mut\<close> is used by \<open>slash\<close> and \<open>vesting_schedule_mut\<close> by
  \<open>process_with_vesting_schedule\<close>.\<close>

inductive bid_step :: "bid \<times> u64 \<times> bool \<Rightarrow> bid \<times> u64 \<times> bool \<Rightarrow> bool" where
  decrease: "t \<le> t' \<Longrightarrow> bid_decrease_stake b amount t' = Ok (r, b') \<Longrightarrow> bid_step (b, t, sl) (b', t', sl)"
| increase: "bid_increase_stake b amount = Ok (r, b') \<Longrightarrow> bid_step (b, t, sl) (b', t, sl)"
| process: "t \<le> t' \<Longrightarrow> process_with_vesting_schedule b t' period = (Ok (i, b') :: (auction_error, bool \<times> bid) result) \<Longrightarrow>
    bid_step (b, t, sl) (b', t', sl)"
| rate: "bid_step (b, t, sl) (with_delegation_rate b r, t, sl)"
| activate: "bid_step (b, t, sl) (snd (bid_activate b), t, sl)"
| deactivate: "bid_step (b, t, sl) (snd (bid_deactivate b), t, sl)"
| delegators: "bid_step (b, t, sl) (b\<lparr>bid_delegators := ds\<rparr>, t, sl)"
| slash: "bid_step (b, t, sl) (slash_bid b, t, True)"

definition stake_protected :: "u512 \<Rightarrow> u64 \<Rightarrow> bid \<times> u64 \<Rightarrow> bool" where
  "stake_protected stake release bt \<longleftrightarrow> (\<exists>s. bid_vesting_schedule (fst bt) = Some s \<and> vs_initial_release s = release \<and> vesting_wf s \<and>
     (vs_locked_amounts s = None \<longrightarrow> stake \<le> bid_staked_amount (fst bt)) \<and>
     (\<forall>t' l. snd bt \<le> t' \<longrightarrow> locked_amount s t' = Some l \<longrightarrow> l \<le> bid_staked_amount (fst bt)))"

lemma locked_amount_le_entry:
  "locked_amount s t = Some l \<Longrightarrow> vs_locked_amounts s = Some ls \<Longrightarrow> (\<forall>x\<in>set ls. x \<le> bound) \<Longrightarrow> l \<le> bound"
  by (auto simp: locked_amount_def Let_def split: option.splits if_splits)

lemma stake_protectedI:
  "bid_vesting_schedule b = Some s \<Longrightarrow> vs_initial_release s = release \<Longrightarrow> vesting_wf s \<Longrightarrow>
   (vs_locked_amounts s = None \<Longrightarrow> stake \<le> bid_staked_amount b) \<Longrightarrow>
   (\<And>t' l. t \<le> t' \<Longrightarrow> locked_amount s t' = Some l \<Longrightarrow> l \<le> bid_staked_amount b) \<Longrightarrow> stake_protected stake release (b, t)"
  unfolding stake_protected_def by auto

lemma stake_protected_decrease:
  assumes "stake_protected stake release (b, t)" "t \<le> t'" "bid_decrease_stake b amount t' = Ok (r, b')"
  shows "stake_protected stake release (b', t')"
proof -
  from assms(1) obtain s where s: "bid_vesting_schedule b = Some s" "vs_initial_release s = release" "vesting_wf s"
    by (auto simp: stake_protected_def)
  from assms(3) s(1) obtain l where l: "locked_amount s t' = Some l" "l \<le> bid_staked_amount b'"
      "bid_vesting_schedule b' = Some s"
    by (auto simp: bid_decrease_stake_def vesting_allows_def res_simps split: option.splits if_splits)
  then have n: "vs_locked_amounts s \<noteq> None" by (auto simp: locked_amount_def split: option.splits)
  show ?thesis
    using l(3) s(2,3)
  proof (rule stake_protectedI)
    fix u k
    assume "t' \<le> u" "locked_amount s u = Some k"
    from locked_amount_antimono [OF s(3) this(1) l(1) this(2)] l(2) show "k \<le> bid_staked_amount b'" by (rule order_trans)
  qed (use n in simp)
qed

lemma checked_add_le: "checked_add a b = Some c \<Longrightarrow> a \<le> c"
  by (drule checked_add_Some) (simp add: word_le_nat_alt)

lemma stake_protected_increase:
  assumes "stake_protected stake release (b, t)" "bid_increase_stake b amount = Ok (r, b')"
  shows "stake_protected stake release (b', t)"
proof -
  from assms(2) have b': "bid_vesting_schedule b' = bid_vesting_schedule b" "bid_staked_amount b \<le> bid_staked_amount b'"
    by (auto simp: bid_increase_stake_def res_simps dest: checked_add_le)
  from assms(1) obtain s where s: "bid_vesting_schedule b = Some s" "vs_initial_release s = release" "vesting_wf s"
    "vs_locked_amounts s = None \<Longrightarrow> stake \<le> bid_staked_amount b"
    "\<And>t' l. t \<le> t' \<Longrightarrow> locked_amount s t' = Some l \<Longrightarrow> l \<le> bid_staked_amount b" unfolding stake_protected_def by auto
  show ?thesis
    by (rule stake_protectedI [of _ s]) (use s b' in \<open>auto intro: order_trans [OF _ b'(2)]\<close>)
qed

lemma stake_protected_process:
  assumes p: "stake_protected stake release (b, t)" "t \<le> t'"
    and r: "process_with_vesting_schedule b t' period = (Ok (i, b') :: (auction_error, bool \<times> bid) result)"
  shows "stake_protected stake release (b', t')"
proof -
  from p obtain s where s: "bid_vesting_schedule b = Some s" "vs_initial_release s = release" "vesting_wf s"
      "\<And>t' l. t \<le> t' \<Longrightarrow> locked_amount s t' = Some l \<Longrightarrow> l \<le> bid_staked_amount b"
      "vs_locked_amounts s = None \<Longrightarrow> stake \<le> bid_staked_amount b"
    unfolding stake_protected_def by auto
  note later = order_trans [OF p(2)]
  show ?thesis
  proof (cases "t' < release")
    case True
    with r s(1,2) have "b' = b" by (simp add: process_with_vesting_schedule_def)
    with s show ?thesis by (auto intro!: stake_protectedI [of _ s] dest: later)
  next
    case False
    with r s(1,2) obtain j s' where i: "initialize_with_schedule s (bid_staked_amount b) period = (Ok (j, s') :: (auction_error, _) result)"
      and b': "bid_vesting_schedule b' = Some s'" "bid_staked_amount b' = bid_staked_amount b"
      by (auto simp: process_with_vesting_schedule_def res_simps)
    note wf = initialize_wf [OF i s(3)] and rel = initialize_release [OF i]
    show ?thesis
    proof (cases "vs_locked_amounts s")
      case None
      with i have a: "vs_locked_amounts s' =
          Some (map (\<lambda>i. word_of_nat (locked_after (bid_staked_amount b) period i)) [0..<Suc (unat period div WEEK_MILLIS)])"
        by (auto simp: initialize_new simp del: upt_Suc)
      have "l \<le> bid_staked_amount b" if "locked_amount s' u = Some l" for u l
        by (rule locked_amount_le_entry [OF that a]) (auto simp: word_le_nat_alt unat_locked_after locked_after_le)
      with b' wf rel s a show ?thesis by (auto intro!: stake_protectedI [of _ s'])
    next
      case (Some ls)
      with i have "s' = s" by (simp add: initialize_old)
      with b' s show ?thesis by (auto intro!: stake_protectedI [of _ s] dest: later)
    qed
  qed
qed

text \<open>The invariant of a bid that was created locked: it keeps a schedule with its release time and a table that never
  grows, and unless it was slashed the stake is protected.\<close>

definition has_schedule :: "u64 \<Rightarrow> bid \<Rightarrow> bool" where
  "has_schedule release b \<longleftrightarrow> (\<exists>s. bid_vesting_schedule b = Some s \<and> vs_initial_release s = release \<and> vesting_wf s)"

definition locked_bid_inv :: "u512 \<Rightarrow> u64 \<Rightarrow> bid \<times> u64 \<times> bool \<Rightarrow> bool" where
  "locked_bid_inv stake release x \<longleftrightarrow>
     has_schedule release (fst x) \<and> (\<not> snd (snd x) \<longrightarrow> stake_protected stake release (fst x, fst (snd x)))"

lemma has_schedule_process:
  assumes "has_schedule release b"
    and r: "process_with_vesting_schedule b t period = (Ok (i, b') :: (auction_error, bool \<times> bid) result)"
  shows "has_schedule release b'"
proof -
  from assms(1) obtain s where s: "bid_vesting_schedule b = Some s" "vs_initial_release s = release" "vesting_wf s"
    by (auto simp: has_schedule_def)
  show ?thesis
  proof (cases "t < release")
    case True
    with r s have "b' = b" by (simp add: process_with_vesting_schedule_def)
    with assms(1) show ?thesis by simp
  next
    case False
    with r s(1,2) obtain j s' where i: "initialize_with_schedule s (bid_staked_amount b) period = (Ok (j, s') :: (auction_error, _) result)"
      and b': "bid_vesting_schedule b' = Some s'"
      by (auto simp: process_with_vesting_schedule_def res_simps)
    from initialize_wf [OF i s(3)] initialize_release [OF i] b' s(2) show ?thesis by (simp add: has_schedule_def)
  qed
qed

lemma same_schedule:
  "bid_decrease_stake b amount t = Ok (r, b') \<Longrightarrow> bid_vesting_schedule b' = bid_vesting_schedule b"
  "bid_increase_stake b amount = Ok (r, b') \<Longrightarrow> bid_vesting_schedule b' = bid_vesting_schedule b"
  "bid_vesting_schedule (with_delegation_rate b rt) = bid_vesting_schedule b"
  "bid_vesting_schedule (snd (bid_activate b)) = bid_vesting_schedule b"
  "bid_vesting_schedule (snd (bid_deactivate b)) = bid_vesting_schedule b"
  "bid_vesting_schedule (slash_bid b) = bid_vesting_schedule b"
  by (auto simp: bid_decrease_stake_def bid_increase_stake_def with_delegation_rate_def bid_activate_def bid_deactivate_def
    slash_bid_def Let_def res_simps)

lemma locked_bid_step:
  assumes "bid_step x y" "locked_bid_inv stake release x"
  shows "locked_bid_inv stake release y"
  using assms
proof cases
  case (decrease t t' b amount r b' sl)
  with assms(2) show ?thesis
    using stake_protected_decrease [OF _ decrease(3,4)] by (auto simp: locked_bid_inv_def has_schedule_def same_schedule(1))
next
  case (increase b amount r b' t sl)
  with assms(2) show ?thesis
    using stake_protected_increase [OF _ increase(3)] by (auto simp: locked_bid_inv_def has_schedule_def same_schedule(2))
next
  case (process t t' b period i b' sl)
  with assms(2) show ?thesis
    using stake_protected_process [OF _ process(3,4)] has_schedule_process [OF _ process(4)]
    by (auto simp: locked_bid_inv_def)
qed (auto simp: locked_bid_inv_def has_schedule_def stake_protected_def same_schedule,
  auto simp: with_delegation_rate_def bid_activate_def bid_deactivate_def)

lemma decrease_leaves_locked:
  assumes "bid_decrease_stake b amount t = Ok (r, b')" "bid_vesting_schedule b = Some s" "vesting_wf s" "t \<le> u"
    "locked_amount s u = Some l"
  shows "l \<le> bid_staked_amount b'"
proof -
  from assms(1,2) obtain k where k: "locked_amount s t = Some k" "k \<le> bid_staked_amount b'"
    by (auto simp: bid_decrease_stake_def vesting_allows_def res_simps split: option.splits if_splits)
  from locked_amount_antimono [OF assms(3,4) k(1) assms(5)] k(2) show ?thesis by (rule order_trans)
qed

text \<open>C14: The stake of a bid that was created locked is protected by its schedule. Along every sequence of
  operations on the bid as time goes on, slashing and any change of the delegators included, it keeps a schedule with its release time, no stake can be
  withdrawn before the schedule is initialised, and a withdrawal leaves at least what the schedule locks at its time or
  at any later time. As long as the bid is not slashed, moreover, until the schedule is initialised the stake is never below the
  initial one, and from then on never below what the schedule locks at the present or any later time. Slashing takes the
  whole stake, as it is meant to. The memory for the table of locked amounts is assumed to be available.\<close>
theorem vesting_protects_stake:
  assumes "bid_step\<^sup>*\<^sup>* (bid_locked pk purse stake rate release, t0, False) (b, t, slashed)"
  shows "\<exists>s. bid_vesting_schedule b = Some s \<and> vs_initial_release s = release \<and>
    (\<forall>amount t' r b'. bid_decrease_stake b amount t' = Ok (r, b') \<longrightarrow> vs_locked_amounts s \<noteq> None \<and>
      (\<forall>u l. t' \<le> u \<longrightarrow> locked_amount s u = Some l \<longrightarrow> l \<le> bid_staked_amount b')) \<and>
    (\<not> slashed \<longrightarrow>
      (vs_locked_amounts s = None \<longrightarrow> stake \<le> bid_staked_amount b) \<and>
      (\<forall>t' l. t \<le> t' \<longrightarrow> locked_amount s t' = Some l \<longrightarrow> l \<le> bid_staked_amount b))"
proof -
  have start: "locked_bid_inv stake release (bid_locked pk purse stake rate release, t0, False)"
    by (simp add: locked_bid_inv_def has_schedule_def stake_protected_def bid_locked_def vesting_schedule_new_def vesting_wf_def
      locked_amount_def)
  from assms have inv: "locked_bid_inv stake release (b, t, slashed)"
    by (induction rule: rtranclp_induct) (use start locked_bid_step in auto)
  then obtain s where s: "bid_vesting_schedule b = Some s" "vs_initial_release s = release" "vesting_wf s"
    by (auto simp: locked_bid_inv_def has_schedule_def)
  moreover have "vs_locked_amounts s \<noteq> None" if "bid_decrease_stake b amount t' = Ok (r, b')" for amount t' r b'
    using that s(1) by (auto simp: bid_decrease_stake_def vesting_allows_def locked_amount_def res_simps split: option.splits)
  moreover note decrease_leaves_locked [OF _ s(1,3)]
  moreover have "stake_protected stake release (b, t)" if "\<not> slashed" using inv that by (simp add: locked_bid_inv_def)
  ultimately show ?thesis by (auto simp: stake_protected_def)
qed

definition ex_bid :: bid where
  "ex_bid = bid_locked PKSystem (uref_new [7] AR_NONE) 100 10 5"

definition ex_schedule :: vesting_schedule where
  "ex_schedule = \<lparr>vs_initial_release = 5, vs_locked_amounts = Some [67, 34, 0]\<rparr>"

definition ex_bid2 :: bid where
  "ex_bid2 = ex_bid\<lparr>bid_vesting_schedule := Some ex_schedule, bid_staked_amount := 67\<rparr>"

lemma ex_schedule_initialized:
  "initialize_with_schedule \<lparr>vs_initial_release = 5, vs_locked_amounts = None\<rparr> 100 1209600000 = Ok (True, ex_schedule)"
  by (simp add: initialize_new ex_schedule_def vesting_consts locked_after_def upt_rec)

lemma ex_bid_processed:
  "process_with_vesting_schedule ex_bid 6 1209600000 = Ok (True, ex_bid\<lparr>bid_vesting_schedule := Some ex_schedule\<rparr>)"
  by (simp add: ex_bid_def process_with_vesting_schedule_def bid_locked_def vesting_schedule_new_def ex_schedule_initialized)

lemma ex_bid_decreased: "bid_decrease_stake (ex_bid\<lparr>bid_vesting_schedule := Some ex_schedule\<rparr>) 33 7 = Ok (67, ex_bid2)"
  by (simp add: bid_decrease_stake_def ex_bid2_def ex_bid_def bid_locked_def checked_sub_def vesting_allows_def locked_amount_def
    ex_schedule_def vesting_consts)

lemma ex_bid_locked_amount: "locked_amount ex_schedule 7 = Some 67"
  by (simp add: locked_amount_def ex_schedule_def checked_sub_def vesting_consts)

theorem vesting_protects_stake_witness:
  "(\<exists>l. locked_amount ex_schedule 7 = Some l \<and> l = 67 \<and> l \<le> bid_staked_amount ex_bid2) \<and>
   bid_decrease_stake ex_bid2 33 7 \<noteq> Ok (34, ex_bid2\<lparr>bid_staked_amount := 34\<rparr>)"
proof -
  have "bid_step (ex_bid, 0, False) (ex_bid\<lparr>bid_vesting_schedule := Some ex_schedule\<rparr>, 6, False)"
    by (rule bid_step.process [OF _ ex_bid_processed]) simp
  moreover have "bid_step (ex_bid\<lparr>bid_vesting_schedule := Some ex_schedule\<rparr>, 6, False) (ex_bid2, 7, False)"
    by (rule bid_step.decrease [OF _ ex_bid_decreased]) simp
  ultimately have "bid_step\<^sup>*\<^sup>* (bid_locked PKSystem (uref_new [7] AR_NONE) 100 10 5, 0, False) (ex_bid2, 7, False)"
    by (fold ex_bid_def) (meson converse_rtranclp_into_rtranclp rtranclp.rtrancl_refl)
  from vesting_protects_stake [OF this] have
    "\<forall>amount t' r b'. bid_decrease_stake ex_bid2 amount t' = Ok (r, b') \<longrightarrow>
      (\<forall>u l. t' \<le> u \<longrightarrow> locked_amount ex_schedule u = Some l \<longrightarrow> l \<le> bid_staked_amount b')"
    "\<forall>t' l. 7 \<le> t' \<longrightarrow> locked_amount ex_schedule t' = Some l \<longrightarrow> l \<le> bid_staked_amount ex_bid2"
    by (auto simp: ex_bid2_def)
  with ex_bid_locked_amount show ?thesis by force
qed

end
