(* ===== verification/Stored_Values.thy ===== *)
theory Stored_Values
  imports Bids
begin

text \<open>
  The values of the global state (\<^verbatim>\<open>types/src/stored_value.rs\<close>) with the parts that no other theory has: transfers
  (\<^verbatim>\<open>types/src/transfer.rs\<close>), deploy information (\<^verbatim>\<open>types/src/deploy_info.rs\<close>) and contract code
  (\<^verbatim>\<open>types/src/contract_wasm.rs\<close>). The encoding of every variant meets the contract \<open>bytes_writer\<close>
  (\<open>stored_value_writer\<close>), which is what the trie asks of its values.
\<close>

section \<open>Transfers, deploy information and contract code\<close>

record transfer =
  tr_deploy_hash :: deploy_hash
  tr_from :: account_hash
  tr_to :: "account_hash option"
  tr_source :: uref
  tr_target :: uref
  tr_amount :: u512
  tr_gas :: u512
  tr_id :: "u64 option"

definition transfer_serialized_length :: "transfer \<Rightarrow> nat" where
  "transfer_serialized_length self =
     length (tr_deploy_hash self) + account_hash_serialized_length (tr_from self) +
     option_serialized_length account_hash_serialized_length (tr_to self) + uref_serialized_length (tr_source self) +
     uref_serialized_length (tr_target self) + U512_serialized_length (tr_amount self) + U512_serialized_length (tr_gas self) +
     option_serialized_length (\<lambda>_. 8) (tr_id self)"

definition transfer_write_bytes :: "transfer write_bytes" where
  "transfer_write_bytes self writer =
     res_bind (deploy_hash_write_bytes (tr_deploy_hash self) writer) (\<lambda>w.
     res_bind (account_hash_write_bytes (tr_from self) w) (\<lambda>w.
     res_bind (option_write_bytes account_hash_write_bytes (tr_to self) w) (\<lambda>w.
     res_bind (uref_write_bytes (tr_source self) w) (\<lambda>w.
     res_bind (uref_write_bytes (tr_target self) w) (\<lambda>w.
     res_bind (U512_write_bytes (tr_amount self) w) (\<lambda>w.
     res_bind (U512_write_bytes (tr_gas self) w) (\<lambda>w.
     option_write_bytes u64_write_bytes (tr_id self) w)))))))"

definition transfer_to_bytes :: "transfer to_bytes" where
  "transfer_to_bytes self =
     res_bind (allocate_buffer (transfer_serialized_length self)) (\<lambda>result.
     res_bind (deploy_hash_write_bytes (tr_deploy_hash self) result) (\<lambda>w.
     res_bind (account_hash_write_bytes (tr_from self) w) (\<lambda>w.
     res_bind (option_write_bytes account_hash_write_bytes (tr_to self) w) (\<lambda>w.
     res_bind (uref_write_bytes (tr_source self) w) (\<lambda>w.
     res_bind (uref_write_bytes (tr_target self) w) (\<lambda>w.
     res_bind (U512_write_bytes (tr_amount self) w) (\<lambda>w.
     res_bind (U512_write_bytes (tr_gas self) w) (\<lambda>w.
     option_write_bytes u64_write_bytes (tr_id self) w))))))))"

definition transfer_from_bytes :: "transfer from_bytes" where
  "transfer_from_bytes bs =
     res_bind (deploy_hash_from_bytes bs) (\<lambda>(deploy_hash, rem).
     res_bind (account_hash_from_bytes rem) (\<lambda>(from, rem).
     res_bind (option_from_bytes account_hash_from_bytes rem) (\<lambda>(to, rem).
     res_bind (uref_from_bytes rem) (\<lambda>(source, rem).
     res_bind (uref_from_bytes rem) (\<lambda>(target, rem).
     res_bind (U512_from_bytes rem) (\<lambda>(amount, rem).
     res_bind (U512_from_bytes rem) (\<lambda>(gas, rem).
     res_bind (option_from_bytes u64_from_bytes rem) (\<lambda>(id, rem).
     Ok (\<lparr>tr_deploy_hash = deploy_hash, tr_from = from, tr_to = to, tr_source = source, tr_target = target,
          tr_amount = amount, tr_gas = gas, tr_id = id\<rparr>, rem)))))))))"

record deploy_info =
  di_deploy_hash :: deploy_hash
  di_transfers :: "transfer_addr list"
  di_from :: account_hash
  di_source :: uref
  di_gas :: u512

definition deploy_info_serialized_length :: "deploy_info \<Rightarrow> nat" where
  "deploy_info_serialized_length self =
     length (di_deploy_hash self) + iterator_serialized_length length (di_transfers self) +
     account_hash_serialized_length (di_from self) + uref_serialized_length (di_source self) + U512_serialized_length (di_gas self)"

definition deploy_info_write_bytes :: "deploy_info write_bytes" where
  "deploy_info_write_bytes self writer =
     res_bind (deploy_hash_write_bytes (di_deploy_hash self) writer) (\<lambda>w.
     res_bind (vec_write_bytes transfer_addr_write_bytes (di_transfers self) w) (\<lambda>w.
     res_bind (account_hash_write_bytes (di_from self) w) (\<lambda>w.
     res_bind (uref_write_bytes (di_source self) w) (\<lambda>w.
     U512_write_bytes (di_gas self) w))))"

definition deploy_info_to_bytes :: "deploy_info to_bytes" where
  "deploy_info_to_bytes self =
     res_bind (allocate_buffer (deploy_info_serialized_length self)) (\<lambda>result.
     res_bind (deploy_hash_write_bytes (di_deploy_hash self) result) (\<lambda>w.
     res_bind (vec_write_bytes transfer_addr_write_bytes (di_transfers self) w) (\<lambda>w.
     res_bind (account_hash_write_bytes (di_from self) w) (\<lambda>w.
     res_bind (uref_write_bytes (di_source self) w) (\<lambda>w.
     U512_write_bytes (di_gas self) w)))))"

definition deploy_info_from_bytes :: "heap \<Rightarrow> deploy_info from_bytes" where
  "deploy_info_from_bytes h bs =
     res_bind (deploy_hash_from_bytes bs) (\<lambda>(deploy_hash, rem).
     res_bind (heap_vec h ''TransferAddr'' transfer_addr_from_bytes rem) (\<lambda>(transfers, rem).
     res_bind (account_hash_from_bytes rem) (\<lambda>(from, rem).
     res_bind (uref_from_bytes rem) (\<lambda>(source, rem).
     res_bind (U512_from_bytes rem) (\<lambda>(gas, rem).
     Ok (\<lparr>di_deploy_hash = deploy_hash, di_transfers = transfers, di_from = from, di_source = source, di_gas = gas\<rparr>, rem))))))"

text \<open>\<open>ContractWasm\<close> wraps the bytes of the code.\<close>

type_synonym contract_wasm = bytes

definition contract_wasm_to_bytes :: "(nat \<Rightarrow> bool) \<Rightarrow> contract_wasm to_bytes" where
  "contract_wasm_to_bytes alloc self = Bytes_to_bytes alloc self"

definition contract_wasm_write_bytes :: "contract_wasm write_bytes" where
  "contract_wasm_write_bytes self writer = write_u8_slice self writer"

definition contract_wasm_from_bytes :: "contract_wasm from_bytes" where
  "contract_wasm_from_bytes bs = res_bind (Bytes_from_bytes bs) (\<lambda>(bytes, rem1). Ok (bytes, rem1))"

section \<open>Stored values\<close>

datatype stored_value =
    SVCLValue cl_value
  | SVAccount account
  | SVContractWasm contract_wasm
  | SVContract contract
  | SVContractPackage contract_package
  | SVTransfer transfer
  | SVDeployInfo deploy_info
  | SVEraInfo era_info
  | SVBid bid
  | SVWithdraw "withdraw_purse list"
  | SVUnbonding "unbonding_purse list"

fun stored_value_tag :: "stored_value \<Rightarrow> u8" where
  "stored_value_tag (SVCLValue _) = 0"
| "stored_value_tag (SVAccount _) = 1"
| "stored_value_tag (SVContractWasm _) = 2"
| "stored_value_tag (SVContract _) = 3"
| "stored_value_tag (SVContractPackage _) = 4"
| "stored_value_tag (SVTransfer _) = 5"
| "stored_value_tag (SVDeployInfo _) = 6"
| "stored_value_tag (SVEraInfo _) = 7"
| "stored_value_tag (SVBid _) = 8"
| "stored_value_tag (SVWithdraw _) = 9"
| "stored_value_tag (SVUnbonding _) = 10"

text \<open>The derived \<open>Debug\<close> of a type description.\<close>

fun cl_type_debug :: "cl_type \<Rightarrow> string" where
  "cl_type_debug CLBool = ''Bool''"
| "cl_type_debug CLI32 = ''I32''"
| "cl_type_debug CLI64 = ''I64''"
| "cl_type_debug CLU8 = ''U8''"
| "cl_type_debug CLU32 = ''U32''"
| "cl_type_debug CLU64 = ''U64''"
| "cl_type_debug CLU128 = ''U128''"
| "cl_type_debug CLU256 = ''U256''"
| "cl_type_debug CLU512 = ''U512''"
| "cl_type_debug CLUnit = ''Unit''"
| "cl_type_debug CLString = ''String''"
| "cl_type_debug CLKey = ''Key''"
| "cl_type_debug CLURef = ''URef''"
| "cl_type_debug CLPublicKey = ''PublicKey''"
| "cl_type_debug (CLOption t) = ''Option('' @ cl_type_debug t @ '')''"
| "cl_type_debug (CLList t) = ''List('' @ cl_type_debug t @ '')''"
| "cl_type_debug (CLByteArray n) = ''ByteArray('' @ u32_show n @ '')''"
| "cl_type_debug (CLResult a b) = ''Result { ok: '' @ cl_type_debug a @ '', err: '' @ cl_type_debug b @ '' }''"
| "cl_type_debug (CLMap a b) = ''Map { key: '' @ cl_type_debug a @ '', value: '' @ cl_type_debug b @ '' }''"
| "cl_type_debug (CLTuple1 a) = ''Tuple1(['' @ cl_type_debug a @ ''])''"
| "cl_type_debug (CLTuple2 a b) = ''Tuple2(['' @ cl_type_debug a @ '', '' @ cl_type_debug b @ ''])''"
| "cl_type_debug (CLTuple3 a b c) =
     ''Tuple3(['' @ cl_type_debug a @ '', '' @ cl_type_debug b @ '', '' @ cl_type_debug c @ ''])''"
| "cl_type_debug CLAny = ''Any''"

fun stored_value_type_name :: "stored_value \<Rightarrow> string" where
  "stored_value_type_name (SVCLValue cl_value) = cl_type_debug (cl_value_type cl_value)"
| "stored_value_type_name (SVAccount _) = ''Account''"
| "stored_value_type_name (SVContractWasm _) = ''ContractWasm''"
| "stored_value_type_name (SVContract _) = ''Contract''"
| "stored_value_type_name (SVContractPackage _) = ''ContractPackage''"
| "stored_value_type_name (SVTransfer _) = ''Transfer''"
| "stored_value_type_name (SVDeployInfo _) = ''DeployInfo''"
| "stored_value_type_name (SVEraInfo _) = ''EraInfo''"
| "stored_value_type_name (SVBid _) = ''Bid''"
| "stored_value_type_name (SVWithdraw _) = ''Withdraw''"
| "stored_value_type_name (SVUnbonding _) = ''Unbonding''"

record type_mismatch =
  tm_expected :: string
  tm_found :: string

definition type_mismatch_new :: "string \<Rightarrow> string \<Rightarrow> type_mismatch" where
  "type_mismatch_new expected found = \<lparr>tm_expected = expected, tm_found = found\<rparr>"

text \<open>A contract package is also a \<open>CLValue\<close> of type \<open>Any\<close>; every other variant is refused.\<close>

fun cl_value_try_from :: "stored_value \<Rightarrow> (type_mismatch, cl_value) result" where
  "cl_value_try_from (SVCLValue cl_value) = Ok cl_value"
| "cl_value_try_from (SVContractPackage contract_package) =
     map_err (\<lambda>_. type_mismatch_new ''ContractPackage'' ''ContractPackage'')
       (cl_value_from_t CLAny contract_package_to_bytes contract_package)"
| "cl_value_try_from stored_value = Err (type_mismatch_new ''CLValue'' (stored_value_type_name stored_value))"

fun account_try_from :: "stored_value \<Rightarrow> (type_mismatch, account) result" where
  "account_try_from (SVAccount account) = Ok account"
| "account_try_from stored_value = Err (type_mismatch_new ''Account'' (stored_value_type_name stored_value))"

fun contract_try_from :: "stored_value \<Rightarrow> (type_mismatch, contract) result" where
  "contract_try_from (SVContract contract) = Ok contract"
| "contract_try_from stored_value = Err (type_mismatch_new ''Contract'' (stored_value_type_name stored_value))"

fun contract_package_try_from :: "stored_value \<Rightarrow> (type_mismatch, contract_package) result" where
  "contract_package_try_from (SVContractPackage contract_package) = Ok contract_package"
| "contract_package_try_from stored_value = Err (type_mismatch_new ''ContractPackage'' (stored_value_type_name stored_value))"

fun contract_wasm_try_from :: "stored_value \<Rightarrow> (type_mismatch, contract_wasm) result" where
  "contract_wasm_try_from (SVContractWasm contract_wasm) = Ok contract_wasm"
| "contract_wasm_try_from stored_value = Err (type_mismatch_new ''ContractWasm'' (stored_value_type_name stored_value))"

fun stored_value_body_length :: "stored_value \<Rightarrow> nat" where
  "stored_value_body_length (SVCLValue v) = cl_value_serialized_length v"
| "stored_value_body_length (SVAccount a) = account_serialized_length a"
| "stored_value_body_length (SVContractWasm w) = u8_slice_serialized_length w"
| "stored_value_body_length (SVContract c) = contract_serialized_length c"
| "stored_value_body_length (SVContractPackage p) = contract_package_serialized_length p"
| "stored_value_body_length (SVTransfer t) = transfer_serialized_length t"
| "stored_value_body_length (SVDeployInfo d) = deploy_info_serialized_length d"
| "stored_value_body_length (SVEraInfo e) = era_info_serialized_length e"
| "stored_value_body_length (SVBid b) = bid_serialized_length b"
| "stored_value_body_length (SVWithdraw ps) = iterator_serialized_length withdraw_purse_serialized_length ps"
| "stored_value_body_length (SVUnbonding ps) = iterator_serialized_length unbonding_purse_serialized_length ps"

definition stored_value_serialized_length :: "stored_value \<Rightarrow> nat" where
  "stored_value_serialized_length self = 1 + stored_value_body_length self"

fun stored_value_body_to_bytes :: "heap \<Rightarrow> stored_value to_bytes" where
  "stored_value_body_to_bytes h (SVCLValue v) = cl_value_to_bytes (heap_alloc h) v"
| "stored_value_body_to_bytes h (SVAccount a) = account_to_bytes a"
| "stored_value_body_to_bytes h (SVContractWasm w) = contract_wasm_to_bytes (heap_alloc h) w"
| "stored_value_body_to_bytes h (SVContract c) = contract_to_bytes c"
| "stored_value_body_to_bytes h (SVContractPackage p) = contract_package_to_bytes p"
| "stored_value_body_to_bytes h (SVTransfer t) = transfer_to_bytes t"
| "stored_value_body_to_bytes h (SVDeployInfo d) = deploy_info_to_bytes d"
| "stored_value_body_to_bytes h (SVEraInfo e) = era_info_to_bytes e"
| "stored_value_body_to_bytes h (SVBid b) = bid_to_bytes b"
| "stored_value_body_to_bytes h (SVWithdraw ps) =
     vec_to_bytes (heap_alloc h) withdraw_purse_serialized_length withdraw_purse_to_bytes ps"
| "stored_value_body_to_bytes h (SVUnbonding ps) =
     vec_to_bytes (heap_alloc h) unbonding_purse_serialized_length unbonding_purse_to_bytes ps"

definition stored_value_to_bytes :: "heap \<Rightarrow> stored_value to_bytes" where
  "stored_value_to_bytes h self =
     res_bind (allocate_buffer (stored_value_serialized_length self)) (\<lambda>result.
     res_bind (stored_value_body_to_bytes h self) (\<lambda>serialized_data.
     Ok (result @ [stored_value_tag self] @ serialized_data)))"

fun stored_value_body_write :: "stored_value write_bytes" where
  "stored_value_body_write (SVCLValue v) writer = cl_value_write_bytes v writer"
| "stored_value_body_write (SVAccount a) writer = account_write_bytes a writer"
| "stored_value_body_write (SVContractWasm w) writer = contract_wasm_write_bytes w writer"
| "stored_value_body_write (SVContract c) writer = contract_write_bytes c writer"
| "stored_value_body_write (SVContractPackage p) writer = contract_package_write_bytes p writer"
| "stored_value_body_write (SVTransfer t) writer = transfer_write_bytes t writer"
| "stored_value_body_write (SVDeployInfo d) writer = deploy_info_write_bytes d writer"
| "stored_value_body_write (SVEraInfo e) writer = era_info_write_bytes e writer"
| "stored_value_body_write (SVBid b) writer = bid_write_bytes b writer"
| "stored_value_body_write (SVWithdraw ps) writer = vec_write_bytes (default_write_bytes withdraw_purse_to_bytes) ps writer"
| "stored_value_body_write (SVUnbonding ps) writer = vec_write_bytes unbonding_purse_write_bytes ps writer"

definition stored_value_write_bytes :: "stored_value write_bytes" where
  "stored_value_write_bytes self writer = stored_value_body_write self (writer @ [stored_value_tag self])"

definition stored_value_from_bytes :: "curves \<Rightarrow> heap \<Rightarrow> stored_value from_bytes" where
  "stored_value_from_bytes cv h bs =
     res_bind (u8_from_bytes bs) (\<lambda>(tag, remainder).
     if tag = 0 then fb_map SVCLValue cl_value_from_bytes remainder
     else if tag = 1 then fb_map SVAccount account_from_bytes remainder
     else if tag = 2 then fb_map SVContractWasm contract_wasm_from_bytes remainder
     else if tag = 4 then fb_map SVContractPackage contract_package_from_bytes remainder
     else if tag = 3 then fb_map SVContract (contract_from_bytes h) remainder
     else if tag = 5 then fb_map SVTransfer transfer_from_bytes remainder
     else if tag = 6 then fb_map SVDeployInfo (deploy_info_from_bytes h) remainder
     else if tag = 7 then fb_map SVEraInfo (era_info_from_bytes cv h) remainder
     else if tag = 8 then fb_map SVBid (bid_from_bytes cv h) remainder
     else if tag = 9 then fb_map SVWithdraw (heap_vec h ''WithdrawPurse'' (withdraw_purse_from_bytes cv)) remainder
     else if tag = 10 then fb_map SVUnbonding (heap_vec h ''UnbondingPurse'' (unbonding_purse_from_bytes cv)) remainder
     else Err Formatting)"

section \<open>The encoding\<close>

definition transfer_valid :: "transfer \<Rightarrow> bool" where
  "transfer_valid t \<longleftrightarrow> length (tr_deploy_hash t) = 32 \<and> length (tr_from t) = 32 \<and> (\<forall>a. tr_to t = Some a \<longrightarrow> length a = 32) \<and>
     uref_valid (tr_source t) \<and> uref_valid (tr_target t)"

lemma transfer_stream: "stream_codec transfer_valid transfer_serialized_length transfer_write_bytes transfer_from_bytes"
  by (rule stream_map [OF stream_pair [OF deploy_hash_stream stream_pair [OF account_hash_stream
        stream_pair [OF stream_option [OF account_hash_stream] stream_pair [OF uref_stream stream_pair [OF uref_stream
          stream_pair [OF U512_stream stream_pair [OF U512_stream stream_option [OF u64_stream.stream_codec_axioms]]]]]]]],
        where f = "\<lambda>t. (tr_deploy_hash t, tr_from t, tr_to t, tr_source t, tr_target t, tr_amount t, tr_gas t, tr_id t)"
          and g = "\<lambda>(a, b, c, d, e, f, g, i). \<lparr>tr_deploy_hash = a, tr_from = b, tr_to = c, tr_source = d, tr_target = e,
            tr_amount = f, tr_gas = g, tr_id = i\<rparr>"])
    (auto simp: transfer_valid_def transfer_serialized_length_def transfer_write_bytes_def entry_write_bytes_def [abs_def]
      transfer_from_bytes_def fb_map_def entry_from_bytes_def res_bind_assoc split_def)

interpretation transfer_writer: bytes_writer transfer_valid transfer_serialized_length transfer_to_bytes transfer_write_bytes
  transfer_from_bytes
  by (rule bytes_writer_struct [OF transfer_stream]) (simp add: transfer_to_bytes_def transfer_write_bytes_def [abs_def])

definition deploy_info_valid :: "heap \<Rightarrow> deploy_info \<Rightarrow> bool" where
  "deploy_info_valid h d \<longleftrightarrow> length (di_deploy_hash d) = 32 \<and>
     ((\<forall>t\<in>set (di_transfers d). length t = 32) \<and> granted h ''TransferAddr'' (di_transfers d)) \<and>
     length (di_from d) = 32 \<and> uref_valid (di_source d)"

lemma deploy_info_stream:
  "stream_codec (deploy_info_valid h) deploy_info_serialized_length deploy_info_write_bytes (deploy_info_from_bytes h)"
  by (rule stream_map [OF stream_pair [OF deploy_hash_stream stream_pair [OF stream_heap_vec [OF transfer_addr_stream, of h "''TransferAddr''"]
        stream_pair [OF account_hash_stream stream_pair [OF uref_stream U512_stream]]]],
        where f = "\<lambda>d. (di_deploy_hash d, di_transfers d, di_from d, di_source d, di_gas d)"
          and g = "\<lambda>(a, b, c, d, e). \<lparr>di_deploy_hash = a, di_transfers = b, di_from = c, di_source = d, di_gas = e\<rparr>"])
    (auto simp: deploy_info_valid_def deploy_info_serialized_length_def deploy_info_write_bytes_def entry_write_bytes_def [abs_def]
      deploy_info_from_bytes_def fb_map_def entry_from_bytes_def res_bind_assoc split_def)

interpretation deploy_info_writer: bytes_writer "deploy_info_valid h" deploy_info_serialized_length deploy_info_to_bytes
  deploy_info_write_bytes "deploy_info_from_bytes h" for h
  by (rule bytes_writer_struct [OF deploy_info_stream]) (simp add: deploy_info_to_bytes_def deploy_info_write_bytes_def [abs_def])

interpretation contract_wasm_writer: bytes_writer "\<lambda>_. True" u8_slice_serialized_length "contract_wasm_to_bytes alloc"
  contract_wasm_write_bytes contract_wasm_from_bytes for alloc
proof -
  have "contract_wasm_to_bytes alloc = Bytes_to_bytes alloc" "contract_wasm_write_bytes = write_u8_slice"
    "contract_wasm_from_bytes = Bytes_from_bytes"
    by (simp_all add: fun_eq_iff contract_wasm_to_bytes_def contract_wasm_write_bytes_def contract_wasm_from_bytes_def split_def)
  then show "bytes_writer (\<lambda>_. True) u8_slice_serialized_length (contract_wasm_to_bytes alloc) contract_wasm_write_bytes
      contract_wasm_from_bytes"
    by (simp add: Bytes_writer.bytes_writer_axioms)
qed

lemma heap_vec_writer:
  assumes "bytes_writer valid sl tb wb fb"
  shows "bytes_writer (\<lambda>xs. (\<forall>x\<in>set xs. valid x) \<and> granted h ty xs) (iterator_serialized_length sl)
    (vec_to_bytes alloc sl tb) (vec_write_bytes wb) (heap_vec h ty fb)"
proof (rule bytes_writerI)
  show "bytesrepr (\<lambda>xs. (\<forall>x\<in>set xs. valid x) \<and> granted h ty xs) (iterator_serialized_length sl)
      (vec_to_bytes alloc sl tb) (vec_write_bytes wb) (heap_vec h ty fb)"
    by (rule bytesrepr_vec [OF bytes_writer.axioms(1) [OF assms]])
qed (rule stream_codec.stream [OF stream_heap_vec [OF bytes_writer_stream [OF assms]]])

text \<open>The contract at one value, and how a variant inherits it from its content.\<close>

definition lawful_at ::
  "('a \<Rightarrow> nat) \<Rightarrow> 'a to_bytes \<Rightarrow> 'a write_bytes \<Rightarrow> 'a from_bytes \<Rightarrow> 'a \<Rightarrow> bool" where
  "lawful_at sl tb wb fb x \<longleftrightarrow>
     (\<forall>bs. tb x = Ok bs \<longrightarrow> length bs = sl x \<and> (\<forall>w. wb x w = Ok (w @ bs)) \<and> (\<forall>rest. fb (bs @ rest) = Ok (x, rest))) \<and>
     (\<forall>w out. wb x w = Ok out \<longrightarrow> (\<exists>bs. out = w @ bs \<and> length bs = sl x \<and> (\<forall>rest. fb (bs @ rest) = Ok (x, rest)) \<and>
        (\<forall>w'. wb x w' = Ok (w' @ bs))))"

lemma bytes_writer_lawful: "(\<And>x. valid x \<Longrightarrow> lawful_at sl tb wb fb x) \<Longrightarrow> bytes_writer valid sl tb wb fb"
  by (intro bytes_writerI bytesreprI) (auto simp: lawful_at_def)

lemma lawful_tagged:
  assumes w: "bytes_writer v sl0 tb0 wb0 fb0" and y: "v y" and x: "x = C y" "sl x = 1 + sl0 y"
    and tb: "\<And>bs. tb x = Ok bs \<Longrightarrow> \<exists>b. tb0 y = Ok b \<and> bs = tag # b"
    and wb: "\<And>w. wb x w = wb0 y (w @ [tag])" and fb: "\<And>r. fb (tag # r) = fb_map C fb0 r"
  shows "lawful_at sl tb wb fb x"
  unfolding lawful_at_def
proof (intro conjI allI impI, goal_cases)
  case (1 bs)
  then show ?case using tb [of bs] bytesrepr.tb_length [OF bytes_writer.axioms(1) [OF w] y] by (auto simp: x(2))
next
  case (2 bs v)
  then show ?case using tb [of bs] bytesrepr.tb_write [OF bytes_writer.axioms(1) [OF w] y] by (auto simp: wb)
next
  case (3 bs rest)
  then show ?case using tb [of bs] bytesrepr.roundtrip [OF bytes_writer.axioms(1) [OF w] y] by (auto simp: fb fb_map_def x(1))
next
  case (4 v out)
  then have "wb0 y (v @ [tag]) = Ok out" by (simp only: wb)
  from stream_tagged [OF bytes_writer_stream [OF w] y this] obtain bs where "out = v @ tag # bs" "length bs = sl0 y"
      "\<forall>rest. fb0 (bs @ rest) = Ok (y, rest)" "\<forall>w'. wb x w' = Ok (w' @ tag # bs)" unfolding wb by blast
  then show ?case by (intro exI [of _ "tag # bs"]) (simp add: fb fb_map_def x(2) flip: x(1))
qed

fun stored_value_valid :: "curves \<Rightarrow> heap \<Rightarrow> stored_value \<Rightarrow> bool" where
  "stored_value_valid cv h (SVCLValue v) \<longleftrightarrow> cl_value_valid v"
| "stored_value_valid cv h (SVAccount a) \<longleftrightarrow> account_valid a"
| "stored_value_valid cv h (SVContractWasm w) \<longleftrightarrow> True"
| "stored_value_valid cv h (SVContract c) \<longleftrightarrow> contract_valid h c"
| "stored_value_valid cv h (SVContractPackage p) \<longleftrightarrow> contract_package_valid p"
| "stored_value_valid cv h (SVTransfer t) \<longleftrightarrow> transfer_valid t"
| "stored_value_valid cv h (SVDeployInfo d) \<longleftrightarrow> deploy_info_valid h d"
| "stored_value_valid cv h (SVEraInfo e) \<longleftrightarrow> era_info_valid cv h e"
| "stored_value_valid cv h (SVBid b) \<longleftrightarrow> bid_valid cv h b"
| "stored_value_valid cv h (SVWithdraw ps) \<longleftrightarrow> (\<forall>p\<in>set ps. withdraw_purse_valid cv p) \<and> granted h ''WithdrawPurse'' ps"
| "stored_value_valid cv h (SVUnbonding ps) \<longleftrightarrow> (\<forall>p\<in>set ps. unbonding_purse_valid cv p) \<and> granted h ''UnbondingPurse'' ps"

lemmas stored_value_codec = stored_value_serialized_length_def stored_value_to_bytes_def stored_value_write_bytes_def
  stored_value_from_bytes_def

interpretation stored_value_writer: bytes_writer "stored_value_valid cv h" stored_value_serialized_length "stored_value_to_bytes h"
  stored_value_write_bytes "stored_value_from_bytes cv h" for cv h
proof (rule bytes_writer_lawful)
  fix x
  assume v: "stored_value_valid cv h x"
  note t = lawful_tagged [where x = x and tag = "stored_value_tag x"]
  show "lawful_at stored_value_serialized_length (stored_value_to_bytes h) stored_value_write_bytes (stored_value_from_bytes cv h) x"
  proof (cases x)
    case (SVCLValue y)
    show ?thesis using v SVCLValue
      by (intro t [OF cl_value_writer.bytes_writer_axioms, where y = y and alloc1 = "heap_alloc h"]) (auto simp: stored_value_codec res_simps)
  next
    case (SVAccount y)
    show ?thesis using v SVAccount
      by (intro t [OF account_writer.bytes_writer_axioms, where y = y]) (auto simp: stored_value_codec res_simps)
  next
    case (SVContractWasm y)
    show ?thesis using v SVContractWasm
      by (intro t [OF contract_wasm_writer.bytes_writer_axioms, where y = y and alloc1 = "heap_alloc h"]) (auto simp: stored_value_codec res_simps)
  next
    case (SVContract y)
    show ?thesis using v SVContract
      by (intro t [OF contract_writer.bytes_writer_axioms, where y = y]) (auto simp: stored_value_codec res_simps)
  next
    case (SVContractPackage y)
    show ?thesis using v SVContractPackage
      by (intro t [OF contract_package_writer.bytes_writer_axioms, where y = y]) (auto simp: stored_value_codec res_simps)
  next
    case (SVTransfer y)
    show ?thesis using v SVTransfer
      by (intro t [OF transfer_writer.bytes_writer_axioms, where y = y]) (auto simp: stored_value_codec res_simps)
  next
    case (SVDeployInfo y)
    show ?thesis using v SVDeployInfo
      by (intro t [OF deploy_info_writer.bytes_writer_axioms, where y = y]) (auto simp: stored_value_codec res_simps)
  next
    case (SVEraInfo y)
    show ?thesis using v SVEraInfo
      by (intro t [OF era_info_writer.bytes_writer_axioms, where y = y]) (auto simp: stored_value_codec res_simps)
  next
    case (SVBid y)
    show ?thesis using v SVBid
      by (intro t [OF bid_writer.bytes_writer_axioms, where y = y]) (auto simp: stored_value_codec res_simps)
  next
    case (SVWithdraw y)
    show ?thesis using v SVWithdraw
      by (intro t [OF heap_vec_writer [OF withdraw_purse_writer.bytes_writer_axioms, where h = h and ty = "''WithdrawPurse''" and alloc = "heap_alloc h"], where y = y])
        (auto simp: stored_value_codec res_simps)
  next
    case (SVUnbonding y)
    show ?thesis using v SVUnbonding
      by (intro t [OF heap_vec_writer [OF unbonding_purse_writer.bytes_writer_axioms, where h = h and ty = "''UnbondingPurse''" and alloc = "heap_alloc h"], where y = y])
        (auto simp: stored_value_codec res_simps)
  qed
qed

end
