(* ===== verification/Transforms.thy ===== *)
theory Transforms
  imports Stored_Values
begin

text \<open>
  Transforms of stored values (\<^verbatim>\<open>execution_engine/src/shared/transform.rs\<close>): applying one to a value and combining two
  of them, the conversions of numbers they use (\<^verbatim>\<open>types/src/uint.rs\<close>), the map that combines instead of overwriting
  (\<^verbatim>\<open>shared/additive_map.rs\<close>), the operations (\<^verbatim>\<open>core/engine_state/op.rs\<close>) and the effect that a journal of
  transforms amounts to (\<^verbatim>\<open>core/engine_state/execution_effect.rs\<close>).

  Combining the transforms of a key is meant to replace applying them one after the other. That is so when the numbers
  that are added have the type of the stored value (\<open>merge_applies\<close>), and it is not so in general
  (\<open>merge_sequential_iff\<close>).
\<close>

section \<open>Conversions of numbers\<close>

text \<open>\<open>AsPrimitive\<close> from \<open>i32\<close> to the long integers, as the code computes it; casts between machine integers truncate or
  extend, with the sign of \<open>i32\<close>; from a long integer to a machine integer the lowest limb of 64 bits is cast; between
  long integers the limbs that both have are copied.\<close>

definition i32_as_uint :: "i32 \<Rightarrow> 'a::len word" where
  "i32_as_uint self =
     (if 0 \<le> sint self then ucast self
      else let abs = 0 - self in 0 - ucast abs)"

definition limb0 :: "'a::len word \<Rightarrow> u64" where
  "limb0 self = ucast self"

definition copy_limbs :: "nat \<Rightarrow> 'a::len word \<Rightarrow> 'b::len word" where
  "copy_limbs n self = word_of_nat (unat self mod 2 ^ (64 * n))"

datatype addend = AI32 i32 | AU64 u64 | AU128 "128 word" | AU256 "256 word" | AU512 u512

fun as_prim :: "addend \<Rightarrow> 'a::len word" where
  "as_prim (AI32 x) = scast x"
| "as_prim (AU64 x) = ucast x"
| "as_prim (AU128 x) = ucast (limb0 x)"
| "as_prim (AU256 x) = ucast (limb0 x)"
| "as_prim (AU512 x) = ucast (limb0 x)"

fun as_uint :: "nat \<Rightarrow> addend \<Rightarrow> 'a::len word" where
  "as_uint limbs (AI32 x) = i32_as_uint x"
| "as_uint limbs (AU64 x) = ucast x"
| "as_uint limbs (AU128 x) = copy_limbs (min 2 limbs) x"
| "as_uint limbs (AU256 x) = copy_limbs (min 4 limbs) x"
| "as_uint limbs (AU512 x) = copy_limbs (min 8 limbs) x"

text \<open>\<open>any::type_name\<close> of the type of the number.\<close>

fun addend_type_name :: "addend \<Rightarrow> string" where
  "addend_type_name (AI32 _) = ''i32''"
| "addend_type_name (AU64 _) = ''u64''"
| "addend_type_name (AU128 _) = ''casper_types::uint::macro_code::U128''"
| "addend_type_name (AU256 _) = ''casper_types::uint::macro_code::U256''"
| "addend_type_name (AU512 _) = ''casper_types::uint::macro_code::U512''"

section \<open>Transforms\<close>

datatype transform_error = TransformSerialization bytes_error | TransformTypeMismatch type_mismatch

fun transform_error_from :: "cl_value_error \<Rightarrow> transform_error" where
  "transform_error_from (CLSerialization error) = TransformSerialization error"
| "transform_error_from (CLTypeMismatch expected found) =
     TransformTypeMismatch (type_mismatch_new (cl_type_debug expected) (cl_type_debug found))"

datatype transform =
    is_TIdentity: TIdentity
  | is_TWrite: TWrite stored_value
  | TAddInt32 i32
  | TAddUInt64 u64
  | TAddUInt128 "128 word"
  | TAddUInt256 "256 word"
  | TAddUInt512 u512
  | TAddKeys named_keys
  | is_TFailure: TFailure transform_error

definition mismatch_error :: "string \<Rightarrow> string \<Rightarrow> transform_error" where
  "mismatch_error expected found = TransformTypeMismatch (type_mismatch_new expected found)"

definition do_wrapping_addition ::
  "cl_type \<Rightarrow> 'x::len word to_bytes \<Rightarrow> 'x word from_bytes \<Rightarrow> cl_value \<Rightarrow> 'x word \<Rightarrow> (transform_error, stored_value) result" where
  "do_wrapping_addition ty tb fb cl_value to_add =
     res_bind (map_err transform_error_from (cl_value_into_t ty fb cl_value)) (\<lambda>x.
     res_bind (map_err transform_error_from (cl_value_from_t ty tb (x + to_add))) (\<lambda>v.
     Ok (SVCLValue v)))"

definition wrapping_addition :: "stored_value \<Rightarrow> addend \<Rightarrow> (transform_error, stored_value) result" where
  "wrapping_addition stored_value to_add =
     res_bind (map_err TransformTypeMismatch (cl_value_try_from stored_value)) (\<lambda>cl_value.
     case cl_value_type cl_value of
       CLI32 \<Rightarrow> do_wrapping_addition CLI32 i32_to_bytes i32_from_bytes cl_value (as_prim to_add)
     | CLI64 \<Rightarrow> do_wrapping_addition CLI64 i64_to_bytes i64_from_bytes cl_value (as_prim to_add)
     | CLU8 \<Rightarrow> do_wrapping_addition CLU8 u8_to_bytes u8_from_bytes cl_value (as_prim to_add)
     | CLU32 \<Rightarrow> do_wrapping_addition CLU32 u32_to_bytes u32_from_bytes cl_value (as_prim to_add)
     | CLU64 \<Rightarrow> do_wrapping_addition CLU64 u64_to_bytes u64_from_bytes cl_value (as_prim to_add)
     | CLU128 \<Rightarrow> do_wrapping_addition CLU128 (uint_to_bytes 16 :: 128 word to_bytes) (uint_from_bytes 16) cl_value (as_uint 2 to_add)
     | CLU256 \<Rightarrow> do_wrapping_addition CLU256 (uint_to_bytes 32 :: 256 word to_bytes) (uint_from_bytes 32) cl_value (as_uint 4 to_add)
     | CLU512 \<Rightarrow> do_wrapping_addition CLU512 U512_to_bytes U512_from_bytes cl_value (as_uint 8 to_add)
     | other \<Rightarrow> Err (mismatch_error (''integral type compatible with '' @ addend_type_name to_add) (cl_type_debug other)))"

definition add_keys :: "named_keys \<Rightarrow> stored_value \<Rightarrow> (transform_error, stored_value) result" where
  "add_keys keys stored_value =
     (case stored_value of
        SVContract contract \<Rightarrow> Ok (SVContract (contract_named_keys_append contract keys))
      | SVAccount account \<Rightarrow> Ok (SVAccount (named_keys_append account keys))
      | SVCLValue cl_value \<Rightarrow> Err (mismatch_error ''Contract or Account'' (cl_type_debug (cl_value_type cl_value)))
      | SVContractPackage _ \<Rightarrow> Err (mismatch_error ''Contract or Account'' ''ContractPackage'')
      | SVContractWasm _ \<Rightarrow> Err (mismatch_error ''Contract or Account'' ''ContractWasm'')
      | SVTransfer _ \<Rightarrow> Err (mismatch_error ''Contract or Account'' ''Transfer'')
      | SVDeployInfo _ \<Rightarrow> Err (mismatch_error ''Contract or Account'' ''DeployInfo'')
      | SVEraInfo _ \<Rightarrow> Err (mismatch_error ''Contract or Account'' ''EraInfo'')
      | SVBid _ \<Rightarrow> Err (mismatch_error ''Contract or Account'' ''Bid'')
      | SVWithdraw _ \<Rightarrow> Err (mismatch_error ''Contract or Account'' ''Withdraw'')
      | SVUnbonding _ \<Rightarrow> Err (mismatch_error ''Contract or Account'' ''Unbonding''))"

fun transform_apply :: "transform \<Rightarrow> stored_value \<Rightarrow> (transform_error, stored_value) result" where
  "transform_apply TIdentity stored_value = Ok stored_value"
| "transform_apply (TWrite new_value) stored_value = Ok new_value"
| "transform_apply (TAddInt32 to_add) stored_value = wrapping_addition stored_value (AI32 to_add)"
| "transform_apply (TAddUInt64 to_add) stored_value = wrapping_addition stored_value (AU64 to_add)"
| "transform_apply (TAddUInt128 to_add) stored_value = wrapping_addition stored_value (AU128 to_add)"
| "transform_apply (TAddUInt256 to_add) stored_value = wrapping_addition stored_value (AU256 to_add)"
| "transform_apply (TAddUInt512 to_add) stored_value = wrapping_addition stored_value (AU512 to_add)"
| "transform_apply (TAddKeys keys) stored_value = add_keys keys stored_value"
| "transform_apply (TFailure error) stored_value = Err error"

text \<open>The combination of two transforms. The derived \<open>Debug\<close> text of a transform, which only appears in messages, is the
  parameter \<open>debug\<close>.\<close>

definition wrapped_transform_addition ::
  "(transform \<Rightarrow> string) \<Rightarrow> (addend \<Rightarrow> 'a::len word) \<Rightarrow> ('a word \<Rightarrow> transform) \<Rightarrow> (transform \<Rightarrow> 'a word option) \<Rightarrow> 'a word \<Rightarrow>
   transform \<Rightarrow> string \<Rightarrow> transform" where
  "wrapped_transform_addition debug as into try_from i b expected =
     (case b of
        TAddInt32 j \<Rightarrow> into (i + as (AI32 j))
      | TAddUInt64 j \<Rightarrow> into (i + as (AU64 j))
      | _ \<Rightarrow> (case try_from b of
           None \<Rightarrow> TFailure (mismatch_error expected (debug b))
         | Some j \<Rightarrow> into (i + j)))"

fun U128_try_from :: "transform \<Rightarrow> 128 word option" where
  "U128_try_from (TAddUInt128 x) = Some x"
| "U128_try_from _ = None"

fun U256_try_from :: "transform \<Rightarrow> 256 word option" where
  "U256_try_from (TAddUInt256 x) = Some x"
| "U256_try_from _ = None"

fun U512_try_from :: "transform \<Rightarrow> u512 option" where
  "U512_try_from (TAddUInt512 x) = Some x"
| "U512_try_from _ = None"

definition transform_add :: "(transform \<Rightarrow> string) \<Rightarrow> transform \<Rightarrow> transform \<Rightarrow> (transform_error, transform) result" where
  "transform_add debug a b =
     (if is_TIdentity b then Ok a
      else if is_TIdentity a then Ok b
      else if is_TFailure a then Ok a
      else if is_TFailure b then Ok b
      else if is_TWrite b then Ok b
      else case a of
        TWrite v \<Rightarrow>
          (case transform_apply b v of
             Err error \<Rightarrow> Ok (TFailure error)
           | Ok new_value \<Rightarrow> Ok (TWrite new_value)
           | Panic \<Rightarrow> Panic)
      | TAddInt32 i \<Rightarrow>
          Ok (case b of
             TAddInt32 j \<Rightarrow> TAddInt32 (i + j)
           | TAddUInt64 j \<Rightarrow> TAddUInt64 (j + scast i)
           | TAddUInt128 j \<Rightarrow> TAddUInt128 (j + as_uint 2 (AI32 i))
           | TAddUInt256 j \<Rightarrow> TAddUInt256 (j + as_uint 4 (AI32 i))
           | TAddUInt512 j \<Rightarrow> TAddUInt512 (j + as_uint 8 (AI32 i))
           | other \<Rightarrow> TFailure (mismatch_error ''AddInt32'' (debug other)))
      | TAddUInt64 i \<Rightarrow>
          Ok (case b of
             TAddInt32 j \<Rightarrow> TAddInt32 (j + ucast i)
           | TAddUInt64 j \<Rightarrow> TAddUInt64 (i + j)
           | TAddUInt128 j \<Rightarrow> TAddUInt128 (j + ucast i)
           | TAddUInt256 j \<Rightarrow> TAddUInt256 (j + ucast i)
           | TAddUInt512 j \<Rightarrow> TAddUInt512 (j + ucast i)
           | other \<Rightarrow> TFailure (mismatch_error ''AddUInt64'' (debug other)))
      | TAddUInt128 i \<Rightarrow> Ok (wrapped_transform_addition debug (as_uint 2) TAddUInt128 U128_try_from i b ''U128'')
      | TAddUInt256 i \<Rightarrow> Ok (wrapped_transform_addition debug (as_uint 4) TAddUInt256 U256_try_from i b ''U256'')
      | TAddUInt512 i \<Rightarrow> Ok (wrapped_transform_addition debug (as_uint 8) TAddUInt512 U512_try_from i b ''U512'')
      | TAddKeys ks1 \<Rightarrow>
          Ok (case b of
             TAddKeys ks2 \<Rightarrow> TAddKeys (btree_append ks1 ks2)
           | other \<Rightarrow> TFailure (mismatch_error ''AddKeys'' (debug other)))
      | _ \<Rightarrow> Ok a)"

section \<open>Effects\<close>

datatype op = OpRead | OpWrite | OpAdd | OpNoOp

definition op_add :: "op \<Rightarrow> op \<Rightarrow> op" where
  "op_add a b =
     (if b = OpNoOp then a else if a = OpNoOp then b
      else if a = OpRead \<and> b = OpRead then OpRead
      else if a = OpAdd \<and> b = OpAdd then OpAdd
      else OpWrite)"

text \<open>\<open>AdditiveMap::insert_add\<close>: the value under the key, or the default of the type, plus the new one.\<close>

definition insert_add :: "('v \<Rightarrow> 'v \<Rightarrow> ('e, 'v) result) \<Rightarrow> 'v \<Rightarrow> ('k \<rightharpoonup> 'v) \<Rightarrow> 'k \<Rightarrow> 'v \<Rightarrow> ('e, 'k \<rightharpoonup> 'v) result" where
  "insert_add add dflt m k value_to_add =
     res_bind (add (case m k of Some current_value \<Rightarrow> current_value | None \<Rightarrow> dflt) value_to_add) (\<lambda>v. Ok (m(k \<mapsto> v)))"

type_synonym journal = "(key \<times> transform) list"

record execution_effect =
  ef_ops :: "key \<rightharpoonup> op"
  ef_transforms :: "key \<rightharpoonup> transform"

definition op_of :: "transform \<Rightarrow> op option" where
  "op_of transform =
     (case transform of TFailure _ \<Rightarrow> None | TIdentity \<Rightarrow> Some OpRead | TWrite _ \<Rightarrow> Some OpWrite | _ \<Rightarrow> Some OpAdd)"

definition execution_effect_from :: "(transform \<Rightarrow> string) \<Rightarrow> journal \<Rightarrow> (transform_error, execution_effect) result" where
  "execution_effect_from debug journal =
     res_fold (\<lambda>(key, transform) ef.
       res_bind (case op_of transform of
           None \<Rightarrow> Ok (ef_ops ef)
         | Some op \<Rightarrow> insert_add (\<lambda>a b. Ok (op_add a b)) OpNoOp (ef_ops ef) key op) (\<lambda>ops.
       res_bind (insert_add (transform_add debug) TIdentity (ef_transforms ef) key transform) (\<lambda>transforms.
       Ok \<lparr>ef_ops = ops, ef_transforms = transforms\<rparr>)))
     journal \<lparr>ef_ops = Map.empty, ef_transforms = Map.empty\<rparr>"

definition transforms_from :: "(transform \<Rightarrow> string) \<Rightarrow> journal \<Rightarrow> (transform_error, key \<rightharpoonup> transform) result" where
  "transforms_from debug journal =
     res_fold (\<lambda>(key, transform) transforms. insert_add (transform_add debug) TIdentity transforms key transform) journal Map.empty"

section \<open>Combining and applying\<close>

lemma cast_same [simp]:
  "(as_prim (AI32 i) :: i32) = i" "(as_prim (AU64 u) :: u64) = u"
  "(as_uint 2 (AU128 a) :: 128 word) = a" "(as_uint 4 (AU256 b) :: 256 word) = b" "(as_uint 8 (AU512 c) :: u512) = c"
proof -
  have m: "unat x mod 2 ^ LENGTH('a) = unat x" for x :: "'a::len word" by (simp add: unat_lt2p)
  show "(as_uint 2 (AU128 a) :: 128 word) = a" "(as_uint 4 (AU256 b) :: 256 word) = b" "(as_uint 8 (AU512 c) :: u512) = c"
    using m [of a] m [of b] m [of c] by (simp_all add: copy_limbs_def)
qed simp_all

text \<open>An addition is exact when the number has the type of the stored value. The maps of names are ordered, as the maps
  of the code are.\<close>

definition has_type :: "cl_type \<Rightarrow> stored_value \<Rightarrow> bool" where
  "has_type ty v \<longleftrightarrow> (\<exists>c. v = SVCLValue c \<and> cl_value_type c = ty)"

fun named_keys_wf :: "stored_value \<Rightarrow> bool" where
  "named_keys_wf (SVAccount a) \<longleftrightarrow> btree_wf (acc_named_keys a)"
| "named_keys_wf (SVContract c) \<longleftrightarrow> btree_wf (ct_named_keys c)"
| "named_keys_wf _ \<longleftrightarrow> True"

fun exact :: "transform \<Rightarrow> stored_value \<Rightarrow> bool" where
  "exact (TAddInt32 _) v \<longleftrightarrow> has_type CLI32 v"
| "exact (TAddUInt64 _) v \<longleftrightarrow> has_type CLU64 v"
| "exact (TAddUInt128 _) v \<longleftrightarrow> has_type CLU128 v"
| "exact (TAddUInt256 _) v \<longleftrightarrow> has_type CLU256 v"
| "exact (TAddUInt512 _) v \<longleftrightarrow> has_type CLU512 v"
| "exact (TAddKeys ks) v \<longleftrightarrow> btree_wf ks \<and> named_keys_wf v"
| "exact (TFailure _) v \<longleftrightarrow> False"
| "exact _ v \<longleftrightarrow> True"

lemma map_err_eq_Ok [res_simps]: "map_err f m = Ok x \<longleftrightarrow> m = Ok x"
  by (cases m) simp_all

text \<open>Two wrapping additions to a value are one addition of the sum.\<close>

lemma wrapping_twice:
  assumes r: "bytesrepr (\<lambda>_. True) sl tb wb fb"
    and "do_wrapping_addition ty tb fb c i = Ok (SVCLValue c')" "do_wrapping_addition ty tb fb c' j = Ok v"
  shows "do_wrapping_addition ty tb fb c (i + j) = Ok v"
proof -
  from assms(2) obtain x where x: "cl_value_into_t ty fb c = Ok x" "cl_value_from_t ty tb (x + i) = Ok c'"
    by (auto simp: do_wrapping_addition_def res_simps)
  from into_from_t [OF r TrueI x(2)] assms(3) have "map_err transform_error_from (cl_value_from_t ty tb (x + i + j)) = Ok (case v of SVCLValue w \<Rightarrow> w)"
    "\<exists>w. v = SVCLValue w"
    by (auto simp: do_wrapping_addition_def res_simps)
  with x(1) show ?thesis by (auto simp: do_wrapping_addition_def add.assoc)
qed

lemma cl_value_from_t_eq_Ok [res_simps]:
  "cl_value_from_t ty tb t = Ok v \<longleftrightarrow> (\<exists>bs. tb t = Ok bs \<and> v = \<lparr>cl_value_type = ty, cl_value_bytes = bs\<rparr>)"
  by (cases "tb t") (auto simp: cl_value_from_t_def)

lemma cl_value_into_t_eq_Ok [res_simps]:
  "cl_value_into_t ty fb v = Ok x \<longleftrightarrow> cl_value_type v = ty \<and> deserialize_from_slice fb (cl_value_bytes v) = Ok x"
  by (cases "deserialize_from_slice fb (cl_value_bytes v)") (auto simp: cl_value_into_t_def)

lemma do_wrapping_type:
  "do_wrapping_addition ty tb fb c i = Ok v \<Longrightarrow> has_type ty v \<and> cl_value_type c = ty"
  by (auto simp: do_wrapping_addition_def res_simps has_type_def)

lemma wrapping_addition_typed:
  "has_type CLI32 v \<Longrightarrow> \<exists>c. v = SVCLValue c \<and> wrapping_addition v (AI32 i) = do_wrapping_addition CLI32 i32_to_bytes i32_from_bytes c i"
  "has_type CLU64 v \<Longrightarrow> \<exists>c. v = SVCLValue c \<and> wrapping_addition v (AU64 u) = do_wrapping_addition CLU64 u64_to_bytes u64_from_bytes c u"
  "has_type CLU128 v \<Longrightarrow> \<exists>c. v = SVCLValue c \<and>
     wrapping_addition v (AU128 x) = do_wrapping_addition CLU128 (uint_to_bytes 16) (uint_from_bytes 16) c x"
  "has_type CLU256 v \<Longrightarrow> \<exists>c. v = SVCLValue c \<and>
     wrapping_addition v (AU256 y) = do_wrapping_addition CLU256 (uint_to_bytes 32) (uint_from_bytes 32) c y"
  "has_type CLU512 v \<Longrightarrow> \<exists>c. v = SVCLValue c \<and> wrapping_addition v (AU512 z) = do_wrapping_addition CLU512 U512_to_bytes U512_from_bytes c z"
  by (auto simp: has_type_def wrapping_addition_def simp del: as_prim.simps as_uint.simps)

lemma btree_ext:
  assumes "btree_wf a" "btree_wf b" "map_of a = map_of b"
  shows "a = b"
proof -
  have "set (map fst a) = set (map fst b)" using assms(3) by (metis dom_map_of_conv_image_fst list.set_map)
  then have k: "map fst a = map fst b" using assms(1,2) by (metis strict_sorted_equal)
  then have l: "length a = length b" by (metis length_map)
  show ?thesis
  proof (rule nth_equalityI [OF l])
    fix i
    assume i: "i < length a"
    then have "map_of a (fst (a ! i)) = Some (snd (a ! i))" "map_of b (fst (b ! i)) = Some (snd (b ! i))"
      using btree_wf_distinct [OF assms(1)] btree_wf_distinct [OF assms(2)] l by (simp_all add: map_of_is_SomeI)
    moreover have "fst (a ! i) = fst (b ! i)" using k i l by (metis nth_map)
    ultimately show "a ! i = b ! i" using assms(3) by (simp add: prod_eq_iff)
  qed
qed

lemma map_of_btree_append: "btree_wf b \<Longrightarrow> map_of (btree_append a b) = map_of a ++ map_of b"
proof -
  assume "btree_wf b"
  then have d: "distinct (map fst b)" by (rule btree_wf_distinct)
  then have "map_of (rev b) = map_of b" by (subst map_of_inject_set) (simp_all flip: rev_map)
  then show ?thesis by (simp add: btree_append_def btree.fold_insert)
qed

lemma btree_wf_append: "btree_wf a \<Longrightarrow> btree_wf (btree_append a b)"
  unfolding btree_append_def by (rule btree.wf_fold_insert)

lemma btree_append_assoc:
  assumes "btree_wf m" "btree_wf a" "btree_wf b"
  shows "btree_append (btree_append m a) b = btree_append m (btree_append a b)"
  using assms by (intro btree_ext) (simp_all add: btree_wf_append map_of_btree_append)

lemma merge_write: "transform_apply b w = Ok v \<Longrightarrow> transform_add debug (TWrite w) b = Ok (TWrite v)"
  by (cases b) (simp_all add: transform_add_def)

lemma has_type_unique: "has_type ty v \<Longrightarrow> has_type ty' v \<Longrightarrow> ty = ty'"
  by (auto simp: has_type_def)

lemma add_keys_typed: "has_type ty v \<Longrightarrow> add_keys ks v \<noteq> Ok v'"
  by (auto simp: has_type_def add_keys_def)

lemma merge_keys:
  assumes "btree_wf ks" "named_keys_wf v" "add_keys ks v = Ok v1" "btree_wf ks'" "add_keys ks' v1 = Ok v2"
  shows "add_keys (btree_append ks ks') v = Ok v2 \<and> named_keys_wf v1"
  using assms
  by (cases v) (auto simp: add_keys_def named_keys_append_def contract_named_keys_append_def btree_append_assoc btree_wf_append)

text \<open>A numeric transform, with the type of value that it is exact for, the number in it, and addition of numbers.\<close>

lemma merge_number:
  assumes r: "bytesrepr (\<lambda>_. True) sl tb wb fb"
    and t: "\<And>x v. has_type ty v \<Longrightarrow> \<exists>c. v = SVCLValue c \<and> transform_apply (T x) v = do_wrapping_addition ty tb fb c x"
    and a: "has_type ty v0" "transform_apply (T i) v0 = Ok v1" and b: "transform_apply (T j) v1 = Ok v2"
  shows "transform_apply (T (i + j)) v0 = Ok v2"
proof -
  from t [OF a(1), of i] a(2) obtain c where c: "v0 = SVCLValue c" "do_wrapping_addition ty tb fb c i = Ok v1" by auto
  from do_wrapping_type [OF c(2)] have "has_type ty v1" by simp
  from t [OF this, of j] b obtain c' where c': "v1 = SVCLValue c'" "do_wrapping_addition ty tb fb c' j = Ok v2" by auto
  from wrapping_twice [OF r] c(2) c' have "do_wrapping_addition ty tb fb c (i + j) = Ok v2" by blast
  with t [OF a(1), of "i + j"] c(1) show ?thesis by auto
qed

lemma exact_only:
  assumes "exact b v" "has_type ty v" "\<not> is_TIdentity b" "\<not> is_TWrite b" "transform_apply b v = Ok v'"
  shows "case b of TAddInt32 _ \<Rightarrow> ty = CLI32 | TAddUInt64 _ \<Rightarrow> ty = CLU64 | TAddUInt128 _ \<Rightarrow> ty = CLU128
    | TAddUInt256 _ \<Rightarrow> ty = CLU256 | TAddUInt512 _ \<Rightarrow> ty = CLU512 | _ \<Rightarrow> False"
  using assms add_keys_typed [OF assms(2)] by (cases b) (auto dest: has_type_unique)

lemma merge_step:
  assumes r: "bytesrepr (\<lambda>_. True) sl tb wb fb"
    and t: "\<And>x v. has_type ty v \<Longrightarrow> \<exists>c. v = SVCLValue c \<and> transform_apply (T x) v = do_wrapping_addition ty tb fb c x"
    and only: "\<And>b v v'. exact b v \<Longrightarrow> has_type ty v \<Longrightarrow> \<not> is_TIdentity b \<Longrightarrow> \<not> is_TWrite b \<Longrightarrow> transform_apply b v = Ok v' \<Longrightarrow> \<exists>j. b = T j"
    and add: "\<And>i j. transform_add debug (T i) (T j) = Ok (T (i + j))"
    and a: "has_type ty v0" "transform_apply (T i) v0 = Ok v1" and b: "exact b v1" "transform_apply b v1 = Ok v2"
      "\<not> is_TIdentity b" "\<not> is_TWrite b"
  shows "\<exists>j. transform_add debug (T i) b = Ok (T j) \<and> transform_apply (T j) v0 = Ok v2"
proof -
  from t [OF a(1), of i] a(2) obtain c where "do_wrapping_addition ty tb fb c i = Ok v1" by auto
  from do_wrapping_type [OF this] have "has_type ty v1" by simp
  from only [OF b(1) this b(3,4,2)] obtain j where j: "b = T j" by blast
  have "transform_apply (T (i + j)) v0 = Ok v2"
    by (rule merge_number [OF r, of ty T]) (use t a b(2) j in blast)+
  with add j show ?thesis by blast
qed

lemma exact_only_number:
  assumes "exact b v" "\<not> is_TIdentity b" "\<not> is_TWrite b" "transform_apply b v = Ok v'"
  shows "has_type CLI32 v \<Longrightarrow> \<exists>j. b = TAddInt32 j" "has_type CLU64 v \<Longrightarrow> \<exists>j. b = TAddUInt64 j"
    "has_type CLU128 v \<Longrightarrow> \<exists>j. b = TAddUInt128 j" "has_type CLU256 v \<Longrightarrow> \<exists>j. b = TAddUInt256 j"
    "has_type CLU512 v \<Longrightarrow> \<exists>j. b = TAddUInt512 j"
  using exact_only [OF assms(1) _ assms(2-4)] by (cases b; fastforce)+

lemma add_number:
  "transform_add debug (TAddInt32 i) (TAddInt32 i') = Ok (TAddInt32 (i + i'))"
  "transform_add debug (TAddUInt64 u) (TAddUInt64 u') = Ok (TAddUInt64 (u + u'))"
  "transform_add debug (TAddUInt128 x) (TAddUInt128 x') = Ok (TAddUInt128 (x + x'))"
  "transform_add debug (TAddUInt256 y) (TAddUInt256 y') = Ok (TAddUInt256 (y + y'))"
  "transform_add debug (TAddUInt512 z) (TAddUInt512 z') = Ok (TAddUInt512 (z + z'))"
  by (simp_all add: transform_add_def wrapped_transform_addition_def)

text \<open>The combination of two exact transforms is exact and does what the two do one after the other.\<close>

lemma merge_applies:
  assumes a: "exact a v0" "transform_apply a v0 = Ok v1" and b: "exact b v1" "transform_apply b v1 = Ok v2"
  shows "\<exists>c. transform_add debug a b = Ok c \<and> exact c v0 \<and> transform_apply c v0 = Ok v2"
proof (cases "is_TIdentity b \<or> is_TWrite b \<or> is_TIdentity a \<or> is_TWrite a")
  case True
  then show ?thesis
  proof (elim disjE)
    assume "is_TIdentity b"
    with a b show ?thesis by (intro exI [of _ a]) (auto simp: transform_add_def is_TIdentity_def)
  next
    assume "is_TWrite b"
    with a b show ?thesis by (intro exI [of _ b]) (auto simp: transform_add_def is_TIdentity_def is_TWrite_def is_TFailure_def)
  next
    assume "is_TIdentity a"
    with a b show ?thesis by (intro exI [of _ b]) (auto simp: transform_add_def is_TIdentity_def)
  next
    assume "is_TWrite a"
    with a b merge_write [of b v1 v2] show ?thesis by (intro exI [of _ "TWrite v2"]) (auto simp: is_TWrite_def)
  qed
next
  case False
  then have nb: "\<not> is_TIdentity b" "\<not> is_TWrite b" by auto
  show ?thesis
  proof (cases a)
    case (TAddInt32 i)
    with a have "has_type CLI32 v0" "transform_apply (TAddInt32 i) v0 = Ok v1" by simp_all
    from merge_step [where T = TAddInt32, OF i32_repr.bytesrepr_axioms _ exact_only_number(1) add_number(1) this b nb]
    show ?thesis using TAddInt32 a wrapping_addition_typed(1) by fastforce
  next
    case (TAddUInt64 i)
    with a have "has_type CLU64 v0" "transform_apply (TAddUInt64 i) v0 = Ok v1" by simp_all
    from merge_step [where T = TAddUInt64, OF u64_repr.bytesrepr_axioms _ exact_only_number(2) add_number(2) this b nb]
    show ?thesis using TAddUInt64 a wrapping_addition_typed(2) by fastforce
  next
    case (TAddUInt128 i)
    with a have "has_type CLU128 v0" "transform_apply (TAddUInt128 i) v0 = Ok v1" by simp_all
    from merge_step [where T = TAddUInt128, OF U128_repr.bytesrepr_axioms _ exact_only_number(3) add_number(3) this b nb]
    show ?thesis using TAddUInt128 a wrapping_addition_typed(3) by fastforce
  next
    case (TAddUInt256 i)
    with a have "has_type CLU256 v0" "transform_apply (TAddUInt256 i) v0 = Ok v1" by simp_all
    from merge_step [where T = TAddUInt256, OF U256_repr.bytesrepr_axioms _ exact_only_number(4) add_number(4) this b nb]
    show ?thesis using TAddUInt256 a wrapping_addition_typed(4) by fastforce
  next
    case (TAddUInt512 i)
    with a have "has_type CLU512 v0" "transform_apply (TAddUInt512 i) v0 = Ok v1" by simp_all
    from merge_step [where T = TAddUInt512, OF U512_repr.bytesrepr_axioms _ exact_only_number(5) add_number(5) this b nb]
    show ?thesis using TAddUInt512 a wrapping_addition_typed(5) by fastforce
  next
    case (TAddKeys ks)
    with a have k: "btree_wf ks" "named_keys_wf v0" "add_keys ks v0 = Ok v1" by simp_all
    have "\<not> has_type ty v1" for ty using k(3) by (auto simp: add_keys_def has_type_def split: stored_value.splits)
    then obtain ks' where ks': "b = TAddKeys ks'" using b nb by (cases b) auto
    with merge_keys [OF k, of ks' v2] b k TAddKeys show ?thesis
      by (intro exI [of _ "TAddKeys (btree_append ks ks')"]) (auto simp: transform_add_def btree_wf_append)
  qed (use False a in auto)
qed

section \<open>A journal and its effect\<close>

text \<open>What a journal means: its transforms, one after the other, on a state that maps keys to values.\<close>

type_synonym state = "key \<rightharpoonup> stored_value"

definition result_option :: "('e, 'a) result \<Rightarrow> 'a option" where
  "result_option r = (case r of Ok x \<Rightarrow> Some x | _ \<Rightarrow> None)"

lemma result_option_Ok [simp]: "result_option (Ok x) = Some x"
  by (simp add: result_option_def)

lemma result_option_Some [simp]: "result_option r = Some x \<longleftrightarrow> r = Ok x"
  by (cases r) (auto simp: result_option_def)

definition applied :: "transform \<Rightarrow> stored_value option \<Rightarrow> stored_value option" where
  "applied t current =
     (case (current, t) of
        (None, TWrite new_value) \<Rightarrow> Some new_value
      | (None, _) \<Rightarrow> None
      | (Some v, t) \<Rightarrow> result_option (transform_apply t v))"

lemma applied_simps [simp]:
  "applied t (Some v) = result_option (transform_apply t v)" "applied (TWrite w) cur = Some w"
  "\<not> is_TWrite t \<Longrightarrow> applied t None = None"
  by (cases cur; cases t; simp add: applied_def result_option_def)+

definition journal_step :: "key \<times> transform \<Rightarrow> state \<Rightarrow> state option" where
  "journal_step e \<sigma> = map_option (\<lambda>v. \<sigma>(fst e \<mapsto> v)) (applied (snd e) (\<sigma> (fst e)))"

fun run_journal :: "journal \<Rightarrow> state \<Rightarrow> state option" where
  "run_journal [] \<sigma> = Some \<sigma>"
| "run_journal (e # J) \<sigma> = Option.bind (journal_step e \<sigma>) (run_journal J)"

text \<open>Every addition to a value that the journal has not written itself is exact.\<close>

fun exact_journal :: "key set \<Rightarrow> journal \<Rightarrow> state \<Rightarrow> bool" where
  "exact_journal W [] \<sigma> \<longleftrightarrow> True"
| "exact_journal W ((k, t) # J) \<sigma> \<longleftrightarrow>
     (k \<in> W \<or> is_TWrite t \<or> (\<exists>v. \<sigma> k = Some v \<and> exact t v)) \<and>
     (\<forall>\<sigma>'. journal_step (k, t) \<sigma> = Some \<sigma>' \<longrightarrow> exact_journal (if is_TWrite t then insert k W else W) J \<sigma>')"

text \<open>The transform that stands for what has happened to one key so far.\<close>

definition stands_for :: "bool \<Rightarrow> stored_value option \<Rightarrow> transform option \<Rightarrow> stored_value option \<Rightarrow> bool" where
  "stands_for written old t new \<longleftrightarrow>
     (case t of None \<Rightarrow> new = old \<and> \<not> written
      | Some t \<Rightarrow> \<exists>v. new = Some v \<and>
          (t = TWrite v \<or> \<not> written \<and> (\<exists>v0. old = Some v0 \<and> exact t v0 \<and> transform_apply t v0 = Ok v)))"

lemma stands_for_step:
  assumes "stands_for written old a cur" "applied t cur = Some new"
    and "written \<or> is_TWrite t \<or> (\<exists>v. cur = Some v \<and> exact t v)"
  shows "\<exists>c. transform_add debug (case a of Some a \<Rightarrow> a | None \<Rightarrow> TIdentity) t = Ok c \<and>
    stands_for (written \<or> is_TWrite t) old (Some c) (Some new)"
proof (cases a)
  case None
  then have cur: "cur = old" "\<not> written" using assms(1) by (simp_all add: stands_for_def)
  have "transform_add debug TIdentity t = Ok t" by (auto simp: transform_add_def is_TIdentity_def)
  moreover have "stands_for (written \<or> is_TWrite t) old (Some t) (Some new)"
  proof (cases "is_TWrite t")
    case True
    with assms(2) show ?thesis by (auto simp: stands_for_def is_TWrite_def)
  next
    case False
    with assms(2,3) cur show ?thesis by (auto simp: stands_for_def)
  qed
  ultimately show ?thesis using None by simp
next
  case (Some a')
  then obtain v where v: "cur = Some v" and
    a': "a' = TWrite v \<or> \<not> written \<and> (\<exists>v0. old = Some v0 \<and> exact a' v0 \<and> transform_apply a' v0 = Ok v)"
    using assms(1) by (auto simp: stands_for_def)
  have t: "transform_apply t v = Ok new" using assms(2) v by simp
  from a' show ?thesis
  proof
    assume "a' = TWrite v"
    with merge_write [OF t] Some show ?thesis by (simp add: stands_for_def)
  next
    assume "\<not> written \<and> (\<exists>v0. old = Some v0 \<and> exact a' v0 \<and> transform_apply a' v0 = Ok v)"
    then obtain v0 where w: "\<not> written" "old = Some v0" "exact a' v0" "transform_apply a' v0 = Ok v" by blast
    then have "exact t v" if "\<not> is_TWrite t" using assms(3) v that by simp
    then have "exact t v" by (cases "is_TWrite t") (auto simp: is_TWrite_def)
    from merge_applies [OF w(3,4) this t] obtain c where c: "transform_add debug a' t = Ok c" "exact c v0" "transform_apply c v0 = Ok new"
      by blast
    have "c = TWrite new" if "is_TWrite t"
      using that c t w(3) by (auto simp: is_TWrite_def transform_add_def is_TIdentity_def is_TFailure_def split: if_splits)
    with c w Some show ?thesis by (auto simp: stands_for_def)
  qed
qed

lemma effect_stands_for:
  assumes "run_journal J \<sigma> = Some \<sigma>'" "exact_journal W J \<sigma>" "\<And>k. stands_for (k \<in> W) (\<sigma>0 k) (T k) (\<sigma> k)"
  shows "\<exists>T' W'. res_fold (\<lambda>(key, transform) transforms. insert_add (transform_add debug) TIdentity transforms key transform) J T = Ok T' \<and>
    (\<forall>k. stands_for (k \<in> W') (\<sigma>0 k) (T' k) (\<sigma>' k))"
  using assms
proof (induction J arbitrary: \<sigma> W T)
  case (Cons e J)
  let ?f = "\<lambda>(key, transform) transforms. insert_add (transform_add debug) TIdentity transforms key transform"
  obtain k t where e: "e = (k, t)" by fastforce
  with Cons.prems(1) obtain new where new: "applied t (\<sigma> k) = Some new" "run_journal J (\<sigma>(k \<mapsto> new)) = Some \<sigma>'"
    by (auto simp: journal_step_def bind_eq_Some_conv)
  let ?W = "if is_TWrite t then insert k W else W"
  have ex: "k \<in> W \<or> is_TWrite t \<or> (\<exists>v. \<sigma> k = Some v \<and> exact t v)" "exact_journal ?W J (\<sigma>(k \<mapsto> new))"
    using Cons.prems(2) new(1) by (simp_all add: e journal_step_def)
  from stands_for_step [OF Cons.prems(3) new(1) ex(1)] obtain c where
    c: "transform_add debug (case T k of Some a \<Rightarrow> a | None \<Rightarrow> TIdentity) t = Ok c"
      "stands_for (k \<in> W \<or> is_TWrite t) (\<sigma>0 k) (Some c) (Some new)" by blast
  have "stands_for (k' \<in> ?W) (\<sigma>0 k') ((T(k \<mapsto> c)) k') ((\<sigma>(k \<mapsto> new)) k')" for k'
    using c(2) Cons.prems(3) [of k'] by auto
  from Cons.IH [OF new(2) ex(2) this]
  obtain T' W' where "res_fold ?f J (T(k \<mapsto> c)) = Ok T'" "\<forall>k. stands_for (k \<in> W') (\<sigma>0 k) (T' k) (\<sigma>' k)" by blast
  moreover have "res_fold ?f (e # J) T = res_fold ?f J (T(k \<mapsto> c))" using c(1) by (simp add: e insert_add_def)
  ultimately show ?case by (intro exI [of _ T'] exI [of _ W'] conjI) simp_all
qed auto

lemma stands_for_applied: "stands_for w old (Some t) new \<Longrightarrow> applied t old = new"
  by (auto simp: stands_for_def)

text \<open>C9: The effect of a journal is equivalent to the journal. When the transforms of a journal apply one after the other to a
  state, and every addition to a value that the journal has not written itself adds a number of the type of that value
  (or names to an account or a contract), then combining the transforms of each key succeeds, and applying the one
  combined transform of each key to the old value gives the new value.\<close>
theorem effect_equals_journal:
  assumes "run_journal J \<sigma> = Some \<sigma>'" "exact_journal {} J \<sigma>"
  shows "\<exists>T. transforms_from debug J = Ok T \<and> (\<forall>k. \<sigma>' k = (case T k of None \<Rightarrow> \<sigma> k | Some t \<Rightarrow> applied t (\<sigma> k)))"
proof -
  have "stands_for (k \<in> {}) (\<sigma> k) (Map.empty k) (\<sigma> k)" for k by (simp add: stands_for_def)
  from effect_stands_for [OF assms this, of debug] obtain T W where T: "transforms_from debug J = Ok T"
      "\<And>k. stands_for (k \<in> W) (\<sigma> k) (T k) (\<sigma>' k)"
    by (auto simp: transforms_from_def)
  have "\<sigma>' k = (case T k of None \<Rightarrow> \<sigma> k | Some t \<Rightarrow> applied t (\<sigma> k))" for k
    using T(2) [of k] by (cases "T k") (auto simp: stands_for_def dest: stands_for_applied)
  with T(1) show ?thesis by blast
qed

section \<open>Combination is not sequential application in general\<close>

definition u64_value :: "u64 \<Rightarrow> stored_value" where
  "u64_value x = SVCLValue \<lparr>cl_value_type = CLU64, cl_value_bytes = to_le_bytes 8 x\<rparr>"

definition u512_value :: "u512 \<Rightarrow> stored_value" where
  "u512_value x = SVCLValue \<lparr>cl_value_type = CLU512,
     cl_value_bytes = (let nz = non_zero_bytes 64 x in word_of_nat (length nz) # rev nz)\<rparr>"

lemma do_wrapping_encoded:
  assumes r: "bytesrepr (\<lambda>_. True) sl tb wb fb" and "tb x = Ok bs" "tb (x + y) = Ok bs'"
  shows "do_wrapping_addition ty tb fb \<lparr>cl_value_type = ty, cl_value_bytes = bs\<rparr> y =
    Ok (SVCLValue \<lparr>cl_value_type = ty, cl_value_bytes = bs'\<rparr>)"
  using bytesrepr.roundtrip_from_slice [OF r TrueI assms(2)] assms(3)
  by (simp add: do_wrapping_addition_def cl_value_into_t_def cl_value_from_t_def)

lemma add_u64: "wrapping_addition (u64_value x) y = Ok (u64_value (x + as_prim y))"
proof -
  have "u64_to_bytes x = Ok (to_le_bytes 8 x)" for x by (simp add: u64_to_bytes_def le_to_bytes_def)
  from do_wrapping_encoded [OF u64_repr.bytesrepr_axioms this this] show ?thesis by (simp add: u64_value_def wrapping_addition_def)
qed

lemma add_u512: "wrapping_addition (u512_value x) y = Ok (u512_value (x + as_uint 8 y))"
proof -
  have "U512_to_bytes x = Ok (let nz = non_zero_bytes 64 x in word_of_nat (length nz) # rev nz)" for x
    by (simp add: uint_to_bytes_def Let_def)
  from do_wrapping_encoded [OF U512_repr.bytesrepr_axioms this this] show ?thesis by (simp add: u512_value_def wrapping_addition_def)
qed

lemma encoding_inj:
  assumes r: "bytesrepr (\<lambda>_. True) sl tb wb fb" and "tb x = Ok bs" "tb y = Ok bs"
  shows "x = y"
  using bytesrepr.prefix_free [OF r TrueI assms(2) TrueI assms(3) refl] by (rule conjunct1)

lemma u512_value_inj: "u512_value x = u512_value y \<longleftrightarrow> x = y"
proof
  assume "u512_value x = u512_value y"
  then have e: "(let nz = non_zero_bytes 64 x in word_of_nat (length nz) # rev nz) =
      (let nz = non_zero_bytes 64 y in word_of_nat (length nz) # rev nz :: bytes)"
    by (simp only: u512_value_def stored_value.inject cl_value.ext_inject)
  have "U512_to_bytes x = Ok (let nz = non_zero_bytes 64 x in word_of_nat (length nz) # rev nz)" for x
    by (simp add: uint_to_bytes_def Let_def)
  from encoding_inj [OF U512_repr.bytesrepr_axioms this [of x] this [of y, folded e]] show "x = y" .
qed simp

lemma u64_value_inj: "u64_value x = u64_value y \<longleftrightarrow> x = y"
proof
  assume "u64_value x = u64_value y"
  then have e: "to_le_bytes 8 x = to_le_bytes 8 y"
    by (simp only: u64_value_def stored_value.inject cl_value.ext_inject)
  have "u64_to_bytes x = Ok (to_le_bytes 8 x)" for x by (simp add: u64_to_bytes_def le_to_bytes_def)
  from encoding_inj [OF u64_repr.bytesrepr_axioms this [of x] this [of y, folded e]] show "x = y" .
qed simp

lemma eq_mod_iff: "0 < m \<Longrightarrow> a = a mod m \<longleftrightarrow> a < m" for a m :: nat
  by (metis mod_less mod_less_divisor)

lemma ucast_u512_sum: "x + ucast i + ucast j = x + ucast (i + j) \<longleftrightarrow> unat i + unat j < 2 ^ 64" for x :: u512 and i j :: u64
proof -
  have u: "unat (ucast k :: u512) = unat k" for k :: u64
  proof -
    have "unat k < 2 ^ LENGTH(512)" using unat_lt2p [of k] by simp
    then show ?thesis by (simp only: unsigned_ucast_eq take_bit_nat_eq_self)
  qed
  have "unat i + unat j < 2 ^ LENGTH(512)" using unat_lt2p [of i] unat_lt2p [of j] by simp
  then have s: "unat (ucast i + ucast j :: u512) = unat i + unat j"
    by (simp only: unat_word_ariths u mod_less)
  have "x + ucast i + ucast j = x + ucast (i + j) \<longleftrightarrow> unat (ucast i + ucast j :: u512) = unat (ucast (i + j) :: u512)"
    by (simp only: add.assoc add_left_cancel) (rule word_unat_eq_iff)
  also have "\<dots> \<longleftrightarrow> unat i + unat j = (unat i + unat j) mod 2 ^ LENGTH(64)"
    unfolding s u by (simp only: unat_word_ariths)
  also have "\<dots> \<longleftrightarrow> unat i + unat j < 2 ^ 64" by (subst eq_mod_iff) simp_all
  finally show ?thesis .
qed

lemma ucast_scast_add: "j + ucast i = (ucast (i + scast j) :: 32 word)" for i :: u64 and j :: "32 word"
proof -
  have "(ucast (scast j :: u64) :: 32 word) = j" by transfer (simp add: take_bit_signed_take_bit)
  moreover have "take_bit 32 (a + b) = take_bit 32 (take_bit 64 a + take_bit 64 b)" for a b :: int
    using take_bit_add [of 32 a b] take_bit_add [of 32 "take_bit 64 a" "take_bit 64 b"] by simp
  then have "(ucast (a + b) :: 32 word) = ucast a + ucast b" for a b :: u64
    by transfer simp
  ultimately show ?thesis by (simp add: add.commute)
qed

lemma scast_ucast_same: "w = scast (ucast w :: 32 word) \<longleftrightarrow> sint w \<in> {- (2 ^ 31)..<2 ^ 31}" for w :: u64
proof -
  have "w = scast (ucast w :: 32 word) \<longleftrightarrow> sint (scast (ucast w :: 32 word) :: u64) = sint w"
    by (metis signed_word_eqI)
  also have "sint (scast (ucast w :: 32 word) :: u64) = signed_take_bit 31 (sint w)"
    by transfer (simp add: signed_take_bit_take_bit take_bit_signed_take_bit min_def)
  finally show ?thesis by (simp add: signed_take_bit_int_eq_self_iff)
qed

lemma scast_i32_sum:
  "x + i + scast j = x + scast (j + ucast i) \<longleftrightarrow> sint (i + scast j) \<in> {- (2 ^ 31)..<2 ^ 31}" for x i :: u64 and j :: "32 word"
  unfolding ucast_scast_add add.assoc add_left_cancel by (rule scast_ucast_same)

text \<open>C38: The combination of two transforms is their sequential application only as far as the combined addend does not overflow
  the narrower type. Adding two \<open>u64\<close> to a stored \<open>U512\<close> one after the other and adding their combination agree exactly
  if their sum is below \<open>2\<^sup>6\<^sup>4\<close>. Adding a \<open>u64\<close> and then an \<open>i32\<close> to a stored \<open>u64\<close> agrees with their combination,
  which is an \<open>i32\<close>, exactly if their sum, as a signed number, is in the range of an \<open>i32\<close>. A \<open>U128\<close> and a \<open>U256\<close> can
  always be added to a \<open>U512\<close> one after the other, but their combination is always a failure.\<close>
theorem merge_sequential_iff:
  "(res_bind (transform_apply (TAddUInt64 i) (u512_value x)) (transform_apply (TAddUInt64 j)) =
    res_bind (transform_add debug (TAddUInt64 i) (TAddUInt64 j)) (\<lambda>t. transform_apply t (u512_value x)) \<longleftrightarrow>
      unat i + unat j < 2 ^ 64) \<and>
   (res_bind (transform_apply (TAddUInt64 i) (u64_value y)) (transform_apply (TAddInt32 k)) =
    res_bind (transform_add debug (TAddUInt64 i) (TAddInt32 k)) (\<lambda>t. transform_apply t (u64_value y)) \<longleftrightarrow>
      sint (i + scast k) \<in> {- (2 ^ 31)..<2 ^ 31}) \<and>
   (\<exists>z e. res_bind (transform_apply (TAddUInt128 m) (u512_value x)) (transform_apply (TAddUInt256 n)) = Ok z \<and>
      transform_add debug (TAddUInt128 m) (TAddUInt256 n) = Ok (TFailure e))"
proof -
  have "res_bind (transform_apply (TAddUInt64 i) (u512_value x)) (transform_apply (TAddUInt64 j)) =
      Ok (u512_value (x + ucast i + ucast j))"
    "res_bind (transform_add debug (TAddUInt64 i) (TAddUInt64 j)) (\<lambda>t. transform_apply t (u512_value x)) =
      Ok (u512_value (x + ucast (i + j)))"
    "res_bind (transform_apply (TAddUInt64 i) (u64_value y)) (transform_apply (TAddInt32 k)) =
      Ok (u64_value (y + i + scast k))"
    "res_bind (transform_add debug (TAddUInt64 i) (TAddInt32 k)) (\<lambda>t. transform_apply t (u64_value y)) =
      Ok (u64_value (y + scast (k + ucast i)))"
    by (simp_all add: add_u64 add_u512 transform_add_def)
  moreover have "\<exists>z e. res_bind (transform_apply (TAddUInt128 m) (u512_value x)) (transform_apply (TAddUInt256 n)) = Ok z \<and>
      transform_add debug (TAddUInt128 m) (TAddUInt256 n) = Ok (TFailure e)"
    by (simp add: add_u512 transform_add_def wrapped_transform_addition_def)
  ultimately show ?thesis
    by (simp only: result.inject u512_value_inj u64_value_inj ucast_u512_sum scast_i32_sum simp_thms)
qed

definition ex_balance :: key where "ex_balance = KBalance (replicate 32 7)"

definition ex_journal :: journal where
  "ex_journal = [(ex_balance, TAddUInt64 2), (ex_balance, TIdentity), (ex_balance, TAddUInt64 3)]"

theorem effect_equals_journal_witness:
  "\<exists>T. transforms_from (\<lambda>_. []) ex_journal = Ok T \<and>
     (case T ex_balance of None \<Rightarrow> Some (u64_value 1) | Some t \<Rightarrow> applied t (Some (u64_value 1))) = Some (u64_value 6)"
proof -
  have t: "has_type CLU64 (u64_value x)" for x by (simp add: has_type_def u64_value_def)
  have "run_journal ex_journal [ex_balance \<mapsto> u64_value 1] = Some [ex_balance \<mapsto> u64_value 6]"
    by (simp add: ex_journal_def journal_step_def add_u64)
  moreover have "exact_journal {} ex_journal [ex_balance \<mapsto> u64_value 1]"
    by (simp add: ex_journal_def journal_step_def add_u64 t)
  ultimately have "\<exists>T. transforms_from (\<lambda>_. []) ex_journal = Ok T \<and> (\<forall>k. [ex_balance \<mapsto> u64_value 6] k =
      (case T k of None \<Rightarrow> [ex_balance \<mapsto> u64_value 1] k | Some t \<Rightarrow> applied t ([ex_balance \<mapsto> u64_value 1] k)))"
    by (rule effect_equals_journal)
  then show ?thesis by (metis fun_upd_same)
qed

end
