(* ===== verification/Totality.thy ===== *)
theory Totality
  imports Transforms
begin

text \<open>
  The encoders and decoders of the values and keys of global state never panic: whatever the bytes are, decoding ends with a
  value or with an error. The facts \<open>X \<noteq> Panic\<close> are collected in \<open>no_panic\<close>, from the primitives over the combinators
  up to the stored values. The application of a transform and the arithmetic on stored numbers inherit it.
\<close>

named_theorems no_panic \<open>a computation that cannot panic\<close>

section \<open>Primitives and combinators\<close>

lemma res_bind_no_panic [no_panic]: "m \<noteq> Panic \<Longrightarrow> (\<And>x. f x \<noteq> Panic) \<Longrightarrow> res_bind m f \<noteq> Panic"
  by (cases m) auto

lemma primitive_decoders_no_panic [no_panic]:
  "u8_from_bytes bs \<noteq> Panic" "safe_split_at bs n \<noteq> Panic" "u32_try_from n \<noteq> Panic"
  "try_vec_with_capacity alloc sz al n \<noteq> Panic" "allocate_buffer n \<noteq> Panic"
  by (cases bs; auto simp: safe_split_at_def u32_try_from_def try_vec_with_capacity_def allocate_buffer_def Let_def split: if_splits)+

lemma ok_or_no_panic [no_panic]: "ok_or v e \<noteq> Panic"
  by (cases v) auto

lemma bool_from_bytes_no_panic [no_panic]: "bool_from_bytes bs \<noteq> Panic"
  by (cases bs rule: bool_from_bytes.cases) auto

lemma le_from_bytes_no_panic [no_panic]: "le_from_bytes n bs \<noteq> Panic"
  by (simp add: le_from_bytes_def split_def no_panic)

lemma number_decoders_no_panic [no_panic]:
  "i32_from_bytes bs \<noteq> Panic" "i64_from_bytes bs \<noteq> Panic" "u16_from_bytes bs \<noteq> Panic" "u32_from_bytes bs \<noteq> Panic"
  "u64_from_bytes bs \<noteq> Panic"
  by (simp_all add: i32_from_bytes_def i64_from_bytes_def u16_from_bytes_def u32_from_bytes_def u64_from_bytes_def no_panic)

lemma slice_decoders_no_panic [no_panic]:
  "uint_from_bytes n bs \<noteq> Panic" "Bytes_from_bytes bs \<noteq> Panic" "String_from_bytes bs \<noteq> Panic" "array_from_bytes n bs \<noteq> Panic"
  by (simp_all add: uint_from_bytes_def Bytes_from_bytes_def String_from_bytes_def array_from_bytes_def split_def no_panic)

lemma read_items_no_panic [no_panic]: "(\<And>bs. fb bs \<noteq> Panic) \<Longrightarrow> read_items fb ins n acc bs \<noteq> Panic"
  by (induction n arbitrary: acc bs) (simp_all add: split_def no_panic)

lemma combinator_decoders_no_panic [no_panic]:
  "(\<And>bs. fb bs \<noteq> Panic) \<Longrightarrow> option_from_bytes fb bs \<noteq> Panic"
  "(\<And>bs. fb bs \<noteq> Panic) \<Longrightarrow> fb_map f fb bs \<noteq> Panic"
  "(\<And>bs. fb bs \<noteq> Panic) \<Longrightarrow> vec_from_bytes alloc sz al fb bs \<noteq> Panic"
  "(\<And>bs. gb bs \<noteq> Panic) \<Longrightarrow> btreeset_from_bytes gb bs \<noteq> Panic"
  by (simp_all add: option_from_bytes_def fb_map_def vec_from_bytes_def btreeset_from_bytes_def split_def no_panic)

lemma pair_decoders_no_panic [no_panic]:
  assumes "\<And>bs. kfb bs \<noteq> Panic" "\<And>bs. vfb bs \<noteq> Panic"
  shows "entry_from_bytes kfb vfb bs \<noteq> Panic" "tuple2_from_bytes kfb vfb bs \<noteq> Panic"
  using assms by (simp_all add: entry_from_bytes_def tuple2_from_bytes_def split_def no_panic)

lemma btreemap_from_bytes_no_panic [no_panic]:
  assumes "\<And>bs. kfb bs \<noteq> Panic" "\<And>bs. vfb bs \<noteq> Panic"
  shows "btreemap_from_bytes kfb vfb bs \<noteq> Panic"
  using assms by (simp add: btreemap_from_bytes_def split_def no_panic)

lemma primitive_writers_no_panic [no_panic]:
  "u8_write_bytes a w \<noteq> Panic" "bool_write_bytes b w \<noteq> Panic" "le_write_bytes n x w \<noteq> Panic" "array_write_bytes bs w \<noteq> Panic"
  "write_u8_slice bs w \<noteq> Panic" "default_write_bytes (uint_to_bytes n) y w \<noteq> Panic"
  by (simp_all add: u8_write_bytes_def bool_write_bytes_def le_write_bytes_def array_write_bytes_def write_u8_slice_def
      default_write_bytes_def uint_to_bytes_def Let_def no_panic)

lemma number_writers_no_panic [no_panic]:
  "i32_write_bytes a w \<noteq> Panic" "i64_write_bytes b w \<noteq> Panic" "u16_write_bytes c w \<noteq> Panic" "u32_write_bytes d w \<noteq> Panic"
  "u64_write_bytes e w \<noteq> Panic"
  by (simp_all add: i32_write_bytes_def i64_write_bytes_def u16_write_bytes_def u32_write_bytes_def u64_write_bytes_def no_panic)

lemma res_fold_no_panic [no_panic]: "(\<And>x a. f x a \<noteq> Panic) \<Longrightarrow> res_fold f xs a \<noteq> Panic"
  by (induction xs arbitrary: a) (simp_all add: no_panic)

lemma combinator_writers_no_panic [no_panic]:
  assumes "\<And>x w. wb x w \<noteq> Panic"
  shows "write_items wb xs w \<noteq> Panic" "vec_write_bytes wb xs w \<noteq> Panic" "btreeset_write_bytes wb xs w \<noteq> Panic"
    "option_write_bytes wb v w \<noteq> Panic"
proof -
  show "write_items wb xs w \<noteq> Panic" for xs w using assms by (rule write_items_total)
  with assms show "vec_write_bytes wb xs w \<noteq> Panic" "btreeset_write_bytes wb xs w \<noteq> Panic" "option_write_bytes wb v w \<noteq> Panic"
    by (cases v; simp add: vec_write_bytes_def btreeset_write_bytes_def no_panic)+
qed

lemma btreemap_write_bytes_no_panic [no_panic]:
  assumes "\<And>x w. kwb x w \<noteq> Panic" "\<And>x w. vwb x w \<noteq> Panic"
  shows "btreemap_write_bytes kwb vwb m w \<noteq> Panic"
  using assms
  by (simp add: btreemap_write_bytes_def entry_write_bytes_def [abs_def] no_panic split_def)

section \<open>Keys\<close>

lemma uref_decoders_no_panic [no_panic]: "ar_from_bytes bs \<noteq> Panic" "uref_from_bytes bs \<noteq> Panic"
  by (simp_all add: ar_from_bytes_def uref_from_bytes_def split_def no_panic split: option.split)

lemma hash_decoders_no_panic [no_panic]:
  "account_hash_from_bytes bs \<noteq> Panic" "transfer_addr_from_bytes bs \<noteq> Panic" "deploy_hash_from_bytes bs \<noteq> Panic"
  "era_from_bytes bs \<noteq> Panic"
  by (simp_all add: account_hash_from_bytes_def transfer_addr_from_bytes_def deploy_hash_from_bytes_def era_from_bytes_def
      split_def no_panic)

lemma key_from_bytes_no_panic [no_panic]: "key_from_bytes bs \<noteq> Panic"
  by (simp add: key_from_bytes_def split_def no_panic)

lemma uref_writers_no_panic [no_panic]: "ar_write_bytes a w \<noteq> Panic" "uref_write_bytes u w \<noteq> Panic"
  by (simp_all add: ar_write_bytes_def uref_write_bytes_def no_panic)

lemma hash_writers_no_panic [no_panic]:
  "account_hash_write_bytes h w \<noteq> Panic" "transfer_addr_write_bytes h w \<noteq> Panic" "deploy_hash_write_bytes h w \<noteq> Panic"
  "era_write_bytes e w \<noteq> Panic"
  by (simp_all add: account_hash_write_bytes_def transfer_addr_write_bytes_def deploy_hash_write_bytes_def era_write_bytes_def no_panic)

lemma key_write_bytes_no_panic [no_panic]: "key_write_bytes k w \<noteq> Panic"
  by (cases k) (simp_all add: key_write_bytes_def no_panic)

section \<open>Accounts and contracts\<close>

lemma account_decoders_no_panic [no_panic]:
  "weight_from_bytes bs \<noteq> Panic" "action_thresholds_from_bytes bs \<noteq> Panic" "associated_keys_from_bytes bs \<noteq> Panic"
  "named_keys_from_bytes bs \<noteq> Panic" "account_from_bytes bs \<noteq> Panic"
proof -
  show w: "weight_from_bytes bs \<noteq> Panic" for bs by (simp add: weight_from_bytes_def split_def no_panic)
  show t: "action_thresholds_from_bytes bs \<noteq> Panic" for bs by (simp add: action_thresholds_from_bytes_def split_def no_panic w)
  show a: "associated_keys_from_bytes bs \<noteq> Panic" for bs by (simp add: associated_keys_from_bytes_def split_def no_panic w)
  show n: "named_keys_from_bytes bs \<noteq> Panic" for bs by (simp add: named_keys_from_bytes_def no_panic)
  show "account_from_bytes bs \<noteq> Panic" by (simp add: account_from_bytes_def split_def no_panic t a n)
qed

lemma account_writers_no_panic [no_panic]:
  "weight_write_bytes x w \<noteq> Panic" "action_thresholds_write_bytes t w \<noteq> Panic" "associated_keys_write_bytes ks w \<noteq> Panic"
  "named_keys_write_bytes ns w \<noteq> Panic" "account_write_bytes acc w \<noteq> Panic"
proof -
  show w: "weight_write_bytes x w \<noteq> Panic" for x w by (simp add: weight_write_bytes_def no_panic)
  show t: "action_thresholds_write_bytes t w \<noteq> Panic" for t w by (simp add: action_thresholds_write_bytes_def no_panic w)
  show a: "associated_keys_write_bytes ks w \<noteq> Panic" for ks w by (simp add: associated_keys_write_bytes_def split_def no_panic w)
  show n: "named_keys_write_bytes ns w \<noteq> Panic" for ns w by (simp add: named_keys_write_bytes_def no_panic)
  show "account_write_bytes acc w \<noteq> Panic" by (simp add: account_write_bytes_def no_panic t a n)
qed

lemma cl_type_write_no_panic [no_panic]: "cl_type_append_bytes t w \<noteq> Panic"
  by (simp add: cl_type_append)

lemma u8_from_bytes_Ok: "u8_from_bytes bs = Ok (b, rest) \<longleftrightarrow> bs = b # rest"
  by (cases bs) auto

definition type_decoded :: "nat \<Rightarrow> bytes \<Rightarrow> (bytes_error, cl_type \<times> bytes) result \<Rightarrow> bool" where
  "type_decoded depth bs r \<longleftrightarrow> r \<noteq> Panic \<and>
     (\<forall>t rest. r = Ok (t, rest) \<longrightarrow> depth + cl_type_depth t \<le> CL_TYPE_RECURSION_DEPTH \<and> bs = cl_type_code t @ rest)"

lemma type_decoded_if:
  "(c \<Longrightarrow> type_decoded depth bs r) \<Longrightarrow> type_decoded depth bs r' \<Longrightarrow> type_decoded depth bs (if c then r else r')"
  by simp

lemma type_decoded_bind:
  assumes "type_decoded depth bs m"
    and "\<And>t rest. m = Ok (t, rest) \<Longrightarrow> depth + cl_type_depth t \<le> CL_TYPE_RECURSION_DEPTH \<Longrightarrow> bs = cl_type_code t @ rest \<Longrightarrow>
      type_decoded depth' bs' (f (t, rest))"
  shows "type_decoded depth' bs' (res_bind m f)"
  using assms by (cases m) (auto simp: type_decoded_def)

lemma u32_from_bytes_inv: "u32_from_bytes bs = Ok (n, rest) \<Longrightarrow> bs = to_le_bytes 4 n @ rest"
  by (auto simp: u32_from_bytes_def le_from_bytes_def safe_split_at_def res_simps to_from_le_bytes split: if_splits)

lemma type_decoded_leaf:
  "type_decoded depth bs (Ok (t, rest)) \<longleftrightarrow> depth + cl_type_depth t \<le> CL_TYPE_RECURSION_DEPTH \<and> bs = cl_type_code t @ rest"
  "type_decoded depth bs (Err e)"
  by (auto simp: type_decoded_def)

lemma type_decoded_u32:
  "depth < CL_TYPE_RECURSION_DEPTH \<Longrightarrow>
   type_decoded depth (CL_TYPE_TAG_BYTE_ARRAY # bs) (res_bind (u32_from_bytes bs) (\<lambda>p. Ok (CLByteArray (fst p), snd p)))"
  by (auto simp: type_decoded_def res_simps no_panic dest: u32_from_bytes_inv)

lemma depth_limited_step:
  assumes IH: "\<And>bs. type_decoded (Suc depth) bs (depth_limited_from_bytes (Suc depth) bs)" and d: "depth < CL_TYPE_RECURSION_DEPTH"
  shows "type_decoded depth bs (depth_limited_from_bytes depth bs)"
proof (cases bs)
  case Nil
  then show ?thesis by (simp add: depth_limited_from_bytes.simps [of depth "[]"] type_decoded_def)
next
  case (Cons tag bs)
  from d show ?thesis
    unfolding Cons depth_limited_from_bytes.simps [of depth "tag # bs"]
    by (simp only: parse_tuple_counts parse_cl_tuple_types.simps res_bind_assoc split_def Suc_eq_plus1 [symmetric] pop_front.simps
          res_bind.simps u8_from_bytes.simps not_le [symmetric] if_False prod.sel)
      (intro type_decoded_if type_decoded_bind [OF IH];
        simp add: type_decoded_u32 type_decoded_leaf)
qed

lemma depth_limited_decoded: "type_decoded depth bs (depth_limited_from_bytes depth bs)"
proof (induction "CL_TYPE_RECURSION_DEPTH - depth" arbitrary: depth bs)
  case 0
  then show ?case by (simp add: depth_limited_from_bytes.simps [of depth bs] type_decoded_def)
next
  case (Suc n)
  then have "n = CL_TYPE_RECURSION_DEPTH - Suc depth" "depth < CL_TYPE_RECURSION_DEPTH" by simp_all
  from depth_limited_step [OF Suc(1) [OF this(1)] this(2)] show ?case .
qed

lemma cl_type_from_bytes_no_panic [no_panic]: "cl_type_from_bytes bs \<noteq> Panic"
  using depth_limited_decoded [of 0 bs] by (simp add: cl_type_from_bytes_def type_decoded_def)

lemma cl_value_no_panic [no_panic]: "cl_value_write_bytes v w \<noteq> Panic" "cl_value_from_bytes bs \<noteq> Panic"
  by (simp_all add: cl_value_write_bytes_def cl_value_from_bytes_def split_def no_panic)

lemma contract_part_decoders_no_panic [no_panic]:
  "sem_ver_from_bytes bs \<noteq> Panic" "protocol_version_from_bytes bs \<noteq> Panic" "contract_package_status_from_bytes bs \<noteq> Panic"
  "entry_point_type_from_bytes bs \<noteq> Panic" "entry_point_access_from_bytes h bs \<noteq> Panic" "parameter_from_bytes bs \<noteq> Panic"
  "contract_version_key_from_bytes bs \<noteq> Panic"
  by (simp_all add: sem_ver_from_bytes_def protocol_version_from_bytes_def contract_package_status_from_bytes_def
      entry_point_type_from_bytes_def entry_point_access_from_bytes_def parameter_from_bytes_def contract_version_key_from_bytes_def
      split_def no_panic)

lemma entry_point_decoders_no_panic [no_panic]: "entry_point_from_bytes h bs \<noteq> Panic" "entry_points_from_bytes h bs \<noteq> Panic"
proof -
  show e: "entry_point_from_bytes h bs \<noteq> Panic" for bs by (simp add: entry_point_from_bytes_def split_def no_panic)
  show "entry_points_from_bytes h bs \<noteq> Panic" by (simp add: entry_points_from_bytes_def split_def no_panic e)
qed

lemma contract_decoders_no_panic [no_panic]: "contract_package_from_bytes bs \<noteq> Panic" "contract_from_bytes h bs \<noteq> Panic"
  by (simp_all add: contract_package_from_bytes_def contract_from_bytes_def split_def no_panic)

lemma contract_part_writers_no_panic [no_panic]:
  "protocol_version_write_bytes v w \<noteq> Panic" "contract_package_status_write_bytes s w \<noteq> Panic" "entry_point_type_write_bytes t w \<noteq> Panic"
  "entry_point_access_write_bytes a w \<noteq> Panic" "parameter_write_bytes p w \<noteq> Panic" "contract_version_key_write_bytes k w \<noteq> Panic"
  by (cases a; simp add: protocol_version_write_bytes_def contract_package_status_write_bytes_def
      entry_point_type_write_bytes_def parameter_write_bytes_def contract_version_key_write_bytes_def split_def no_panic)+

lemma entry_point_writers_no_panic [no_panic]: "entry_point_write_bytes e w \<noteq> Panic" "entry_points_write_bytes es w \<noteq> Panic"
proof -
  show e: "entry_point_write_bytes e w \<noteq> Panic" for e w by (simp add: entry_point_write_bytes_def no_panic)
  show "entry_points_write_bytes es w \<noteq> Panic" by (simp add: entry_points_write_bytes_def no_panic e)
qed

lemma contract_writers_no_panic [no_panic]:
  "contract_package_write_bytes p w \<noteq> Panic" "contract_package_to_bytes p \<noteq> Panic" "contract_write_bytes c w \<noteq> Panic"
  by (simp_all add: contract_package_write_bytes_def contract_package_to_bytes_def contract_write_bytes_def no_panic)

section \<open>Bids and purses\<close>

lemma public_key_from_bytes_no_panic [no_panic]: "public_key_from_bytes cv bs \<noteq> Panic"
  by (simp add: public_key_from_bytes_def split_def no_panic)

lemma public_key_write_bytes_no_panic [no_panic]: "public_key_write_bytes k w \<noteq> Panic"
  by (cases k) (simp_all add: no_panic)

lemma vesting_schedule_no_panic [no_panic]:
  "vesting_schedule_from_bytes h bs \<noteq> Panic" "vesting_schedule_write_bytes v w \<noteq> Panic"
  by (simp_all add: vesting_schedule_from_bytes_def vesting_schedule_write_bytes_def split_def no_panic split: option.split)

lemma delegator_no_panic [no_panic]: "delegator_from_bytes cv h bs \<noteq> Panic" "delegator_write_bytes d w \<noteq> Panic"
  by (simp_all add: delegator_from_bytes_def delegator_write_bytes_def split_def no_panic)

lemma bid_no_panic [no_panic]: "bid_from_bytes cv h bs \<noteq> Panic" "bid_write_bytes b w \<noteq> Panic"
  by (simp_all add: bid_from_bytes_def bid_write_bytes_def split_def no_panic)

lemma purse_decoders_no_panic [no_panic]: "withdraw_purse_from_bytes cv bs \<noteq> Panic" "unbonding_purse_from_bytes cv bs \<noteq> Panic"
  by (simp_all add: withdraw_purse_from_bytes_def unbonding_purse_from_bytes_def split_def no_panic)

lemma unbonding_purse_write_no_panic [no_panic]: "unbonding_purse_write_bytes p w \<noteq> Panic"
  by (simp add: unbonding_purse_write_bytes_def no_panic)

lemma era_info_no_panic [no_panic]:
  "seigniorage_allocation_from_bytes cv bs \<noteq> Panic" "seigniorage_allocation_write_bytes a w \<noteq> Panic"
  "era_info_from_bytes cv h bs \<noteq> Panic" "era_info_write_bytes e w \<noteq> Panic"
proof -
  show d: "seigniorage_allocation_from_bytes cv bs \<noteq> Panic" for bs
    by (simp add: seigniorage_allocation_from_bytes_def split_def no_panic)
  show w: "seigniorage_allocation_write_bytes a w \<noteq> Panic" for a w by (cases a) (simp_all add: no_panic)
  show "era_info_from_bytes cv h bs \<noteq> Panic" "era_info_write_bytes e w \<noteq> Panic"
    by (simp_all add: era_info_from_bytes_def era_info_write_bytes_def split_def no_panic d w)
qed

section \<open>Stored values\<close>

lemma record_decoders_no_panic [no_panic]:
  "transfer_from_bytes bs \<noteq> Panic" "deploy_info_from_bytes h bs \<noteq> Panic" "contract_wasm_from_bytes bs \<noteq> Panic"
  by (simp_all add: transfer_from_bytes_def deploy_info_from_bytes_def contract_wasm_from_bytes_def split_def no_panic)

lemma record_writers_no_panic [no_panic]:
  "transfer_write_bytes t w \<noteq> Panic" "deploy_info_write_bytes d w \<noteq> Panic" "contract_wasm_write_bytes c w \<noteq> Panic"
  by (simp_all add: transfer_write_bytes_def deploy_info_write_bytes_def contract_wasm_write_bytes_def no_panic)

lemma stored_value_from_bytes_no_panic [no_panic]: "stored_value_from_bytes cv h bs \<noteq> Panic"
  by (simp add: stored_value_from_bytes_def split_def no_panic)

lemma to_bytes_no_panic [no_panic]:
  "uref_to_bytes u \<noteq> Panic" "public_key_to_bytes k \<noteq> Panic" "era_to_bytes e \<noteq> Panic" "uint_to_bytes n x \<noteq> Panic"
  "le_to_bytes m y \<noteq> Panic" "u8_to_bytes b \<noteq> Panic"
  by (simp_all add: uref_to_bytes_def ar_to_bytes_def array_to_bytes_def public_key_to_bytes_def era_to_bytes_def uint_to_bytes_def Let_def
      le_to_bytes_def u8_to_bytes_def u64_to_bytes_def no_panic)

lemma default_write_bytes_no_panic [no_panic]: "tb x \<noteq> Panic \<Longrightarrow> default_write_bytes tb x w \<noteq> Panic"
  by (simp add: default_write_bytes_def no_panic)

lemma withdraw_purse_to_bytes_no_panic [no_panic]: "withdraw_purse_to_bytes p \<noteq> Panic"
  by (simp add: withdraw_purse_to_bytes_def no_panic)

lemma stored_value_write_bytes_no_panic [no_panic]: "stored_value_write_bytes v w \<noteq> Panic"
  by (cases v) (simp_all add: stored_value_write_bytes_def no_panic)

section \<open>The codecs of global state\<close>

definition stored_value_codec :: "curves \<Rightarrow> heap \<Rightarrow> stored_value codec" where
  "stored_value_codec cv h = \<lparr>cd_sl = stored_value_serialized_length, cd_tb = stored_value_to_bytes h,
     cd_wb = stored_value_write_bytes, cd_fb = stored_value_from_bytes cv h\<rparr>"

lemma stored_value_codec_simps [simp]:
  "cd_sl (stored_value_codec cv h) = stored_value_serialized_length" "cd_tb (stored_value_codec cv h) = stored_value_to_bytes h"
  "cd_wb (stored_value_codec cv h) = stored_value_write_bytes" "cd_fb (stored_value_codec cv h) = stored_value_from_bytes cv h"
  by (simp_all add: stored_value_codec_def)

lemma state_codecs_lawful:
  "lawful_codecs key_valid key_codec (stored_value_valid cv h) (stored_value_codec cv h)" "short_keys key_valid key_codec"
  using keys_fit_trie [of "stored_value_valid cv h" "stored_value_codec cv h"] stored_value_writer.bytes_writer_axioms
  by (simp_all add: no_panic)

lemma trie_decoders_no_panic [no_panic]:
  "digest_from_bytes bs \<noteq> Panic" "pointer_from_bytes bs \<noteq> Panic" "pointer_block_from_bytes bs \<noteq> Panic"
proof -
  show d: "digest_from_bytes bs \<noteq> Panic" for bs by (simp add: digest_from_bytes_def split_def no_panic)
  show p: "pointer_from_bytes bs \<noteq> Panic" for bs by (simp add: pointer_from_bytes_def split_def no_panic d)
  show "pointer_block_from_bytes bs \<noteq> Panic" by (simp add: pointer_block_from_bytes_def split_def no_panic p)
qed

lemma trie_from_bytes_no_panic [no_panic]:
  "(\<And>bs. cd_fb kc bs \<noteq> Panic) \<Longrightarrow> (\<And>bs. cd_fb vc bs \<noteq> Panic) \<Longrightarrow> trie_from_bytes kc vc bs \<noteq> Panic"
  by (simp add: trie_from_bytes_def split_def no_panic)

lemma proof_step_from_bytes_no_panic [no_panic]: "proof_step_from_bytes alloc bs \<noteq> Panic"
  by (simp add: proof_step_from_bytes_def split_def no_panic)

lemma merkle_proof_from_bytes_no_panic [no_panic]:
  "(\<And>bs. cd_fb kc bs \<noteq> Panic) \<Longrightarrow> (\<And>bs. cd_fb vc bs \<noteq> Panic) \<Longrightarrow> merkle_proof_from_bytes alloc sz al kc vc bs \<noteq> Panic"
  by (simp add: merkle_proof_from_bytes_def vecdeque_from_bytes_def split_def no_panic)

section \<open>Numbers\<close>

lemma map_err_no_panic [no_panic]: "m \<noteq> Panic \<Longrightarrow> map_err f m \<noteq> Panic"
  by (cases m) auto

lemma cl_value_into_t_no_panic [no_panic]: "(\<And>bs. fb bs \<noteq> Panic) \<Longrightarrow> cl_value_into_t ty fb v \<noteq> Panic"
  by (auto simp: cl_value_into_t_def deserialize_from_slice_def res_simps split: result.splits if_splits prod.splits)

lemma cl_value_from_t_no_panic [no_panic]: "tb x \<noteq> Panic \<Longrightarrow> cl_value_from_t ty tb x \<noteq> Panic"
  by (cases "tb x") (simp_all add: cl_value_from_t_def)

lemma number_to_bytes_no_panic [no_panic]:
  "i32_to_bytes a \<noteq> Panic" "i64_to_bytes b \<noteq> Panic" "u32_to_bytes c \<noteq> Panic" "u64_to_bytes d \<noteq> Panic"
  by (simp_all add: i32_to_bytes_def i64_to_bytes_def u32_to_bytes_def u64_to_bytes_def no_panic)

lemma do_wrapping_addition_no_panic [no_panic]:
  "(\<And>bs. fb bs \<noteq> Panic) \<Longrightarrow> (\<And>x. tb x \<noteq> Panic) \<Longrightarrow> do_wrapping_addition ty tb fb v y \<noteq> Panic"
  by (simp add: do_wrapping_addition_def no_panic)

lemma cl_value_try_from_no_panic [no_panic]: "cl_value_try_from v \<noteq> Panic"
  by (cases v) (simp_all add: no_panic)

lemma wrapping_addition_no_panic [no_panic]: "wrapping_addition v x \<noteq> Panic"
  unfolding wrapping_addition_def
  by (intro res_bind_no_panic map_err_no_panic cl_value_try_from_no_panic) (simp add: no_panic split: cl_type.split)

lemma transform_apply_no_panic [no_panic]: "transform_apply t v \<noteq> Panic"
  by (cases t) (simp_all add: no_panic add_keys_def split: stored_value.split)

section \<open>Properties\<close>

text \<open>C40: Decoding the description of a type returns on every input, without panic; what it accepts is nested at most as deep as the
  limit and the input was exactly its encoding followed by the remainder. The encoding of every type within the limit is decoded
  back, whatever follows it, and the encoding of a type nested deeper is refused with \<open>ExceededRecursionDepth\<close>.\<close>
theorem cl_type_decode_depth:
  "(case cl_type_from_bytes bs of
      Ok (t, rest) \<Rightarrow> cl_type_depth t \<le> CL_TYPE_RECURSION_DEPTH \<and> bs = cl_type_code t @ rest \<and> cl_type_append_bytes t [] = Ok (cl_type_code t)
    | Err e \<Rightarrow> True | Panic \<Rightarrow> False) \<and>
   cl_type_from_bytes (cl_type_code t @ rest) =
     (if cl_type_depth t \<le> CL_TYPE_RECURSION_DEPTH then Ok (t, rest) else Err ExceededRecursionDepth)"
  using depth_limited_decoded [of 0 bs]
  by (auto simp: cl_type_from_bytes_def type_decoded_def cl_type_decode cl_type_append split: result.split)


end
