(* ===== verification/Trie_Sync.thy ===== *)
theory Trie_Sync
  imports Trie_Memory Totality
begin

text \<open>
  The worklist algorithms \<open>missing_trie_keys\<close> and \<open>descendant_trie_keys\<close> of
  \<^verbatim>\<open>storage/trie_store/operations/mod.rs\<close>, with which a node finds out which part of a global state it
  still has to download. Both end because a digest is expanded at most once. What they have to find is said over the
  stored bytes alone, without the code that looks at a key: \<open>points_to\<close> is the relation between a
  stored node and the digests in its pointers, \<open>reachable\<close> its closure from the given keys that does not pass through
  keys known to be complete, and \<open>lacks_entry\<close> the keys that still have to be fetched.
\<close>

section \<open>The loops\<close>

text \<open>One look at a trie key: \<open>None\<close> if there is no entry or it cannot be parsed, otherwise the keys to be
  pushed.\<close>

definition visit_trie ::
  "(digest \<Rightarrow> (storage_error, bytes option) result) \<Rightarrow> ('k, 'v) trie from_bytes \<Rightarrow> digest \<Rightarrow>
   (storage_error, digest list option) result" where
  "visit_trie get_raw fb tkey =
     res_bind (get_raw tkey) (\<lambda>r. case r of
       None \<Rightarrow> Ok None
     | Some retrieved_trie_bytes \<Rightarrow>
         if retrieved_trie_bytes \<noteq> [] \<and> hd retrieved_trie_bytes = LEAF_TAG then Ok (Some [])
         else case deserialize_from_slice fb retrieved_trie_bytes of
           Err _ \<Rightarrow> Ok None
         | Panic \<Rightarrow> Panic
         | Ok (Leaf _ _) \<Rightarrow> Ok (Some [])
         | Ok (Node pointer_block) \<Rightarrow> Ok (Some (map (\<lambda>(_, pointer). pointer_hash pointer) (as_indexed_pointers pointer_block)))
         | Ok (Extension _ pointer) \<Rightarrow> Ok (Some [pointer_hash pointer]))"

function missing_loop ::
  "(digest \<Rightarrow> (storage_error, digest list option) result) \<Rightarrow> digest set \<Rightarrow> digest list \<Rightarrow> digest set \<Rightarrow> digest list \<Rightarrow>
   (storage_error, digest list) result" where
  "missing_loop visit known_complete trie_keys_to_visit visited missing_descendants =
     (if trie_keys_to_visit = [] then Ok missing_descendants
      else let tkey = last trie_keys_to_visit; to_visit = butlast trie_keys_to_visit in
      if tkey \<in> visited then missing_loop visit known_complete to_visit visited missing_descendants
      else let visited = insert tkey visited in
      if tkey \<in> known_complete then missing_loop visit known_complete to_visit visited missing_descendants
      else case visit tkey of
        Err e \<Rightarrow> Err e
      | Panic \<Rightarrow> Panic
      | Ok None \<Rightarrow> missing_loop visit known_complete to_visit visited (missing_descendants @ [tkey])
      | Ok (Some children) \<Rightarrow> missing_loop visit known_complete (to_visit @ children) visited missing_descendants)"
  by pat_completeness auto

function descendant_loop ::
  "(digest \<Rightarrow> (storage_error, digest list option) result) \<Rightarrow> digest set \<Rightarrow> digest list \<Rightarrow> digest set \<Rightarrow>
   (storage_error, digest set) result" where
  "descendant_loop visit known_complete trie_keys_to_visit visited =
     (if trie_keys_to_visit = [] then Ok visited
      else let tkey = last trie_keys_to_visit; to_visit = butlast trie_keys_to_visit in
      if tkey \<in> visited then descendant_loop visit known_complete to_visit visited
      else let visited = insert tkey visited in
      if tkey \<in> known_complete then descendant_loop visit known_complete to_visit visited
      else case visit tkey of
        Err e \<Rightarrow> Err e
      | Panic \<Rightarrow> Panic
      | Ok None \<Rightarrow> descendant_loop visit known_complete to_visit visited
      | Ok (Some children) \<Rightarrow> descendant_loop visit known_complete (to_visit @ children) visited)"
  by pat_completeness auto

definition unvisited :: "digest set \<Rightarrow> nat" where
  "unvisited V = card (- V)"

lemma unvisited_insert: "k \<notin> V \<Longrightarrow> unvisited (insert k V) < unvisited V"
  unfolding unvisited_def by (rule psubset_card_mono) auto

termination missing_loop
  by (relation "inv_image (less_than <*lex*> less_than) (\<lambda>(_, _, todo, V, _). (unvisited V, length todo))")
    (auto simp: unvisited_insert)

termination descendant_loop
  by (relation "inv_image (less_than <*lex*> less_than) (\<lambda>(_, _, todo, V). (unvisited V, length todo))")
    (auto simp: unvisited_insert)

declare missing_loop.simps [simp del] descendant_loop.simps [simp del]

definition missing_trie_keys ::
  "(digest \<Rightarrow> (storage_error, bytes option) result) \<Rightarrow> ('k, 'v) trie from_bytes \<Rightarrow> digest list \<Rightarrow> digest set \<Rightarrow>
   (storage_error, digest list) result" where
  "missing_trie_keys get_raw fb trie_keys_to_visit known_complete =
     missing_loop (visit_trie get_raw fb) known_complete trie_keys_to_visit {} []"

definition descendant_trie_keys ::
  "(digest \<Rightarrow> (storage_error, bytes option) result) \<Rightarrow> ('k, 'v) trie from_bytes \<Rightarrow> digest list \<Rightarrow> digest set \<Rightarrow>
   (storage_error, digest set) result" where
  "descendant_trie_keys get_raw fb trie_keys_to_visit known_complete =
     descendant_loop (visit_trie get_raw fb) known_complete trie_keys_to_visit {}"

section \<open>The stored graph\<close>

text \<open>A stored node points to a digest if one of the entries of its pointer block, or the pointer of the extension,
  carries it.\<close>

inductive points_to ::
  "(digest \<Rightarrow> (storage_error, bytes option) result) \<Rightarrow> ('k, 'v) trie from_bytes \<Rightarrow> digest \<Rightarrow> digest \<Rightarrow> bool"
  for get_raw fb where
  node_points: "get_raw d = Ok (Some bs) \<Longrightarrow> deserialize_from_slice fb bs = Ok (Node pb) \<Longrightarrow> pb i = Some p \<Longrightarrow>
    points_to get_raw fb d (pointer_hash p)"
| extension_points: "get_raw d = Ok (Some bs) \<Longrightarrow> deserialize_from_slice fb bs = Ok (Extension affix p) \<Longrightarrow>
    points_to get_raw fb d (pointer_hash p)"

inductive_set reachable ::
  "(digest \<Rightarrow> (storage_error, bytes option) result) \<Rightarrow> ('k, 'v) trie from_bytes \<Rightarrow> digest set \<Rightarrow> digest list \<Rightarrow> digest set"
  for get_raw fb known_complete roots where
  reach_root: "d \<in> set roots \<Longrightarrow> d \<in> reachable get_raw fb known_complete roots"
| reach_child: "d \<in> reachable get_raw fb known_complete roots \<Longrightarrow> d \<notin> known_complete \<Longrightarrow> points_to get_raw fb d c \<Longrightarrow>
    c \<in> reachable get_raw fb known_complete roots"

text \<open>There is no entry, or one that is not a trie. An entry that starts with the tag of a leaf counts as a leaf
  whatever follows.\<close>

definition lacks_entry ::
  "(digest \<Rightarrow> (storage_error, bytes option) result) \<Rightarrow> ('k, 'v) trie from_bytes \<Rightarrow> digest \<Rightarrow> bool" where
  "lacks_entry get_raw fb d \<longleftrightarrow> get_raw d = Ok None \<or>
     (\<exists>bs e. get_raw d = Ok (Some bs) \<and> take 1 bs \<noteq> [LEAF_TAG] \<and> deserialize_from_slice fb bs = Err e)"

section \<open>The loops over any way to look at a key\<close>

inductive_set visits ::
  "(digest \<Rightarrow> (storage_error, digest list option) result) \<Rightarrow> digest set \<Rightarrow> digest list \<Rightarrow> digest set"
  for visit known_complete roots where
  visit_root: "d \<in> set roots \<Longrightarrow> d \<in> visits visit known_complete roots"
| visit_child: "d \<in> visits visit known_complete roots \<Longrightarrow> d \<notin> known_complete \<Longrightarrow> visit d = Ok (Some children) \<Longrightarrow>
    c \<in> set children \<Longrightarrow> c \<in> visits visit known_complete roots"

text \<open>The invariant of both loops: what was visited or is still on the list is visits, contains the roots, and
  the children of every visited key were pushed.\<close>

definition worklist_inv ::
  "(digest \<Rightarrow> (storage_error, digest list option) result) \<Rightarrow> digest set \<Rightarrow> digest list \<Rightarrow> digest list \<Rightarrow> digest set \<Rightarrow> bool" where
  "worklist_inv visit known roots todo visited \<longleftrightarrow>
     set roots \<subseteq> visited \<union> set todo \<and> visited \<union> set todo \<subseteq> visits visit known roots \<and>
     (\<forall>d\<in>visited. \<forall>children. d \<notin> known \<longrightarrow> visit d = Ok (Some children) \<longrightarrow> set children \<subseteq> visited \<union> set todo)"

lemma worklist_init: "worklist_inv visit known roots roots {}"
  by (auto simp: worklist_inv_def intro: visit_root)

lemma worklist_done:
  assumes "worklist_inv visit known roots [] visited"
  shows "visited = visits visit known roots"
proof
  show "visits visit known roots \<subseteq> visited"
  proof
    fix d assume "d \<in> visits visit known roots"
    then show "d \<in> visited" by induction (use assms in \<open>auto simp: worklist_inv_def subset_iff\<close>)
  qed
qed (use assms in \<open>simp add: worklist_inv_def\<close>)

lemma todo_split: "todo \<noteq> [] \<Longrightarrow> set todo = insert (last todo) (set (butlast todo))"
  by (metis append_butlast_last_id list.simps(15) rotate1.simps(2) set_rotate1)

lemma worklist_step:
  assumes inv: "worklist_inv visit known roots todo visited" and todo: "todo \<noteq> []"
  shows "last todo \<in> visited \<Longrightarrow> worklist_inv visit known roots (butlast todo) visited"
    and "last todo \<in> known \<or> visit (last todo) = Ok None \<Longrightarrow>
      worklist_inv visit known roots (butlast todo) (insert (last todo) visited)"
    and "last todo \<notin> known \<Longrightarrow> visit (last todo) = Ok (Some children) \<Longrightarrow>
      worklist_inv visit known roots (butlast todo @ children) (insert (last todo) visited)"
proof -
  note s = todo_split [OF todo]
  show "last todo \<in> visited \<Longrightarrow> worklist_inv visit known roots (butlast todo) visited"
    using inv s by (simp add: worklist_inv_def insert_absorb)
  show "last todo \<in> known \<or> visit (last todo) = Ok None \<Longrightarrow>
      worklist_inv visit known roots (butlast todo) (insert (last todo) visited)"
    using inv s by (auto simp: worklist_inv_def)
  assume c: "last todo \<notin> known" "visit (last todo) = Ok (Some children)"
  have "last todo \<in> visits visit known roots" using inv s by (auto simp: worklist_inv_def)
  then have "set children \<subseteq> visits visit known roots" using c by (auto intro: visit_child)
  moreover have "set ch \<subseteq> insert (last todo) visited \<union> set (butlast todo @ children)"
    if d: "d \<in> insert (last todo) visited" "d \<notin> known" "visit d = Ok (Some ch)" for d ch
  proof (cases "d \<in> visited")
    case True
    with inv d(2,3) have "set ch \<subseteq> visited \<union> set todo" unfolding worklist_inv_def by blast
    then show ?thesis unfolding s by auto
  next
    case False
    with d c show ?thesis by auto
  qed
  moreover have "set roots \<subseteq> visited \<union> set todo" "visited \<union> set todo \<subseteq> visits visit known roots"
    using inv by (simp_all add: worklist_inv_def)
  ultimately show "worklist_inv visit known roots (butlast todo @ children) (insert (last todo) visited)"
    unfolding worklist_inv_def s by auto
qed

lemma missing_loop_correct:
  "worklist_inv visit known roots todo visited \<Longrightarrow> distinct missing \<Longrightarrow>
   set missing = {d \<in> visited. d \<notin> known \<and> visit d = Ok None} \<Longrightarrow>
   missing_loop visit known todo visited missing = Ok ms \<Longrightarrow>
   distinct ms \<and> set ms = {d \<in> visits visit known roots. d \<notin> known \<and> visit d = Ok None}"
proof (induction visit known todo visited missing rule: missing_loop.induct)
  case (1 visit known todo visited missing)
  show ?case
  proof (cases "todo = []")
    case True
    with 1(8) have "ms = missing" by (simp add: missing_loop.simps [of _ _ "[]"])
    with 1(6,7) worklist_done [OF 1(5) [unfolded True]] show ?thesis by simp
  next
    case todo: False
    let ?k = "last todo" and ?t = "butlast todo"
    note ws = worklist_step [OF 1(5) todo]
    have answers: "visit ?k = Ok None \<or> (\<exists>cs. visit ?k = Ok (Some cs)) \<or> (\<forall>x. visit ?k \<noteq> Ok x)"
      by (cases "visit ?k") (simp_all add: option.nchotomy)
    consider (old) "?k \<in> visited" | (known) "?k \<notin> visited" "?k \<in> known"
      | (missing) "?k \<notin> visited" "?k \<notin> known" "visit ?k = Ok None"
      | (found) cs where "?k \<notin> visited" "?k \<notin> known" "visit ?k = Ok (Some cs)"
      | (bad) "?k \<notin> visited" "?k \<notin> known" "\<forall>x. visit ?k \<noteq> Ok x"
      using answers by blast
    then show ?thesis
    proof cases
      case old
      with 1(8) todo have "missing_loop visit known ?t visited missing = Ok ms"
        by (simp add: missing_loop.simps [of _ _ todo] Let_def)
      from 1(1) [OF todo refl refl old ws(1) [OF old] 1(6,7) this] show ?thesis .
    next
      case known
      with 1(8) todo have l: "missing_loop visit known ?t (insert ?k visited) missing = Ok ms"
        by (simp add: missing_loop.simps [of _ _ todo] Let_def)
      have m: "set missing = {d \<in> insert ?k visited. d \<notin> known \<and> visit d = Ok None}" using 1(7) known(2) by auto
      from 1(2) [OF todo refl refl known(1) refl known(2) ws(2) [OF disjI1 [OF known(2)]] 1(6) m l] show ?thesis .
    next
      case missing
      with 1(8) todo have l: "missing_loop visit known ?t (insert ?k visited) (missing @ [?k]) = Ok ms"
        by (simp add: missing_loop.simps [of _ _ todo] Let_def)
      have m: "set (missing @ [?k]) = {d \<in> insert ?k visited. d \<notin> known \<and> visit d = Ok None}" "distinct (missing @ [?k])"
        using 1(6,7) missing by auto
      from 1(3) [OF todo refl refl missing(1) refl missing(2,3) refl ws(2) [OF disjI2 [OF missing(3)]] m(2,1) l] show ?thesis .
    next
      case found
      with 1(8) todo have l: "missing_loop visit known (?t @ cs) (insert ?k visited) missing = Ok ms"
        by (simp add: missing_loop.simps [of _ _ todo] Let_def)
      have m: "set missing = {d \<in> insert ?k visited. d \<notin> known \<and> visit d = Ok None}" unfolding 1(7) using found(3) by auto
      from 1(4) [OF todo refl refl found(1) refl found(2,3) refl ws(3) [OF found(2,3)] 1(6) m l] show ?thesis .
    next
      case bad
      then have "missing_loop visit known todo visited missing \<noteq> Ok ms"
        by (cases "visit ?k") (simp_all add: missing_loop.simps [of _ _ todo] Let_def todo)
      with 1(8) show ?thesis by contradiction
    qed
  qed
qed

lemma descendant_loop_correct:
  "worklist_inv visit known roots todo visited \<Longrightarrow> descendant_loop visit known todo visited = Ok ds \<Longrightarrow>
   ds = visits visit known roots"
proof (induction visit known todo visited rule: descendant_loop.induct)
  case (1 visit known todo visited)
  show ?case
  proof (cases "todo = []")
    case True
    with 1(5,6) worklist_done show ?thesis by (auto simp: descendant_loop.simps [of _ _ "[]"])
  next
    case todo: False
    let ?k = "last todo" and ?t = "butlast todo"
    note ws = worklist_step [OF 1(5) todo]
    note d = 1(6) [unfolded descendant_loop.simps [of _ _ todo] Let_def]
    show ?thesis
    proof (cases "?k \<in> visited")
      case True
      with d todo 1(1) [OF todo refl refl True ws(1) [OF True]] show ?thesis by simp
    next
      case new: False
      show ?thesis
      proof (cases "?k \<in> known")
        case True
        with d todo new 1(2) [OF todo refl refl new refl True ws(2)] show ?thesis by simp
      next
        case False
        with d todo new 1(3) [OF todo refl refl new refl False _ refl ws(2)]
          1(4) [OF todo refl refl new refl False _ refl ws(3) [OF False]] show ?thesis
          by (auto split: result.splits option.splits)
      qed
    qed
  qed
qed

text \<open>They fail only if the store does.\<close>

lemma missing_loop_Ok:
  "(\<And>d. \<exists>x. visit d = Ok x) \<Longrightarrow> \<exists>ms. missing_loop visit known todo visited missing = Ok ms"
proof (induction visit known todo visited missing rule: missing_loop.induct)
  case (1 visit known todo visited missing)
  from 1(5) [of "last todo"] obtain x where "visit (last todo) = Ok x" ..
  with 1 show ?case
    by (subst missing_loop.simps) (auto simp: Let_def split: option.splits)
qed

lemma descendant_loop_Ok:
  "(\<And>d. \<exists>x. visit d = Ok x) \<Longrightarrow> \<exists>ds. descendant_loop visit known todo visited = Ok ds"
proof (induction visit known todo visited rule: descendant_loop.induct)
  case (1 visit known todo visited)
  from 1(5) [of "last todo"] obtain x where "visit (last todo) = Ok x" ..
  with 1 show ?case
    by (subst descendant_loop.simps) (auto simp: Let_def split: option.splits)
qed

section \<open>One look at a key finds the pointers\<close>

lemma leaf_tag_parse:
  "deserialize_from_slice (trie_from_bytes kc vc) (LEAF_TAG # bs) = Ok t \<Longrightarrow> \<exists>k v. t = Leaf k v"
  by (auto simp: deserialize_from_slice_def trie_from_bytes_def res_simps split: if_splits)

lemma not_leaf_no_panic:
  "take 1 bs \<noteq> [LEAF_TAG] \<Longrightarrow> deserialize_from_slice (trie_from_bytes kc vc) bs \<noteq> Panic"
proof (cases bs)
  case (Cons tag rem)
  assume "take 1 bs \<noteq> [LEAF_TAG]"
  with Cons have "tag \<noteq> LEAF_TAG" by simp
  with Cons show ?thesis by (simp add: deserialize_from_slice_def trie_from_bytes_def split_def no_panic)
qed (simp add: deserialize_from_slice_def trie_from_bytes_def)

lemma leaf_tag_iff: "bs \<noteq> [] \<and> hd bs = LEAF_TAG \<longleftrightarrow> take 1 bs = [LEAF_TAG]"
  by (cases bs) auto

lemma visit_trie_Ok:
  assumes "get_raw d = Ok r"
  shows "\<exists>x. visit_trie get_raw (trie_from_bytes kc vc) d = Ok x"
proof (cases r)
  case (Some bs)
  with assms not_leaf_no_panic [of bs kc vc] show ?thesis
    by (auto simp: visit_trie_def leaf_tag_iff split: result.split trie.split)
qed (use assms in \<open>simp add: visit_trie_def\<close>)

lemma visit_trie_None:
  "visit_trie get_raw fb d = Ok None \<longleftrightarrow> lacks_entry get_raw fb d"
  by (cases "get_raw d")
    (auto simp: visit_trie_def lacks_entry_def leaf_tag_iff split: option.splits result.splits trie.splits)

lemma visit_trie_Some:
  "(\<exists>cs. visit_trie get_raw (trie_from_bytes kc vc) d = Ok (Some cs) \<and> c \<in> set cs) \<longleftrightarrow>
   points_to get_raw (trie_from_bytes kc vc) d c"
proof
  assume "\<exists>cs. visit_trie get_raw (trie_from_bytes kc vc) d = Ok (Some cs) \<and> c \<in> set cs"
  then show "points_to get_raw (trie_from_bytes kc vc) d c"
    by (cases "get_raw d") (auto simp: visit_trie_def as_indexed_pointers_set intro: points_to.intros
      split: option.splits result.splits trie.splits if_splits)
next
  assume "points_to get_raw (trie_from_bytes kc vc) d c"
  then show "\<exists>cs. visit_trie get_raw (trie_from_bytes kc vc) d = Ok (Some cs) \<and> c \<in> set cs"
  proof cases
    case (node_points bs pb i p)
    then have "bs = [] \<or> hd bs \<noteq> LEAF_TAG" using leaf_tag_parse [of kc vc "tl bs"] by (cases bs) force+
    moreover have "(i, p) \<in> set (as_indexed_pointers pb)" using node_points by (simp add: as_indexed_pointers_set)
    ultimately show ?thesis using node_points by (force simp: visit_trie_def)
  next
    case (extension_points bs affix p)
    then have "bs = [] \<or> hd bs \<noteq> LEAF_TAG" using leaf_tag_parse [of kc vc "tl bs"] by (cases bs) force+
    with extension_points show ?thesis by (force simp: visit_trie_def)
  qed
qed

lemma visits_reachable:
  "visits (visit_trie get_raw (trie_from_bytes kc vc)) known roots = reachable get_raw (trie_from_bytes kc vc) known roots"
proof (intro set_eqI iffI)
  fix d assume "d \<in> visits (visit_trie get_raw (trie_from_bytes kc vc)) known roots"
  then show "d \<in> reachable get_raw (trie_from_bytes kc vc) known roots"
  proof induction
    case (visit_child d cs c)
    then have "points_to get_raw (trie_from_bytes kc vc) d c" using visit_trie_Some by blast
    with visit_child show ?case by (blast intro: reach_child)
  qed (rule reach_root)
next
  fix d assume "d \<in> reachable get_raw (trie_from_bytes kc vc) known roots"
  then show "d \<in> visits (visit_trie get_raw (trie_from_bytes kc vc)) known roots"
  proof induction
    case (reach_child d c)
    then obtain cs where "visit_trie get_raw (trie_from_bytes kc vc) d = Ok (Some cs)" "c \<in> set cs"
      using visit_trie_Some by blast
    with reach_child show ?case by (blast intro: visit_child)
  qed (rule visit_root)
qed

section \<open>Properties\<close>

text \<open>C10: when the store answers every request, \<open>missing_trie_keys\<close> ends without error and its result lists, each
  once, exactly the keys that are reachable from the given ones through the pointers of the stored nodes, not passing
  through keys known to be complete, that are not known to be complete themselves and that lack an entry: the store has
  none, or one that is not a trie. An entry that starts with the tag of a leaf is never parsed and therefore never counts
  as lacking.\<close>
theorem missing_trie_keys_correct:
  assumes "\<And>d. \<exists>r. get_raw d = Ok r"
  shows "\<exists>ms. missing_trie_keys get_raw (trie_from_bytes kc vc) roots known = Ok ms \<and> distinct ms \<and>
    set ms = {d \<in> reachable get_raw (trie_from_bytes kc vc) known roots. d \<notin> known \<and> lacks_entry get_raw (trie_from_bytes kc vc) d}"
proof -
  let ?v = "visit_trie get_raw (trie_from_bytes kc vc)"
  have "\<exists>x. ?v d = Ok x" for d using assms [of d] visit_trie_Ok by blast
  from missing_loop_Ok [of ?v, OF this] obtain ms where ms: "missing_loop ?v known roots {} [] = Ok ms" by blast
  from missing_loop_correct [OF worklist_init _ _ ms] ms show ?thesis
    by (simp add: missing_trie_keys_def visits_reachable visit_trie_None)
qed

text \<open>C28: when the store answers every request, \<open>descendant_trie_keys\<close> ends without error with exactly the keys that
  are reachable from the given ones through the pointers of the stored nodes, not passing through keys known to be
  complete.\<close>
theorem descendant_trie_keys_correct:
  assumes "\<And>d. \<exists>r. get_raw d = Ok r"
  shows "descendant_trie_keys get_raw (trie_from_bytes kc vc) roots known =
    Ok (reachable get_raw (trie_from_bytes kc vc) known roots)"
proof -
  let ?v = "visit_trie get_raw (trie_from_bytes kc vc)"
  have "\<exists>x. ?v d = Ok x" for d using assms [of d] visit_trie_Ok by blast
  from descendant_loop_Ok [of ?v, OF this] obtain ds where ds: "descendant_loop ?v known roots {} = Ok ds" by blast
  from descendant_loop_correct [OF worklist_init ds] ds show ?thesis
    by (simp add: descendant_trie_keys_def visits_reachable)
qed

text \<open>A store with a node that has two children: an entry that starts with the tag of a leaf, and an extension whose
  target is missing.\<close>

definition ex_block :: pointer_block where
  "ex_block = pointer_block_new(0 := Some (LeafPointer 6), 1 := Some (NodePointer 7))"

definition ex_raw :: "digest \<Rightarrow> (storage_error, bytes option) result" where
  "ex_raw d =
     (if d = 5 then (case trie_to_bytes u8_codec u8_codec (Node ex_block) of Ok bs \<Rightarrow> Ok (Some bs) | _ \<Rightarrow> Ok None)
      else if d = 6 then Ok (Some [LEAF_TAG])
      else if d = 7 then (case trie_to_bytes u8_codec u8_codec (Extension [9] (NodePointer 8)) of
        Ok bs \<Rightarrow> Ok (Some bs) | _ \<Rightarrow> Ok None)
      else Ok None)"

lemma ex_raw_Ok: "\<exists>r. ex_raw d = Ok r"
  by (simp add: ex_raw_def split: result.split)

lemma ex_stored:
  "\<exists>bs. ex_raw 5 = Ok (Some bs) \<and> deserialize_from_slice (trie_from_bytes u8_codec u8_codec) bs = Ok (Node ex_block)"
  "\<exists>bs. ex_raw 7 = Ok (Some bs) \<and>
    deserialize_from_slice (trie_from_bytes u8_codec u8_codec) bs = Ok (Extension [9] (NodePointer 8))"
proof -
  note parse = bytesrepr.roundtrip_from_slice [OF bytes_writer.axioms(1) [OF trie_writer [OF u8_codec_ok u8_codec_ok]]]
  have "(\<Sum>i\<in>{0..<256}. case ex_block (word_of_nat i) of None \<Rightarrow> 1 | Some _ \<Rightarrow> (34 :: nat)) \<le> of_nat (card {0..<256::nat}) * 34"
    by (rule sum_bounded_above) (simp split: option.split)
  then have block: "pointer_block_serialized_length ex_block \<le> 256 * 34" by (simp add: pointer_block_length)
  have "\<exists>out. option_write_bytes pointer_write_bytes x w = Ok out" for x w
    by (cases x) (simp_all add: pointer_write_bytes_def)
  from write_items_Ok [of "option_write_bytes pointer_write_bytes", OF this]
  obtain bs where "pointer_block_write_bytes ex_block [NODE_TAG] = Ok bs" unfolding pointer_block_write_bytes_def by blast
  then have "trie_to_bytes u8_codec u8_codec (Node ex_block) = Ok bs"
    using block by (simp add: trie_to_bytes_Ok u32_max_def)
  with parse [OF _ this] show "\<exists>bs. ex_raw 5 = Ok (Some bs) \<and>
      deserialize_from_slice (trie_from_bytes u8_codec u8_codec) bs = Ok (Node ex_block)"
    by (simp add: ex_raw_def)
  have "\<exists>bs. trie_to_bytes u8_codec u8_codec (Extension [9] (NodePointer 8)) = Ok bs"
    by (simp add: trie_to_bytes_Ok u32_max_def u8_slice_serialized_length_def pointer_serialized_length_def
      write_u8_slice_def u32_try_from_def u32_to_bytes_def le_to_bytes_def pointer_write_bytes_def)
  then obtain bs where "trie_to_bytes u8_codec u8_codec (Extension [9] (NodePointer 8)) = Ok bs" ..
  with parse [OF _ this] show "\<exists>bs. ex_raw 7 = Ok (Some bs) \<and>
      deserialize_from_slice (trie_from_bytes u8_codec u8_codec) bs = Ok (Extension [9] (NodePointer 8))"
    by (simp add: ex_raw_def)
qed

lemma ex_reachable: "{5, 6, 7, 8} \<subseteq> reachable ex_raw (trie_from_bytes u8_codec u8_codec) {} [5]"
proof -
  let ?R = "reachable ex_raw (trie_from_bytes u8_codec u8_codec) {} [5]"
  have r5: "5 \<in> ?R" by (rule reach_root) simp
  from ex_stored(1) obtain bs where bs: "ex_raw 5 = Ok (Some bs)"
    "deserialize_from_slice (trie_from_bytes u8_codec u8_codec) bs = Ok (Node ex_block)" by blast
  have "6 \<in> ?R"
    using reach_child [OF r5 _ node_points [where get_raw = ex_raw and d = 5 and pb = ex_block and i = 0 and p = "LeafPointer 6", OF bs]] by (simp add: ex_block_def)
  moreover have r7: "7 \<in> ?R"
    using reach_child [OF r5 _ node_points [where get_raw = ex_raw and d = 5 and pb = ex_block and i = 1 and p = "NodePointer 7", OF bs]] by (simp add: ex_block_def)
  moreover from ex_stored(2) have "points_to ex_raw (trie_from_bytes u8_codec u8_codec) 7 8"
    using extension_points [of ex_raw 7 _ _ _ "NodePointer 8"] by fastforce
  with reach_child [OF r7] have "8 \<in> ?R" by simp
  ultimately show ?thesis using r5 by simp
qed

lemma ex_lacks:
  "lacks_entry ex_raw (trie_from_bytes u8_codec u8_codec) 8" "\<not> lacks_entry ex_raw (trie_from_bytes u8_codec u8_codec) 5"
  "\<not> lacks_entry ex_raw (trie_from_bytes u8_codec u8_codec) 6" "\<not> lacks_entry ex_raw (trie_from_bytes u8_codec u8_codec) 7"
proof -
  show "lacks_entry ex_raw (trie_from_bytes u8_codec u8_codec) 8" by (simp add: lacks_entry_def ex_raw_def)
  show "\<not> lacks_entry ex_raw (trie_from_bytes u8_codec u8_codec) 6" by (auto simp: lacks_entry_def ex_raw_def)
  show "\<not> lacks_entry ex_raw (trie_from_bytes u8_codec u8_codec) 5" "\<not> lacks_entry ex_raw (trie_from_bytes u8_codec u8_codec) 7"
    using ex_stored by (auto simp: lacks_entry_def)
qed

theorem missing_trie_keys_witness:
  "\<exists>ms. missing_trie_keys ex_raw (trie_from_bytes u8_codec u8_codec) [5] {} = Ok ms \<and> distinct ms \<and>
     8 \<in> set ms \<and> set ms \<inter> {5, 6, 7} = {}"
  using missing_trie_keys_correct [where get_raw = ex_raw and kc = u8_codec and vc = u8_codec and roots = "[5]" and known = "{}",
      OF ex_raw_Ok] ex_reachable ex_lacks by auto

theorem descendant_trie_keys_witness:
  "\<exists>ds. descendant_trie_keys ex_raw (trie_from_bytes u8_codec u8_codec) [5] {} = Ok ds \<and> {5, 6, 7, 8} \<subseteq> ds"
  using descendant_trie_keys_correct [where get_raw = ex_raw and kc = u8_codec and vc = u8_codec and roots = "[5]" and known = "{}",
      OF ex_raw_Ok] ex_reachable by blast

end
