(* ===== verification/Disjoint_Sequences.thy ===== *)
theory Disjoint_Sequences
  imports Bytesrepr
begin

text \<open>
  The collection of disjoint sequences of block heights, \<^verbatim>\<open>node/src/components/storage/disjoint_sequences.rs\<close>,
  in which the node records for which heights its storage is complete. The abstraction of a
  collection is the set of its heights, \<open>heights\<close>. Additions wrap around as in a release build.
\<close>

section \<open>Sequences\<close>

datatype insert_outcome = TooHigh | ExtendedHigh | AlreadyInSequence | ExtendedLow | TooLow

record sequence =
  seq_high :: u64
  seq_low :: u64

definition sequence_new :: "u64 \<Rightarrow> u64 \<Rightarrow> sequence" where
  "sequence_new a b = (if a \<le> b then \<lparr>seq_high = b, seq_low = a\<rparr> else \<lparr>seq_high = a, seq_low = b\<rparr>)"

definition sequence_single :: "u64 \<Rightarrow> sequence" where
  "sequence_single v = \<lparr>seq_high = v, seq_low = v\<rparr>"

definition try_insert :: "sequence \<Rightarrow> u64 \<Rightarrow> sequence \<times> insert_outcome" where
  "try_insert s v =
     (if v = seq_high s + 1 then (s\<lparr>seq_high := v\<rparr>, ExtendedHigh)
      else if v \<ge> seq_low s \<and> v \<le> seq_high s then (s, AlreadyInSequence)
      else if v + 1 = seq_low s then (s\<lparr>seq_low := v\<rparr>, ExtendedLow)
      else if v > seq_high s then (s, TooHigh)
      else (s, TooLow))"

definition sequence_contains :: "sequence \<Rightarrow> u64 \<Rightarrow> bool" where
  "sequence_contains s v \<longleftrightarrow> v \<ge> seq_low s \<and> v \<le> seq_high s"

section \<open>Collections\<close>

type_synonym disjoint_sequences = "sequence list"

definition disjoint_sequences_new :: "sequence \<Rightarrow> disjoint_sequences" where
  "disjoint_sequences_new initial_sequence = [initial_sequence]"

text \<open>The loop over the sequences gives the sequences with the one that changed, the insertion index and the
  removal index.\<close>

fun insert_loop ::
  "u64 \<Rightarrow> nat \<Rightarrow> sequence list \<Rightarrow> nat option \<Rightarrow> sequence list \<times> nat option \<times> nat option" where
  "insert_loop v index [] maybe_insertion_index = ([], maybe_insertion_index, None)"
| "insert_loop v index (s # rest) maybe_insertion_index =
     (case try_insert s v of
        (s, ExtendedHigh) \<Rightarrow> (s # rest, None, None)
      | (s, AlreadyInSequence) \<Rightarrow> (s # rest, None, None)
      | (s, TooHigh) \<Rightarrow> (s # rest, Some index, None)
      | (s, TooLow) \<Rightarrow>
          (let (rest, ins, rm) = insert_loop v (index + 1) rest (Some (index + 1)) in (s # rest, ins, rm))
      | (s, ExtendedLow) \<Rightarrow>
          (case rest of
             next # _ \<Rightarrow>
               if seq_high next + 1 = seq_low s
               then (s\<lparr>seq_low := seq_low next\<rparr> # rest, None, Some (index + 1))
               else (s # rest, None, None)
           | [] \<Rightarrow> (s # rest, None, None)))"

definition vec_insert :: "nat \<Rightarrow> 'a \<Rightarrow> 'a list \<Rightarrow> 'a list" where
  "vec_insert i x xs = take i xs @ x # drop i xs"

definition vec_remove :: "nat \<Rightarrow> 'a list \<Rightarrow> 'a list" where
  "vec_remove i xs = take i xs @ drop (i + 1) xs"

definition sequences_insert :: "u64 \<Rightarrow> disjoint_sequences \<Rightarrow> disjoint_sequences" where
  "sequences_insert v sequences =
     (let (sequences, maybe_insertion_index, maybe_removal_index) = insert_loop v 0 sequences (Some 0);
          sequences = (case maybe_insertion_index of
              Some index_to_insert \<Rightarrow> vec_insert index_to_insert (sequence_single v) sequences | None \<Rightarrow> sequences)
      in case maybe_removal_index of
           Some index_to_remove \<Rightarrow> vec_remove index_to_remove sequences | None \<Rightarrow> sequences)"

definition highest_sequence :: "disjoint_sequences \<Rightarrow> sequence option" where
  "highest_sequence sequences = (case sequences of s # _ \<Rightarrow> Some s | [] \<Rightarrow> None)"

definition truncate_sequence :: "u64 \<Rightarrow> sequence \<Rightarrow> sequence option" where
  "truncate_sequence max_value s =
     (if seq_high s \<le> max_value then Some s
      else if seq_low s > max_value then None
      else Some (s\<lparr>seq_high := max_value\<rparr>))"

definition sequences_truncate :: "u64 \<Rightarrow> disjoint_sequences \<Rightarrow> disjoint_sequences" where
  "sequences_truncate max_value sequences = List.map_filter (truncate_sequence max_value) sequences"

definition sequences_extend :: "u64 list \<Rightarrow> disjoint_sequences \<Rightarrow> disjoint_sequences" where
  "sequences_extend values sequences = fold sequences_insert values sequences"

text \<open>\<open>From<Vec<u64>>\<close>. The inner loop only leaves when the iterator is exhausted; if the next value does not
  extend the sequence, the loop looks at the same value again.\<close>

partial_function (option) extend_run :: "sequence \<Rightarrow> u64 list \<Rightarrow> (sequence \<times> u64 list) option" where
  "extend_run s iter =
     (case iter of
        [] \<Rightarrow> Some (s, [])
      | i # rest \<Rightarrow>
          if i = seq_high s + 1 then extend_run (s\<lparr>seq_high := i\<rparr>) rest else extend_run s iter)"

partial_function (option) batch_runs :: "u64 list \<Rightarrow> sequence list option" where
  "batch_runs iter =
     (case iter of
        [] \<Rightarrow> Some []
      | low # rest \<Rightarrow> Option.bind (extend_run (sequence_single low) rest) (\<lambda>(s, rest).
          Option.bind (batch_runs rest) (\<lambda>ss. Some (s # ss))))"

definition sequences_from :: "u64 list \<Rightarrow> disjoint_sequences option" where
  "sequences_from input = batch_runs (sort input)"

section \<open>Encoding\<close>

definition sequence_serialized_length :: "sequence \<Rightarrow> nat" where
  "sequence_serialized_length s = 8 + 8"

definition sequence_write_bytes :: "sequence write_bytes" where
  "sequence_write_bytes s writer =
     res_bind (u64_write_bytes (seq_high s) writer) (\<lambda>writer. u64_write_bytes (seq_low s) writer)"

definition sequence_to_bytes :: "sequence to_bytes" where
  "sequence_to_bytes s = sequence_write_bytes s []"

definition sequence_from_bytes :: "sequence from_bytes" where
  "sequence_from_bytes bs =
     res_bind (u64_from_bytes bs) (\<lambda>(high, bs).
     res_bind (u64_from_bytes bs) (\<lambda>(low, bs). Ok (\<lparr>seq_high = high, seq_low = low\<rparr>, bs)))"

definition disjoint_sequences_to_bytes :: "(nat \<Rightarrow> bool) \<Rightarrow> disjoint_sequences to_bytes" where
  "disjoint_sequences_to_bytes alloc = vec_to_bytes alloc sequence_serialized_length sequence_to_bytes"

definition disjoint_sequences_from_bytes :: "(nat \<Rightarrow> bool) \<Rightarrow> disjoint_sequences from_bytes" where
  "disjoint_sequences_from_bytes alloc = vec_from_bytes alloc 16 8 sequence_from_bytes"

interpretation sequence_repr: bytesrepr "\<lambda>_. True" sequence_serialized_length sequence_to_bytes
  sequence_write_bytes sequence_from_bytes
proof (unfold_locales, goal_cases)
  case (1 s bs)
  then show ?case
    by (auto simp: sequence_to_bytes_def sequence_write_bytes_def sequence_serialized_length_def u64_write_bytes_def
      le_write_bytes_def)
next
  case (2 s bs w)
  then show ?case
    by (auto simp: sequence_to_bytes_def sequence_write_bytes_def u64_write_bytes_def le_write_bytes_def)
next
  case (3 s bs rest)
  then have "bs = to_le_bytes 8 (seq_high s) @ to_le_bytes 8 (seq_low s)"
    by (auto simp: sequence_to_bytes_def sequence_write_bytes_def u64_write_bytes_def le_write_bytes_def)
  with u64_repr.roundtrip [OF TrueI, of "seq_high s" "to_le_bytes 8 (seq_high s)"]
    u64_repr.roundtrip [OF TrueI, of "seq_low s" "to_le_bytes 8 (seq_low s)"]
  show ?case by (simp add: sequence_from_bytes_def u64_to_bytes_def le_to_bytes_def)
qed

interpretation disjoint_sequences_repr: bytesrepr "\<lambda>ss. capacity_granted alloc 16 8 (length ss)"
  "iterator_serialized_length sequence_serialized_length" "disjoint_sequences_to_bytes alloc'"
  "vec_write_bytes sequence_write_bytes" "disjoint_sequences_from_bytes alloc" for alloc alloc'
  using bytesrepr_vec [OF sequence_repr.bytesrepr_axioms, of alloc 16 8 alloc']
  by (simp add: disjoint_sequences_to_bytes_def disjoint_sequences_from_bytes_def)

section \<open>The set of heights\<close>

definition seq_heights :: "sequence \<Rightarrow> nat set" where
  "seq_heights s = {unat (seq_low s)..unat (seq_high s)}"

definition heights :: "disjoint_sequences \<Rightarrow> nat set" where
  "heights ss = (\<Union>s\<in>set ss. seq_heights s)"

text \<open>From high to low, with a gap between any two.\<close>

definition wf_sequences :: "disjoint_sequences \<Rightarrow> bool" where
  "wf_sequences ss \<longleftrightarrow> (\<forall>s\<in>set ss. seq_low s \<le> seq_high s) \<and>
     sorted_wrt (\<lambda>s n. unat (seq_high n) + 1 < unat (seq_low s)) ss"

lemma heights_simps [simp]: "heights [] = {}" "heights (s # ss) = seq_heights s \<union> heights ss"
  by (simp_all add: heights_def)

lemma wf_sequences_simps:
  "wf_sequences []"
  "wf_sequences (s # ss) \<longleftrightarrow> seq_low s \<le> seq_high s \<and> (\<forall>n\<in>set ss. unat (seq_high n) + 1 < unat (seq_low s)) \<and> wf_sequences ss"
  by (auto simp: wf_sequences_def)

definition U64_MAX :: nat where "U64_MAX = 2 ^ 64 - 1"

lemma unat_Suc_word: "unat x < U64_MAX \<Longrightarrow> unat (x + 1) = unat x + 1" for x :: u64
  by (simp add: U64_MAX_def unat_word_ariths)

lemma word_eq_Suc: "unat x < U64_MAX \<Longrightarrow> v = x + 1 \<longleftrightarrow> unat v = unat x + 1" for x v :: u64
  using unat_Suc_word [of x] by (metis word_unat_eq_iff)

text \<open>The insertion without indices.\<close>

fun insert_spec :: "u64 \<Rightarrow> sequence list \<Rightarrow> sequence list" where
  "insert_spec v [] = [sequence_single v]"
| "insert_spec v (s # ss) =
     (case try_insert s v of
        (s, TooHigh) \<Rightarrow> sequence_single v # s # ss
      | (s, TooLow) \<Rightarrow> s # insert_spec v ss
      | (s, ExtendedLow) \<Rightarrow>
          (case ss of n # ns \<Rightarrow> if seq_high n + 1 = seq_low s then s\<lparr>seq_low := seq_low n\<rparr> # ns else s # ss
           | [] \<Rightarrow> [s])
      | (s, _) \<Rightarrow> s # ss)"

definition apply_edits :: "u64 \<Rightarrow> nat \<Rightarrow> sequence list \<times> nat option \<times> nat option \<Rightarrow> sequence list" where
  "apply_edits v k r =
     (let (ss, ins, rm) = r;
          ss = (case ins of Some i \<Rightarrow> vec_insert (i - k) (sequence_single v) ss | None \<Rightarrow> ss)
      in case rm of Some j \<Rightarrow> vec_remove (j - k) ss | None \<Rightarrow> ss)"

lemma insert_loop_bounds:
  "insert_loop v k ss ins = (ss', i, r) \<Longrightarrow> (ins = Some k) \<Longrightarrow>
   (\<forall>x. i = Some x \<longrightarrow> k \<le> x) \<and> (\<forall>x. r = Some x \<longrightarrow> k < x) \<and> (i = None \<or> r = None)"
proof (induction v k ss ins arbitrary: ss' i r rule: insert_loop.induct)
  case (2 v index s rest ins)
  then show ?case
    by (fastforce simp: try_insert_def split: if_splits prod.splits list.splits insert_outcome.splits)
qed simp

lemma apply_edits_Cons:
  assumes "insert_loop v (k + 1) ss (Some (k + 1)) = (ss', i, r)"
  shows "apply_edits v k (s # ss', i, r) = s # apply_edits v (k + 1) (ss', i, r)"
proof -
  from insert_loop_bounds [OF assms refl] have "\<And>x. i = Some x \<Longrightarrow> k + 1 \<le> x" "\<And>x. r = Some x \<Longrightarrow> k + 1 < x" by auto
  then have "\<And>x. i = Some x \<Longrightarrow> x - k = Suc (x - (k + 1))" "\<And>x. r = Some x \<Longrightarrow> x - k = Suc (x - (k + 1))" by fastforce+
  then show ?thesis
    by (auto simp: apply_edits_def vec_insert_def vec_remove_def split: option.splits)
qed

lemma insert_loop_spec: "apply_edits v k (insert_loop v k ss (Some k)) = insert_spec v ss"
proof (induction ss arbitrary: k)
  case Nil
  then show ?case by (simp add: apply_edits_def vec_insert_def)
next
  case (Cons s ss)
  show ?case
  proof (cases "snd (try_insert s v) = TooLow")
    case True
    then obtain s' where s': "try_insert s v = (s', TooLow)" by (metis prod.collapse)
    obtain ss' i r where l: "insert_loop v (k + 1) ss (Some (k + 1)) = (ss', i, r)" by (metis surj_pair)
    with s' apply_edits_Cons [OF l, of s'] Cons [of "k + 1"] show ?thesis by simp
  next
    case False
    then show ?thesis
      by (cases "try_insert s v"; cases "snd (try_insert s v)")
        (auto simp: apply_edits_def vec_insert_def vec_remove_def split: list.splits)
  qed
qed

lemma sequences_insert_spec: "sequences_insert v ss = insert_spec v ss"
  using insert_loop_spec [of v 0 ss]
  by (simp add: sequences_insert_def apply_edits_def Let_def split: prod.splits option.splits)

lemma unat_le_U64_MAX: "unat v \<le> U64_MAX" for v :: u64
  using unat_lt2p [of v] by (simp add: U64_MAX_def)

lemma unat_eq_U64_MAX: "unat v = U64_MAX \<longleftrightarrow> v = - 1" for v :: u64
  by (simp add: U64_MAX_def word_unat_eq_iff unsigned_minus_1_eq_mask mask_eq_exp_minus_1)

lemma try_insert_cases [consumes 3, case_names high in_seq low too_high too_low]:
  assumes "v \<noteq> 0 \<or> unat (seq_high s) < U64_MAX" "unat v < U64_MAX" "seq_low s \<le> seq_high s"
  obtains "try_insert s v = (s\<lparr>seq_high := v\<rparr>, ExtendedHigh)" "unat v = unat (seq_high s) + 1"
  | "try_insert s v = (s, AlreadyInSequence)" "unat v \<in> seq_heights s"
  | "try_insert s v = (s\<lparr>seq_low := v\<rparr>, ExtendedLow)" "unat v + 1 = unat (seq_low s)"
  | "try_insert s v = (s, TooHigh)" "unat v > unat (seq_high s) + 1"
  | "try_insert s v = (s, TooLow)" "unat v + 1 < unat (seq_low s)"
proof -
  have "v + 1 = seq_low s \<longleftrightarrow> unat v + 1 = unat (seq_low s)"
    using word_eq_Suc [OF assms(2), of "seq_low s"] by (metis add.commute)
  moreover have "v = seq_high s + 1 \<longleftrightarrow> unat v = unat (seq_high s) + 1"
  proof (cases "unat (seq_high s) < U64_MAX")
    case False
    with unat_le_U64_MAX [of "seq_high s"] have m: "unat (seq_high s) = U64_MAX" by simp
    with False assms(1,2) show ?thesis using unat_eq_U64_MAX [of "seq_high s"] by auto
  qed (rule word_eq_Suc)
  ultimately show ?thesis
    using that assms(3) unfolding try_insert_def seq_heights_def word_le_nat_alt word_less_nat_alt atLeastAtMost_iff
    by (smt (verit) less_trans_Suc linorder_not_le linorder_neqE_nat Suc_eq_plus1 Suc_leI le_neq_implies_less)
qed

lemma heights_below: "\<forall>n\<in>set ss. unat (seq_high n) + 1 < b \<Longrightarrow> x \<in> heights ss \<Longrightarrow> x + 1 < b"
  by (fastforce simp: heights_def seq_heights_def)

lemma insert_spec_correct:
  "wf_sequences ss \<Longrightarrow> unat v < U64_MAX \<Longrightarrow> \<forall>s\<in>set ss. v \<noteq> 0 \<or> unat (seq_high s) < U64_MAX \<Longrightarrow>
   wf_sequences (insert_spec v ss) \<and> heights (insert_spec v ss) = insert (unat v) (heights ss) \<and>
   (\<forall>s\<in>set (insert_spec v ss). unat (seq_high s) \<le> unat v \<or> (\<exists>s'\<in>set ss. unat (seq_high s) \<le> unat (seq_high s')))"
proof (induction ss)
  case Nil
  then show ?case by (auto simp: sequence_single_def wf_sequences_simps seq_heights_def)
next
  case (Cons s ss)
  have s: "seq_low s \<le> seq_high s" and below: "\<forall>n\<in>set ss. unat (seq_high n) + 1 < unat (seq_low s)" and wf: "wf_sequences ss"
    using Cons.prems(1) by (simp_all add: wf_sequences_simps)
  have hs: "v \<noteq> 0 \<or> unat (seq_high s) < U64_MAX" using Cons.prems(3) by simp
  from hs Cons.prems(2) s show ?case
  proof (cases rule: try_insert_cases)
    case high
    then show ?thesis
      using s below wf by (auto simp: wf_sequences_simps seq_heights_def word_le_nat_alt)
  next
    case in_seq
    then show ?thesis using Cons.prems(1) by auto
  next
    case low
    show ?thesis
    proof (cases ss)
      case Nil
      with low s show ?thesis by (auto simp: wf_sequences_simps seq_heights_def word_le_nat_alt)
    next
      case n: (Cons n ns)
      have hn: "unat (seq_high n) < U64_MAX" using below n unat_le_U64_MAX [of "seq_low s"] by simp
      have eq: "seq_high n + 1 = v \<longleftrightarrow> unat v = unat (seq_high n) + 1" using word_eq_Suc [OF hn, of v] by metis
      have nn: "unat (seq_high n) + 1 < unat (seq_low s)" "seq_low n \<le> seq_high n"
          "\<forall>m\<in>set ns. unat (seq_high m) + 1 < unat (seq_low n)" "wf_sequences ns"
        using below wf n by (auto simp: wf_sequences_simps)
      show ?thesis
      proof (cases "seq_high n + 1 = v")
        case True
        with low n nn eq s below show ?thesis
          by (auto simp: wf_sequences_simps seq_heights_def word_le_nat_alt)
      next
        case False
        with low n nn eq s below wf show ?thesis
          by (auto simp: wf_sequences_simps seq_heights_def word_le_nat_alt)
      qed
    qed
  next
    case too_high
    then show ?thesis using Cons.prems(1) s
      by (auto simp: wf_sequences_simps sequence_single_def seq_heights_def word_le_nat_alt dest!: bspec [OF below])
  next
    case too_low
    with Cons.IH [OF wf Cons.prems(2)] Cons.prems(3) s below show ?thesis
      by (fastforce simp: wf_sequences_simps)
  qed
qed

lemma high_in_heights: "wf_sequences ss \<Longrightarrow> s \<in> set ss \<Longrightarrow> unat (seq_high s) \<in> heights ss"
  by (fastforce simp: wf_sequences_def heights_def seq_heights_def word_le_nat_alt)

lemma insert_below_max:
  assumes "wf_sequences ss" "unat v < U64_MAX" "v \<noteq> 0 \<or> U64_MAX \<notin> heights ss"
  shows "wf_sequences (insert_spec v ss) \<and> heights (insert_spec v ss) = insert (unat v) (heights ss)"
proof -
  have "v \<noteq> 0 \<or> unat (seq_high s) < U64_MAX" if "s \<in> set ss" for s
    using high_in_heights [OF assms(1) that] assms(3) unat_le_U64_MAX [of "seq_high s"] by (metis le_neq_implies_less)
  with insert_spec_correct [OF assms(1,2)] show ?thesis by blast
qed

lemma heights_max:
  assumes "wf_sequences (s # ss)"
  shows "U64_MAX \<in> heights (s # ss) \<longleftrightarrow> seq_high s = - 1"
proof -
  have w: "seq_low s \<le> seq_high s" "\<forall>n\<in>set ss. unat (seq_high n) + 1 < unat (seq_low s)"
    using assms by (simp_all add: wf_sequences_simps)
  have "U64_MAX \<notin> heights ss" using heights_below [OF w(2), of U64_MAX] unat_le_U64_MAX [of "seq_low s"] by auto
  then have "U64_MAX \<in> heights (s # ss) \<longleftrightarrow> unat (seq_high s) = U64_MAX"
    using w(1) unat_le_U64_MAX [of "seq_high s"] by (auto simp: seq_heights_def word_le_nat_alt)
  then show ?thesis by (simp only: unat_eq_U64_MAX)
qed

text \<open>With the largest height recorded, inserting 0 cuts the first sequence off: the largest height is lost.\<close>

lemma insert_0_loses:
  assumes "wf_sequences ss" "U64_MAX \<in> heights ss"
  shows "U64_MAX \<notin> heights (insert_spec 0 ss)"
proof (cases ss)
  case (Cons s rest)
  with assms have h: "seq_high s = - 1" using heights_max by blast
  have w: "\<forall>n\<in>set rest. unat (seq_high n) + 1 < unat (seq_low s)" using assms(1) Cons by (simp add: wf_sequences_simps)
  have "U64_MAX \<notin> heights rest" using heights_below [OF w, of U64_MAX] unat_le_U64_MAX [of "seq_low s"] by auto
  with Cons h show ?thesis by (simp add: try_insert_def seq_heights_def U64_MAX_def)
qed (use assms in simp)

lemma insert_max:
  assumes "wf_sequences ss"
  shows "wf_sequences (insert_spec (- 1) ss) \<and> heights (insert_spec (- 1) ss) = insert U64_MAX (heights ss) \<longleftrightarrow>
    \<not> (\<exists>s. ss = [s] \<and> seq_low s = 0 \<and> unat (seq_high s) + 1 < U64_MAX)"
proof (cases ss)
  case Nil
  then show ?thesis by (simp add: sequence_single_def wf_sequences_simps seq_heights_def unat_eq_U64_MAX [THEN iffD2])
next
  case (Cons s rest)
  have m: "unat (- 1 :: u64) = U64_MAX" by (simp add: unat_eq_U64_MAX)
  have w: "seq_low s \<le> seq_high s" "\<forall>n\<in>set rest. unat (seq_high n) + 1 < unat (seq_low s)" "wf_sequences rest"
    using assms Cons by (simp_all add: wf_sequences_simps)
  consider (full) "seq_high s = - 1" | (next_) "unat (seq_high s) + 1 = U64_MAX" | (gap) "unat (seq_high s) + 1 < U64_MAX"
    using unat_le_U64_MAX [of "seq_high s"] unat_eq_U64_MAX [of "seq_high s"] by linarith
  then show ?thesis
  proof cases
    case full
    then have "try_insert s (- 1) = (s, AlreadyInSequence)" by (simp add: try_insert_def)
    moreover have "U64_MAX \<in> heights ss" using heights_max assms full Cons by blast
    ultimately show ?thesis using Cons assms full by (auto simp: insert_absorb m)
  next
    case next_
    then have "- 1 = seq_high s + 1" using word_eq_Suc [of "seq_high s" "- 1"] m by simp
    then have "try_insert s (- 1) = (s\<lparr>seq_high := - 1\<rparr>, ExtendedHigh)" by (simp add: try_insert_def)
    then show ?thesis using Cons w next_ m
      by (auto simp: wf_sequences_simps seq_heights_def word_le_nat_alt)
  next
    case gap
    then have n: "- 1 \<noteq> seq_high s + 1" "seq_high s < - 1"
      using word_eq_Suc [of "seq_high s" "- 1"] m by (simp_all add: word_less_nat_alt)
    show ?thesis
    proof (cases "seq_low s = 0")
      case True
      with n have "try_insert s (- 1) = (s\<lparr>seq_low := - 1\<rparr>, ExtendedLow)" by (simp add: try_insert_def)
      moreover have "rest = []" using True w(2) by (cases rest) auto
      ultimately show ?thesis using Cons gap True m by (auto simp: seq_heights_def)
    next
      case False
      with n have "try_insert s (- 1) = (s, TooHigh)" by (auto simp: try_insert_def)
      moreover have "\<forall>n\<in>set rest. Suc (unat (seq_high n)) < U64_MAX" using w(2) unat_le_U64_MAX [of "seq_low s"] by fastforce
      ultimately show ?thesis using Cons False w gap m
        by (auto simp: wf_sequences_simps sequence_single_def seq_heights_def)
    qed
  qed
qed

lemma truncate_correct:
  "wf_sequences ss \<Longrightarrow> wf_sequences (sequences_truncate m ss) \<and>
   heights (sequences_truncate m ss) = {h \<in> heights ss. h \<le> unat m} \<and>
   (\<forall>s\<in>set (sequences_truncate m ss). \<exists>s'\<in>set ss. unat (seq_high s) \<le> unat (seq_high s'))"
proof (induction ss)
  case Nil
  then show ?case by (simp add: sequences_truncate_def List.map_filter_def wf_sequences_simps)
next
  case (Cons s ss)
  have s: "seq_low s \<le> seq_high s" and below: "\<forall>n\<in>set ss. unat (seq_high n) + 1 < unat (seq_low s)" and wf: "wf_sequences ss"
    using Cons.prems by (simp_all add: wf_sequences_simps)
  note IH = Cons.IH [OF wf]
  have t: "sequences_truncate m (s # ss) = (case truncate_sequence m s of None \<Rightarrow> sequences_truncate m ss
      | Some s' \<Rightarrow> s' # sequences_truncate m ss)"
    by (simp add: sequences_truncate_def map_filter_simps split: option.splits)
  have keep: "\<forall>n\<in>set (sequences_truncate m ss). unat (seq_high n) + 1 < unat (seq_low s)"
    using IH below by fastforce
  consider "seq_high s \<le> m" | "m < seq_low s" "\<not> seq_high s \<le> m" | "seq_low s \<le> m" "m < seq_high s" by fastforce
  then show ?case
  proof cases
    case 1
    with IH keep s show ?thesis
      by (auto simp: t truncate_sequence_def wf_sequences_simps seq_heights_def word_le_nat_alt)
  next
    case 2
    with IH s show ?thesis
      by (auto simp: t truncate_sequence_def seq_heights_def word_le_nat_alt word_less_nat_alt)
  next
    case 3
    with IH keep s show ?thesis
      by (auto simp: t truncate_sequence_def wf_sequences_simps seq_heights_def word_le_nat_alt word_less_nat_alt)
  qed
qed

lemma highest_sequence_correct:
  assumes "wf_sequences ss" "highest_sequence ss = Some s"
  shows "\<forall>h\<in>heights ss. h \<le> unat (seq_high s)" "seq_heights s \<subseteq> heights ss" "unat (seq_low s) - 1 \<notin> heights ss \<or> seq_low s = 0"
proof -
  from assms obtain ss' where ss: "ss = s # ss'" by (auto simp: highest_sequence_def split: list.splits)
  with assms(1) have w: "seq_low s \<le> seq_high s" "\<forall>n\<in>set ss'. unat (seq_high n) + 1 < unat (seq_low s)"
    by (simp_all add: wf_sequences_simps)
  note b = heights_below [OF w(2)]
  show "\<forall>h\<in>heights ss. h \<le> unat (seq_high s)" using ss w(1) b by (fastforce simp: seq_heights_def word_le_nat_alt)
  show "seq_heights s \<subseteq> heights ss" by (auto simp: ss)
  show "unat (seq_low s) - 1 \<notin> heights ss \<or> seq_low s = 0"
    using b [of "unat (seq_low s) - 1"] by (cases "unat (seq_low s)") (auto simp: ss seq_heights_def unat_eq_zero)
qed

section \<open>Rebuilding from a vector\<close>

fun consecutive :: "u64 \<Rightarrow> u64 list \<Rightarrow> bool" where
  "consecutive x [] \<longleftrightarrow> True"
| "consecutive x (y # ys) \<longleftrightarrow> y = x + 1 \<and> consecutive y ys"

lemma extend_run_consecutive: "extend_run s iter = Some r \<Longrightarrow> consecutive (seq_high s) iter"
proof (induction rule: extend_run.raw_induct [rotated, consumes 1, case_names run])
  case (run f s iter r)
  have IH: "f s iter = Some r \<Longrightarrow> consecutive (seq_high s) iter" for s iter using run(1) by (cases r) blast
  show ?case
  proof (cases iter)
    case (Cons i rest)
    with run(2) IH [of "s\<lparr>seq_high := i\<rparr>" rest] IH [of s iter] show ?thesis by (simp split: if_splits)
  qed simp
qed

lemma extend_run_returns: "consecutive (seq_high s) iter \<Longrightarrow> extend_run s iter = Some (s\<lparr>seq_high := last (seq_high s # iter)\<rparr>, [])"
proof (induction iter arbitrary: s)
  case (Cons i rest)
  then have "extend_run s (i # rest) = extend_run (s\<lparr>seq_high := i\<rparr>) rest" by (subst extend_run.simps) simp
  moreover have "consecutive i rest" using Cons.prems by auto
  ultimately show ?case using Cons.IH [of "s\<lparr>seq_high := i\<rparr>"] by simp
qed (simp add: extend_run.simps)

lemma batch_runs_iff: "batch_runs iter = Some ss \<longleftrightarrow>
  (iter = [] \<and> ss = []) \<or> (\<exists>x xs. iter = x # xs \<and> consecutive x xs \<and> ss = [\<lparr>seq_high = last iter, seq_low = x\<rparr>])"
proof (cases iter)
  case Nil
  then show ?thesis by (auto simp: batch_runs.simps [of "[]"])
next
  case (Cons x xs)
  show ?thesis
  proof (cases "consecutive x xs")
    case True
    with extend_run_returns [of "sequence_single x" xs] Cons show ?thesis
      by (auto simp: batch_runs.simps [of "x # xs"] batch_runs.simps [of "[]"] sequence_single_def)
  next
    case False
    with extend_run_consecutive [of "sequence_single x" xs] have "extend_run (sequence_single x) xs = None"
      by (cases "extend_run (sequence_single x) xs") (auto simp: sequence_single_def)
    with Cons False show ?thesis by (simp add: batch_runs.simps [of "x # xs"])
  qed
qed

section \<open>Properties\<close>



text \<open>C31: where the unchecked additions at the ends of the \<open>u64\<close> range do harm. Inserting a height keeps the order and the gaps and
  adds exactly this height if and only if neither of two things happens: 0 is inserted into a collection that contains
  the largest \<open>u64\<close>, or the largest \<open>u64\<close> is inserted into a collection with a single sequence that starts at 0 and ends at
  least two below it.\<close>
theorem sequences_insert_wraps_iff:
  assumes "wf_sequences ss"
  shows "wf_sequences (sequences_insert v ss) \<and> heights (sequences_insert v ss) = insert (unat v) (heights ss) \<longleftrightarrow>
    \<not> (v = 0 \<and> U64_MAX \<in> heights ss) \<and>
    \<not> (v = - 1 \<and> (\<exists>s. ss = [s] \<and> seq_low s = 0 \<and> unat (seq_high s) + 1 < U64_MAX))"
  unfolding sequences_insert_spec
proof (cases "v = - 1")
  case True
  have "unat (- 1 :: u64) = U64_MAX" by (simp add: unat_eq_U64_MAX)
  with True insert_max [OF assms] show
    "wf_sequences (insert_spec v ss) \<and> heights (insert_spec v ss) = insert (unat v) (heights ss) \<longleftrightarrow>
    \<not> (v = 0 \<and> U64_MAX \<in> heights ss) \<and>
    \<not> (v = - 1 \<and> (\<exists>s. ss = [s] \<and> seq_low s = 0 \<and> unat (seq_high s) + 1 < U64_MAX))" by simp
next
  case False
  then have v: "unat v < U64_MAX" using unat_le_U64_MAX [of v] unat_eq_U64_MAX [of v] by (metis le_neq_implies_less)
  have "U64_MAX \<notin> heights (insert_spec v ss)" if "v = 0" "U64_MAX \<in> heights ss"
    using insert_0_loses [OF assms] that by simp
  with False insert_below_max [OF assms v] show
    "wf_sequences (insert_spec v ss) \<and> heights (insert_spec v ss) = insert (unat v) (heights ss) \<longleftrightarrow>
    \<not> (v = 0 \<and> U64_MAX \<in> heights ss) \<and>
    \<not> (v = - 1 \<and> (\<exists>s. ss = [s] \<and> seq_low s = 0 \<and> unat (seq_high s) + 1 < U64_MAX))" by blast
qed

theorem sequences_insert_wraps_iff_witness:
  "\<not> (wf_sequences (sequences_insert 0 [\<lparr>seq_high = - 1, seq_low = 9\<rparr>, \<lparr>seq_high = 7, seq_low = 3\<rparr>]) \<and>
      heights (sequences_insert 0 [\<lparr>seq_high = - 1, seq_low = 9\<rparr>, \<lparr>seq_high = 7, seq_low = 3\<rparr>]) =
        insert 0 ({9..U64_MAX} \<union> {3..7})) \<and>
   heights (sequences_insert 8 [\<lparr>seq_high = - 1, seq_low = 9\<rparr>, \<lparr>seq_high = 7, seq_low = 3\<rparr>]) = insert 8 ({9..U64_MAX} \<union> {3..7})"
proof -
  let ?ss = "[\<lparr>seq_high = - 1, seq_low = 9\<rparr>, \<lparr>seq_high = 7, seq_low = 3\<rparr>] :: disjoint_sequences"
  have m: "unat (- 1 :: u64) = U64_MAX" by (simp add: unat_eq_U64_MAX)
  have wf: "wf_sequences ?ss" by (simp add: wf_sequences_def)
  have h: "heights ?ss = {9..U64_MAX} \<union> {3..7}" by (simp add: seq_heights_def m)
  have "U64_MAX \<in> {9..U64_MAX} \<union> {3..7}" by (simp add: U64_MAX_def)
  with sequences_insert_wraps_iff [OF wf, of 0] sequences_insert_wraps_iff [OF wf, of 8] show ?thesis
    unfolding h by simp
qed

text \<open>C29: truncating keeps the order and the gaps and removes exactly the heights above the given one.\<close>
theorem sequences_truncate_refines:
  "wf_sequences ss \<Longrightarrow> wf_sequences (sequences_truncate m ss) \<and>
   heights (sequences_truncate m ss) = {h \<in> heights ss. h \<le> unat m}"
  using truncate_correct by blast

theorem sequences_truncate_refines_witness:
  "wf_sequences (sequences_truncate 5 [\<lparr>seq_high = 9, seq_low = 9\<rparr>, \<lparr>seq_high = 7, seq_low = 3\<rparr>]) \<and>
   heights (sequences_truncate 5 [\<lparr>seq_high = 9, seq_low = 9\<rparr>, \<lparr>seq_high = 7, seq_low = 3\<rparr>]) =
     {h \<in> heights [\<lparr>seq_high = 9, seq_low = 9\<rparr>, \<lparr>seq_high = 7, seq_low = 3\<rparr>]. h \<le> unat (5 :: u64)}"
  by (rule sequences_truncate_refines) (simp add: wf_sequences_def)

text \<open>C30: rebuilding a collection from a vector of heights returns exactly when the sorted heights form one
  run without gap or duplicate; on every other vector, such as \<open>[1, 3]\<close>, the inner loop never ends.\<close>
theorem sequences_from_returns_iff:
  "(\<exists>ss. sequences_from input = Some ss) \<longleftrightarrow>
     (case sort input of [] \<Rightarrow> True | x # xs \<Rightarrow> consecutive x xs)"
  by (cases "sort input") (auto simp: sequences_from_def batch_runs_iff)

end
