(* ===== verification/Tracking_Copy.thy ===== *)
theory Tracking_Copy
  imports Totality
begin

text \<open>
  The tracking copy of \<^verbatim>\<open>execution_engine/src/core/tracking_copy/mod.rs\<close>, through which contracts read and change global
  state: the cache with its meter and its eviction loop, the reads, writes, additions and listings of keys with the journal they
  leave, and the reader that a fork works on. Seen through its cache it behaves as the state itself. The reader of the underlying state is a record of functions; \<open>None\<close> is a call that
  does not return. The crate \<^verbatim>\<open>linked_hash_map\<close> and the sizes the compiler gives to types are parameters.
\<close>

section \<open>Interfaces\<close>

text \<open>The trait \<open>StateReader\<close>.\<close>

record 'e state_reader =
  sr_read :: "key \<Rightarrow> ('e, stored_value option) result option"
  sr_read_with_proof :: "key \<Rightarrow> ('e, (key, stored_value) trie_merkle_proof option) result option"
  sr_keys_with_prefix :: "bytes \<Rightarrow> ('e, key list) result option"

text \<open>The operations of a \<open>LinkedHashMap\<close> that the cache calls.\<close>

record ('m, 'k, 'v) linked_map =
  lm_new :: 'm
  lm_insert :: "'k \<Rightarrow> 'v \<Rightarrow> 'm \<Rightarrow> 'm"
  lm_pop_front :: "'m \<Rightarrow> (('k \<times> 'v) \<times> 'm) option"
  lm_get_refresh :: "'k \<Rightarrow> 'm \<Rightarrow> 'v option \<times> 'm"

record ('r, 'q) tc_lib =
  lib_reads :: "('r, key, stored_value) linked_map"
  lib_tags :: "('q, u8, key set) linked_map"
  size_of_key :: u64
  size_of_stored_value :: u64

definition heap_size_key :: "key \<Rightarrow> u64" where "heap_size_key self = 0"

definition key_byte_size :: "('r, 'q) tc_lib \<Rightarrow> key \<Rightarrow> u64" where
  "key_byte_size lib self = size_of_key lib + heap_size_key self"

definition stored_value_byte_size :: "('r, 'q) tc_lib \<Rightarrow> stored_value \<Rightarrow> u64" where
  "stored_value_byte_size lib self = size_of_stored_value lib + word_of_nat (stored_value_body_length self)"

definition meter_measure :: "('r, 'q) tc_lib \<Rightarrow> key \<Rightarrow> stored_value \<Rightarrow> u64" where
  "meter_measure lib k v = size_of_stored_value lib + stored_value_byte_size lib v"

definition measure_keys :: "('r, 'q) tc_lib \<Rightarrow> key set \<Rightarrow> u64" where
  "measure_keys lib keys = (\<Sum>key\<in>keys. key_byte_size lib key)"

section \<open>The cache\<close>

record ('r, 'q) tc_cache =
  max_cache_size :: u64
  current_cache_size :: u64
  reads_cached :: 'r
  muts_cached :: "key \<rightharpoonup> stored_value"
  key_tag_reads_cached :: 'q
  key_tag_muts_cached :: "u8 \<rightharpoonup> key set"

definition cache_new :: "('r, 'q) tc_lib \<Rightarrow> u64 \<Rightarrow> ('r, 'q) tc_cache" where
  "cache_new lib max_size = \<lparr>max_cache_size = max_size, current_cache_size = 0, reads_cached = lm_new (lib_reads lib),
     muts_cached = Map.empty, key_tag_reads_cached = lm_new (lib_tags lib), key_tag_muts_cached = Map.empty\<rparr>"

text \<open>The loop that evicts the least recently used reads; sizes are machine words.\<close>

partial_function (option) evict :: "('r, 'q) tc_lib \<Rightarrow> u64 \<Rightarrow> u64 \<Rightarrow> 'r \<Rightarrow> (u64 \<times> 'r) option" where
  "evict lib max_size current reads =
     (if max_size < current then
        (case lm_pop_front (lib_reads lib) reads of
           Some ((k, v), reads) \<Rightarrow> evict lib max_size (current - meter_measure lib k v) reads
         | None \<Rightarrow> Some (current, reads))
      else Some (current, reads))"

definition insert_read :: "('r, 'q) tc_lib \<Rightarrow> key \<Rightarrow> stored_value \<Rightarrow> ('r, 'q) tc_cache \<Rightarrow> ('r, 'q) tc_cache option" where
  "insert_read lib key value self =
     map_option (\<lambda>(current, reads). self\<lparr>current_cache_size := current, reads_cached := reads\<rparr>)
       (evict lib (max_cache_size self) (current_cache_size self + meter_measure lib key value)
          (lm_insert (lib_reads lib) key value (reads_cached self)))"

definition insert_key_tag_read :: "('r, 'q) tc_lib \<Rightarrow> u8 \<Rightarrow> key set \<Rightarrow> ('r, 'q) tc_cache \<Rightarrow> ('r, 'q) tc_cache option" where
  "insert_key_tag_read lib tag keys self =
     map_option (\<lambda>(current, reads). self\<lparr>current_cache_size := current, reads_cached := reads,
         key_tag_reads_cached := lm_insert (lib_tags lib) tag keys (key_tag_reads_cached self)\<rparr>)
       (evict lib (max_cache_size self) (current_cache_size self + measure_keys lib keys) (reads_cached self))"

definition insert_write :: "key \<Rightarrow> stored_value \<Rightarrow> ('r, 'q) tc_cache \<Rightarrow> ('r, 'q) tc_cache" where
  "insert_write key value self =
     self\<lparr>muts_cached := (muts_cached self)(key \<mapsto> value),
          key_tag_muts_cached := (key_tag_muts_cached self)(key_tag key \<mapsto>
            insert key (case key_tag_muts_cached self (key_tag key) of Some keys \<Rightarrow> keys | None \<Rightarrow> {}))\<rparr>"

definition cache_get :: "('r, 'q) tc_lib \<Rightarrow> key \<Rightarrow> ('r, 'q) tc_cache \<Rightarrow> stored_value option \<times> ('r, 'q) tc_cache" where
  "cache_get lib key self =
     (case muts_cached self key of
        Some value \<Rightarrow> (Some value, self)
      | None \<Rightarrow> (case lm_get_refresh (lib_reads lib) key (reads_cached self) of
          (r, reads) \<Rightarrow> (r, self\<lparr>reads_cached := reads\<rparr>)))"

definition get_key_tag_reads_cached ::
  "('r, 'q) tc_lib \<Rightarrow> u8 \<Rightarrow> ('r, 'q) tc_cache \<Rightarrow> key set option \<times> ('r, 'q) tc_cache" where
  "get_key_tag_reads_cached lib tag self =
     (case lm_get_refresh (lib_tags lib) tag (key_tag_reads_cached self) of
        (r, tags) \<Rightarrow> (r, self\<lparr>key_tag_reads_cached := tags\<rparr>))"

section \<open>The tracking copy\<close>

record ('r, 'q) tracking_copy =
  tc_cached :: "('r, 'q) tc_cache"
  tc_journal :: journal

datatype add_result =
    AddSuccess | AddKeyNotFound key | AddTypeMismatch type_mismatch | AddSerialization bytes_error

fun add_result_from :: "cl_value_error \<Rightarrow> add_result" where
  "add_result_from (CLSerialization error) = AddSerialization error"
| "add_result_from (CLTypeMismatch expected found) =
     AddTypeMismatch (type_mismatch_new (cl_type_debug expected) (cl_type_debug found))"

definition tracking_copy_new :: "('r, 'q) tc_lib \<Rightarrow> ('r, 'q) tracking_copy" where
  "tracking_copy_new lib = \<lparr>tc_cached = cache_new lib (1024 * 16), tc_journal = []\<rparr>"

definition tc_get ::
  "('r, 'q) tc_lib \<Rightarrow> 'e state_reader \<Rightarrow> key \<Rightarrow> ('r, 'q) tracking_copy \<Rightarrow>
   ('e, stored_value option \<times> ('r, 'q) tracking_copy) result option" where
  "tc_get lib reader key self =
     (case cache_get lib key (tc_cached self) of
        (Some value, cache) \<Rightarrow> Some (Ok (Some value, self\<lparr>tc_cached := cache\<rparr>))
      | (None, cache) \<Rightarrow> Option.bind (sr_read reader key) (\<lambda>r. loop_bind r (\<lambda>maybe.
          case maybe of
            Some value \<Rightarrow> map_option (\<lambda>cache. Ok (Some value, self\<lparr>tc_cached := cache\<rparr>)) (insert_read lib key value cache)
          | None \<Rightarrow> Some (Ok (None, self\<lparr>tc_cached := cache\<rparr>)))))"

definition tc_get_keys ::
  "('r, 'q) tc_lib \<Rightarrow> 'e state_reader \<Rightarrow> u8 \<Rightarrow> ('r, 'q) tracking_copy \<Rightarrow>
   ('e, key set \<times> ('r, 'q) tracking_copy) result option" where
  "tc_get_keys lib reader tag self =
     (let add_muts = (\<lambda>ret. ret \<union> (case key_tag_muts_cached (tc_cached self) tag of Some keys \<Rightarrow> keys | None \<Rightarrow> {})) in
      case get_key_tag_reads_cached lib tag (tc_cached self) of
        (Some keys, cache) \<Rightarrow> Some (Ok (add_muts keys, self\<lparr>tc_cached := cache\<rparr>))
      | (None, cache) \<Rightarrow> Option.bind (sr_keys_with_prefix reader [tag]) (\<lambda>r. loop_bind r (\<lambda>keys.
          map_option (\<lambda>cache. Ok (add_muts (set keys), self\<lparr>tc_cached := cache\<rparr>))
            (insert_key_tag_read lib tag (set keys) cache))))"

definition journal_push :: "key \<times> transform \<Rightarrow> ('r, 'q) tracking_copy \<Rightarrow> ('r, 'q) tracking_copy" where
  "journal_push entry self = self\<lparr>tc_journal := tc_journal self @ [entry]\<rparr>"

definition tc_read ::
  "('r, 'q) tc_lib \<Rightarrow> 'e state_reader \<Rightarrow> key \<Rightarrow> ('r, 'q) tracking_copy \<Rightarrow>
   ('e, stored_value option \<times> ('r, 'q) tracking_copy) result option" where
  "tc_read lib reader key self =
     Option.bind (tc_get lib reader (key_normalize key) self) (\<lambda>r. loop_bind r (\<lambda>(maybe, self).
       case maybe of
         Some value \<Rightarrow> Some (Ok (Some value, journal_push (key_normalize key, TIdentity) self))
       | None \<Rightarrow> Some (Ok (None, self))))"

definition tc_write :: "key \<Rightarrow> stored_value \<Rightarrow> ('r, 'q) tracking_copy \<Rightarrow> ('r, 'q) tracking_copy" where
  "tc_write key value self =
     journal_push (key_normalize key, TWrite value)
       (self\<lparr>tc_cached := insert_write (key_normalize key) value (tc_cached self)\<rparr>)"

text \<open>The choice of the transform that an addition makes; \<open>Err\<close> is the early return of a result other than success.\<close>

definition add_mismatch :: "stored_value \<Rightarrow> add_result" where
  "add_mismatch value =
     AddTypeMismatch (type_mismatch_new ''I32, U64, U128, U256, U512 or (String, Key) tuple'' (stored_value_type_name value))"

definition add_transform :: "stored_value \<Rightarrow> (add_result, transform) result" where
  "add_transform value =
     (case value of
        SVCLValue cl_value \<Rightarrow> (case cl_value_type cl_value of
          CLI32 \<Rightarrow> res_bind (map_err add_result_from (cl_value_into_t CLI32 i32_from_bytes cl_value)) (\<lambda>x. Ok (TAddInt32 x))
        | CLU64 \<Rightarrow> res_bind (map_err add_result_from (cl_value_into_t CLU64 u64_from_bytes cl_value)) (\<lambda>x. Ok (TAddUInt64 x))
        | CLU128 \<Rightarrow> res_bind (map_err add_result_from (cl_value_into_t CLU128 (uint_from_bytes 16) cl_value)) (\<lambda>x. Ok (TAddUInt128 x))
        | CLU256 \<Rightarrow> res_bind (map_err add_result_from (cl_value_into_t CLU256 (uint_from_bytes 32) cl_value)) (\<lambda>x. Ok (TAddUInt256 x))
        | CLU512 \<Rightarrow> res_bind (map_err add_result_from (cl_value_into_t CLU512 U512_from_bytes cl_value)) (\<lambda>x. Ok (TAddUInt512 x))
        | ty \<Rightarrow>
            if ty = named_key_type then
              res_bind (map_err add_result_from
                (cl_value_into_t named_key_type (tuple2_from_bytes String_from_bytes key_from_bytes) cl_value))
                (\<lambda>name_and_key. Ok (TAddKeys [name_and_key]))
            else Err (add_mismatch value))
      | _ \<Rightarrow> Err (add_mismatch value))"

definition tc_add ::
  "('r, 'q) tc_lib \<Rightarrow> 'e state_reader \<Rightarrow> key \<Rightarrow> stored_value \<Rightarrow> ('r, 'q) tracking_copy \<Rightarrow>
   ('e, add_result \<times> ('r, 'q) tracking_copy) result option" where
  "tc_add lib reader key value self =
     Option.bind (tc_get lib reader (key_normalize key) self) (\<lambda>r. loop_bind r (\<lambda>(maybe, self).
       case maybe of
         None \<Rightarrow> Some (Ok (AddKeyNotFound (key_normalize key), self))
       | Some current_value \<Rightarrow>
           Some (case add_transform value of
             Panic \<Rightarrow> Panic
           | Err result \<Rightarrow> Ok (result, self)
           | Ok transform \<Rightarrow>
               (case transform_apply transform current_value of
                  Ok new_value \<Rightarrow>
                    Ok (AddSuccess, journal_push (key_normalize key, transform)
                      (self\<lparr>tc_cached := insert_write (key_normalize key) new_value (tc_cached self)\<rparr>))
                | Err (TransformTypeMismatch type_mismatch) \<Rightarrow> Ok (AddTypeMismatch type_mismatch, self)
                | Err (TransformSerialization error) \<Rightarrow> Ok (AddSerialization error, self)
                | Panic \<Rightarrow> Panic))))"

definition tc_effect :: "(transform \<Rightarrow> string) \<Rightarrow> ('r, 'q) tracking_copy \<Rightarrow> (transform_error, execution_effect) result" where
  "tc_effect debug self = execution_effect_from debug (tc_journal self)"

text \<open>The reader that \<open>fork\<close> puts under the new tracking copy.\<close>

definition tc_reader :: "'e state_reader \<Rightarrow> ('r, 'q) tracking_copy \<Rightarrow> 'e state_reader" where
  "tc_reader reader self =
     \<lparr>sr_read = (\<lambda>key. case muts_cached (tc_cached self) key of
        Some value \<Rightarrow> Some (Ok (Some value))
      | None \<Rightarrow> sr_read reader key),
      sr_read_with_proof = sr_read_with_proof reader,
      sr_keys_with_prefix = sr_keys_with_prefix reader\<rparr>"

section \<open>What the cache relies on\<close>

text \<open>The documented behaviour of \<open>LinkedHashMap\<close>, over the list of its entries in insertion order: inserting puts the entry at the
  back, replacing one with the same key, \<open>pop_front\<close> takes the oldest one, and \<open>get_refresh\<close> moves the entry to the back.\<close>

definition linked_map_spec :: "('m, 'k, 'v) linked_map \<Rightarrow> ('m \<Rightarrow> ('k \<times> 'v) list) \<Rightarrow> bool" where
  "linked_map_spec L entries \<longleftrightarrow>
     entries (lm_new L) = [] \<and>
     (\<forall>k v m. entries (lm_insert L k v m) = filter (\<lambda>e. fst e \<noteq> k) (entries m) @ [(k, v)]) \<and>
     (\<forall>m. entries m = [] \<longrightarrow> lm_pop_front L m = None) \<and>
     (\<forall>m e es. entries m = e # es \<longrightarrow> (\<exists>m'. lm_pop_front L m = Some (e, m') \<and> entries m' = es)) \<and>
     (\<forall>k m. fst (lm_get_refresh L k m) = map_of (entries m) k \<and>
        entries (snd (lm_get_refresh L k m)) =
          (case map_of (entries m) k of None \<Rightarrow> entries m | Some v \<Rightarrow> filter (\<lambda>e. fst e \<noteq> k) (entries m) @ [(k, v)]))"

text \<open>A reader that answers every well-formed key from one state.\<close>

definition reads_state :: "'e state_reader \<Rightarrow> state \<Rightarrow> bool" where
  "reads_state reader \<sigma> \<longleftrightarrow> (\<forall>k. key_valid k \<longrightarrow> sr_read reader k = Some (Ok (\<sigma> k)))"

definition keys_tagged :: "state \<Rightarrow> u8 \<Rightarrow> key set" where
  "keys_tagged \<sigma> tag = {k. \<sigma> k \<noteq> None \<and> key_tag k = tag}"

definition lists_state :: "'e state_reader \<Rightarrow> state \<Rightarrow> bool" where
  "lists_state reader \<sigma> \<longleftrightarrow> (\<forall>tag. \<exists>ks. sr_keys_with_prefix reader [tag] = Some (Ok ks) \<and> set ks = keys_tagged \<sigma> tag)"

lemma key_valid_normalize [simp]: "key_valid k \<Longrightarrow> key_valid (key_normalize k)"
  by (cases k) (auto simp: uref_valid_def remove_access_rights_def AR_NONE_def ar_valid_bits)

section \<open>The view through the cache\<close>

definition tc_view :: "state \<Rightarrow> ('r, 'q) tracking_copy \<Rightarrow> state" where
  "tc_view \<sigma> tc = \<sigma> ++ muts_cached (tc_cached tc)"

definition reads_agree :: "('r \<Rightarrow> (key \<times> stored_value) list) \<Rightarrow> state \<Rightarrow> ('r, 'q) tc_cache \<Rightarrow> bool" where
  "reads_agree entries \<sigma> cache \<longleftrightarrow> (\<forall>(k, v)\<in>set (entries (reads_cached cache)). \<sigma> k = Some v)"

text \<open>The sets of keys by tag agree with the state below and with the writes.\<close>

definition tags_agree :: "('q \<Rightarrow> (u8 \<times> key set) list) \<Rightarrow> state \<Rightarrow> ('r, 'q) tc_cache \<Rightarrow> bool" where
  "tags_agree tags \<sigma> cache \<longleftrightarrow>
     (\<forall>(tag, keys)\<in>set (tags (key_tag_reads_cached cache)). keys = keys_tagged \<sigma> tag) \<and>
     (\<forall>tag. (case key_tag_muts_cached cache tag of Some keys \<Rightarrow> keys | None \<Rightarrow> {}) = keys_tagged (muts_cached cache) tag)"

definition same_writes :: "('r, 'q) tc_cache \<Rightarrow> ('r, 'q) tc_cache \<Rightarrow> bool" where
  "same_writes cache cache' \<longleftrightarrow> muts_cached cache' = muts_cached cache \<and> key_tag_muts_cached cache' = key_tag_muts_cached cache \<and>
     key_tag_reads_cached cache' = key_tag_reads_cached cache"

lemma same_writesD:
  assumes "same_writes cache cache'"
  shows "muts_cached cache' = muts_cached cache" "tags_agree tags \<sigma> cache \<Longrightarrow> tags_agree tags \<sigma> cache'"
  using assms by (simp_all add: same_writes_def tags_agree_def)

lemma tags_agree_write: "tags_agree tags \<sigma> cache \<Longrightarrow> tags_agree tags \<sigma> (insert_write k v cache)"
  by (auto simp: tags_agree_def insert_write_def keys_tagged_def split: option.splits if_splits)

lemma evict_returns:
  assumes "linked_map_spec (lib_reads lib) entries"
  shows "\<exists>current' reads'. evict lib max_size current reads = Some (current', reads') \<and> set (entries reads') \<subseteq> set (entries reads)"
proof (induction "entries reads" arbitrary: current reads)
  case Nil
  then have "lm_pop_front (lib_reads lib) reads = None" using assms by (simp add: linked_map_spec_def)
  then show ?case by (subst evict.simps) simp
next
  case (Cons e es)
  then obtain reads' where r: "lm_pop_front (lib_reads lib) reads = Some (e, reads')" "entries reads' = es"
    using assms unfolding linked_map_spec_def by metis
  obtain k v where e: "e = (k, v)" by (cases e)
  from Cons.hyps(1) [of reads'] r(2) have "\<exists>c' r'. evict lib max_size c reads' = Some (c', r') \<and> set (entries r') \<subseteq> set es" for c
    by auto
  then show ?case using r Cons(2) [symmetric] e by (subst evict.simps) (auto, blast)
qed

lemma insert_read_returns:
  assumes spec: "linked_map_spec (lib_reads lib) entries" and "reads_agree entries \<sigma> cache" "\<sigma> k = Some v"
  shows "\<exists>cache'. insert_read lib k v cache = Some cache' \<and> same_writes cache cache' \<and> reads_agree entries \<sigma> cache'"
proof -
  let ?reads = "lm_insert (lib_reads lib) k v (reads_cached cache)"
  from evict_returns [OF spec, of "max_cache_size cache" "current_cache_size cache + meter_measure lib k v" ?reads]
  obtain c r where e: "evict lib (max_cache_size cache) (current_cache_size cache + meter_measure lib k v) ?reads = Some (c, r)"
    "set (entries r) \<subseteq> set (entries ?reads)" by blast
  have "entries ?reads = filter (\<lambda>e. fst e \<noteq> k) (entries (reads_cached cache)) @ [(k, v)]"
    using spec by (simp add: linked_map_spec_def)
  with assms(2,3) e(2) have "\<forall>(k, v)\<in>set (entries r). \<sigma> k = Some v" by (auto simp: reads_agree_def)
  with e(1) show ?thesis by (simp add: insert_read_def reads_agree_def same_writes_def)
qed

lemma cache_get_read:
  assumes spec: "linked_map_spec (lib_reads lib) entries" and "reads_agree entries \<sigma> cache" "muts_cached cache k = None"
  obtains r cache' where "cache_get lib k cache = (r, cache')" "r = None \<or> r = \<sigma> k" "same_writes cache cache'"
    "reads_agree entries \<sigma> cache'"
proof -
  obtain r m where g: "lm_get_refresh (lib_reads lib) k (reads_cached cache) = (r, m)" by (cases "lm_get_refresh (lib_reads lib) k (reads_cached cache)")
  with spec have r: "r = map_of (entries (reads_cached cache)) k"
      "entries m = (case r of None \<Rightarrow> entries (reads_cached cache) | Some v \<Rightarrow> filter (\<lambda>e. fst e \<noteq> k) (entries (reads_cached cache)) @ [(k, v)])"
    unfolding linked_map_spec_def by (metis fst_conv, metis fst_conv snd_conv)
  have "\<sigma> k = Some v" if "r = Some v" for v
    using that r(1) assms(2) by (auto simp: reads_agree_def dest: map_of_SomeD)
  then show thesis using g r assms(2,3)
    by (intro that [of r "cache\<lparr>reads_cached := m\<rparr>"]) (auto simp: cache_get_def reads_agree_def same_writes_def split: option.splits)
qed

lemma tc_get_view:
  assumes spec: "linked_map_spec (lib_reads lib) entries" and rd: "reads_state reader \<sigma>" and ok: "reads_agree entries \<sigma> (tc_cached tc)"
    and k: "key_valid k"
  obtains cache where "tc_get lib reader k tc = Some (Ok (tc_view \<sigma> tc k, tc\<lparr>tc_cached := cache\<rparr>))"
    "same_writes (tc_cached tc) cache" "reads_agree entries \<sigma> cache"
proof (cases "muts_cached (tc_cached tc) k")
  case (Some v)
  then show thesis using ok by (intro that [of "tc_cached tc"]) (simp_all add: tc_get_def cache_get_def tc_view_def map_add_def same_writes_def)
next
  case None
  from cache_get_read [OF spec ok None] obtain r cache' where g: "cache_get lib k (tc_cached tc) = (r, cache')" "r = None \<or> r = \<sigma> k"
    "same_writes (tc_cached tc) cache'" "reads_agree entries \<sigma> cache'" .
  have view: "tc_view \<sigma> tc k = \<sigma> k" using None by (simp add: tc_view_def map_add_def)
  show thesis
  proof (cases "r = None \<and> \<sigma> k \<noteq> None")
    case True
    then obtain v where v: "\<sigma> k = Some v" by auto
    from insert_read_returns [OF spec g(4) v] obtain c where "insert_read lib k v cache' = Some c"
      "same_writes cache' c" "reads_agree entries \<sigma> c" by blast
    then show thesis using True v g rd k view by (intro that [of c]) (simp_all add: tc_get_def reads_state_def same_writes_def)
  next
    case False
    then show thesis using g rd k view
      by (intro that [of cache']) (auto simp: tc_get_def reads_state_def split: option.splits)
  qed
qed

lemma tc_get_keys_view:
  assumes spec: "linked_map_spec (lib_reads lib) entries" "linked_map_spec (lib_tags lib) tags" and ls: "lists_state reader \<sigma>"
    and ok: "reads_agree entries \<sigma> (tc_cached tc)" "tags_agree tags \<sigma> (tc_cached tc)"
  obtains cache where "tc_get_keys lib reader tag tc = Some (Ok (keys_tagged (tc_view \<sigma> tc) tag, tc\<lparr>tc_cached := cache\<rparr>))"
    "muts_cached cache = muts_cached (tc_cached tc)" "reads_agree entries \<sigma> cache" "tags_agree tags \<sigma> cache"
proof -
  let ?c = "tc_cached tc"
  have view: "keys_tagged (tc_view \<sigma> tc) tag = keys_tagged \<sigma> tag \<union> keys_tagged (muts_cached ?c) tag"
    by (auto simp: keys_tagged_def tc_view_def map_add_def split: option.splits)
  have muts: "(case key_tag_muts_cached ?c tag of Some keys \<Rightarrow> keys | None \<Rightarrow> {}) = keys_tagged (muts_cached ?c) tag"
    using ok(2) by (simp add: tags_agree_def)
  obtain r q where g: "lm_get_refresh (lib_tags lib) tag (key_tag_reads_cached ?c) = (r, q)" by fastforce
  with spec(2) have r: "r = map_of (tags (key_tag_reads_cached ?c)) tag" "tags q = (case r of None \<Rightarrow> tags (key_tag_reads_cached ?c)
      | Some v \<Rightarrow> filter (\<lambda>e. fst e \<noteq> tag) (tags (key_tag_reads_cached ?c)) @ [(tag, v)])"
    unfolding linked_map_spec_def by (metis fst_conv, metis fst_conv snd_conv)
  show thesis
  proof (cases r)
    case (Some keys)
    with r(1) have "(tag, keys) \<in> set (tags (key_tag_reads_cached ?c))" by (metis map_of_SomeD)
    with ok(2) have keys: "keys = keys_tagged \<sigma> tag" unfolding tags_agree_def by blast
    let ?cache = "?c\<lparr>key_tag_reads_cached := q\<rparr>"
    have "tags q = filter (\<lambda>e. fst e \<noteq> tag) (tags (key_tag_reads_cached ?c)) @ [(tag, keys)]" using r(2) Some by simp
    then have "tags_agree tags \<sigma> ?cache" "reads_agree entries \<sigma> ?cache" using ok keys by (auto simp: tags_agree_def reads_agree_def)
    moreover have "tc_get_keys lib reader tag tc = Some (Ok (keys_tagged (tc_view \<sigma> tc) tag, tc\<lparr>tc_cached := ?cache\<rparr>))"
      using g Some view muts keys by (simp add: tc_get_keys_def get_key_tag_reads_cached_def)
    ultimately show thesis by (intro that [of ?cache]) simp_all
  next
    case None
    from ls obtain ks where ks: "sr_keys_with_prefix reader [tag] = Some (Ok ks)" "set ks = keys_tagged \<sigma> tag" by (auto simp: lists_state_def)
    from evict_returns [OF spec(1), of "max_cache_size ?c" "current_cache_size ?c + measure_keys lib (set ks)" "reads_cached ?c"]
    obtain c rd where e: "evict lib (max_cache_size ?c) (current_cache_size ?c + measure_keys lib (set ks)) (reads_cached ?c) = Some (c, rd)"
      "set (entries rd) \<subseteq> set (entries (reads_cached ?c))" by blast
    let ?cache = "?c\<lparr>current_cache_size := c, reads_cached := rd, key_tag_reads_cached := lm_insert (lib_tags lib) tag (set ks) q\<rparr>"
    have "tags (lm_insert (lib_tags lib) tag (set ks) q) = filter (\<lambda>e. fst e \<noteq> tag) (tags q) @ [(tag, set ks)]"
      using spec(2) by (simp add: linked_map_spec_def)
    then have "tags_agree tags \<sigma> ?cache" "reads_agree entries \<sigma> ?cache"
      using ok e(2) r(2) None ks(2) by (auto simp: tags_agree_def reads_agree_def)
    moreover have "tc_get_keys lib reader tag tc = Some (Ok (keys_tagged (tc_view \<sigma> tc) tag, tc\<lparr>tc_cached := ?cache\<rparr>))"
      using g None ks e(1) view muts by (simp add: tc_get_keys_def get_key_tag_reads_cached_def insert_key_tag_read_def Un_commute)
    ultimately show thesis by (intro that [of ?cache]) simp_all
  qed
qed

section \<open>The abstract state and the refinement\<close>

datatype tc_op = TcRead key | TcWrite key stored_value | TcAdd key stored_value | TcKeys u8

datatype tc_out = OutRead "stored_value option" | OutWrite | OutAdd add_result | OutKeys "key set"

fun op_valid :: "tc_op \<Rightarrow> bool" where
  "op_valid (TcRead k) = key_valid k"
| "op_valid (TcWrite k v) = key_valid k"
| "op_valid (TcAdd k v) = key_valid k"
| "op_valid (TcKeys tag) = True"

fun tc_step ::
  "('r, 'q) tc_lib \<Rightarrow> 'e state_reader \<Rightarrow> tc_op \<Rightarrow> ('r, 'q) tracking_copy \<Rightarrow> ('e, tc_out \<times> ('r, 'q) tracking_copy) result option" where
  "tc_step lib reader (TcRead k) tc = Option.bind (tc_read lib reader k tc) (\<lambda>r. loop_bind r (\<lambda>(v, tc). Some (Ok (OutRead v, tc))))"
| "tc_step lib reader (TcWrite k v) tc = Some (Ok (OutWrite, tc_write k v tc))"
| "tc_step lib reader (TcAdd k v) tc = Option.bind (tc_add lib reader k v tc) (\<lambda>r. loop_bind r (\<lambda>(a, tc). Some (Ok (OutAdd a, tc))))"
| "tc_step lib reader (TcKeys tag) tc = Option.bind (tc_get_keys lib reader tag tc) (\<lambda>r. loop_bind r (\<lambda>(ks, tc). Some (Ok (OutKeys ks, tc))))"

fun tc_run ::
  "('r, 'q) tc_lib \<Rightarrow> 'e state_reader \<Rightarrow> tc_op list \<Rightarrow> ('r, 'q) tracking_copy \<Rightarrow>
   ('e, tc_out list \<times> ('r, 'q) tracking_copy) result option" where
  "tc_run lib reader [] tc = Some (Ok ([], tc))"
| "tc_run lib reader (op # ops) tc =
     Option.bind (tc_step lib reader op tc) (\<lambda>r. loop_bind r (\<lambda>(out, tc).
     Option.bind (tc_run lib reader ops tc) (\<lambda>r. loop_bind r (\<lambda>(outs, tc). Some (Ok (out # outs, tc))))))"

text \<open>The specification: the same operations directly on a state, with no cache, no reader and no journal. The case of a panic is
  never reached.\<close>

definition spec_add :: "key \<Rightarrow> stored_value \<Rightarrow> state \<Rightarrow> add_result \<times> state" where
  "spec_add k value \<sigma> =
     (case \<sigma> k of
        None \<Rightarrow> (AddKeyNotFound k, \<sigma>)
      | Some current \<Rightarrow>
          (case res_bind (add_transform value) (\<lambda>t. map_err (\<lambda>e. case e of
               TransformTypeMismatch m \<Rightarrow> AddTypeMismatch m | TransformSerialization b \<Rightarrow> AddSerialization b) (transform_apply t current)) of
             Ok new_value \<Rightarrow> (AddSuccess, \<sigma>(k \<mapsto> new_value))
           | Err result \<Rightarrow> (result, \<sigma>)
           | Panic \<Rightarrow> (AddSuccess, \<sigma>)))"

fun spec_step :: "tc_op \<Rightarrow> state \<Rightarrow> tc_out \<times> state" where
  "spec_step (TcRead k) \<sigma> = (OutRead (\<sigma> (key_normalize k)), \<sigma>)"
| "spec_step (TcWrite k v) \<sigma> = (OutWrite, \<sigma>(key_normalize k \<mapsto> v))"
| "spec_step (TcAdd k v) \<sigma> = (case spec_add (key_normalize k) v \<sigma> of (r, \<sigma>') \<Rightarrow> (OutAdd r, \<sigma>'))"
| "spec_step (TcKeys tag) \<sigma> = (OutKeys (keys_tagged \<sigma> tag), \<sigma>)"

fun spec_run :: "tc_op list \<Rightarrow> state \<Rightarrow> tc_out list \<times> state" where
  "spec_run [] \<sigma> = ([], \<sigma>)"
| "spec_run (op # ops) \<sigma> = (case spec_step op \<sigma> of (out, \<sigma>) \<Rightarrow> case spec_run ops \<sigma> of (outs, \<sigma>) \<Rightarrow> (out # outs, \<sigma>))"

definition tc_inv ::
  "('r \<Rightarrow> (key \<times> stored_value) list) \<Rightarrow> ('q \<Rightarrow> (u8 \<times> key set) list) \<Rightarrow> state \<Rightarrow> state \<Rightarrow> ('r, 'q) tracking_copy \<Rightarrow> bool" where
  "tc_inv entries tags \<sigma>0 \<sigma> tc \<longleftrightarrow>
     reads_agree entries \<sigma>0 (tc_cached tc) \<and> tags_agree tags \<sigma>0 (tc_cached tc) \<and> tc_view \<sigma>0 tc = \<sigma> \<and>
     run_journal (tc_journal tc) \<sigma>0 = Some \<sigma>"

lemma run_journal_append: "run_journal (J @ J') \<sigma> = Option.bind (run_journal J \<sigma>) (run_journal J')"
proof (induction J arbitrary: \<sigma>)
  case (Cons e J)
  then show ?case by (cases "journal_step e \<sigma>") simp_all
qed simp

lemma tc_inv_new:
  "linked_map_spec (lib_reads lib) entries \<Longrightarrow> linked_map_spec (lib_tags lib) tags \<Longrightarrow> tc_inv entries tags \<sigma> \<sigma> (tracking_copy_new lib)"
  by (simp add: tc_inv_def tracking_copy_new_def cache_new_def reads_agree_def tags_agree_def keys_tagged_def tc_view_def linked_map_spec_def)

lemma tc_inv_recache:
  assumes "tc_inv entries tags \<sigma>0 \<sigma> tc" "muts_cached cache = muts_cached (tc_cached tc)" "reads_agree entries \<sigma>0 cache"
    "tags_agree tags \<sigma>0 cache"
  shows "tc_inv entries tags \<sigma>0 \<sigma> (tc\<lparr>tc_cached := cache\<rparr>)"
  using assms by (simp add: tc_inv_def tc_view_def)

lemma tc_inv_read:
  assumes "tc_inv entries tags \<sigma>0 \<sigma> tc" "\<sigma> k = Some v"
  shows "tc_inv entries tags \<sigma>0 \<sigma> (journal_push (k, TIdentity) tc)"
proof -
  from assms(2) have "\<sigma>(k \<mapsto> v) = \<sigma>" by (simp add: fun_upd_idem)
  with assms show ?thesis by (simp add: tc_inv_def journal_push_def tc_view_def run_journal_append journal_step_def)
qed

lemma tc_inv_write:
  assumes "tc_inv entries tags \<sigma>0 \<sigma> tc" "applied t (\<sigma> k) = Some v"
  shows "tc_inv entries tags \<sigma>0 (\<sigma>(k \<mapsto> v)) (journal_push (k, t) (tc\<lparr>tc_cached := insert_write k v (tc_cached tc)\<rparr>))"
proof -
  from assms(1) have "tags_agree tags \<sigma>0 (insert_write k v (tc_cached tc))" by (auto simp: tc_inv_def tags_agree_write)
  with assms show ?thesis
    by (auto simp: tc_inv_def journal_push_def tc_view_def run_journal_append journal_step_def reads_agree_def insert_write_def)
qed

lemma add_transform_no_panic: "add_transform v \<noteq> Panic"
proof (cases v)
  case (SVCLValue c)
  show ?thesis unfolding add_transform_def SVCLValue stored_value.case by (cases "cl_value_type c") (simp_all add: no_panic)
qed (simp_all add: add_transform_def)

lemma tc_add_refines:
  assumes inv: "tc_inv entries tags \<sigma>0 \<sigma> (tc\<lparr>tc_cached := cache\<rparr>)"
    and g: "tc_get lib reader (key_normalize k) tc = Some (Ok (\<sigma> (key_normalize k), tc\<lparr>tc_cached := cache\<rparr>))"
  obtains tc' where "tc_add lib reader k v tc = Some (Ok (fst (spec_add (key_normalize k) v \<sigma>), tc'))"
    "tc_inv entries tags \<sigma>0 (snd (spec_add (key_normalize k) v \<sigma>)) tc'"
proof (cases "\<sigma> (key_normalize k)")
  case None
  with g inv show thesis by (auto simp: tc_add_def spec_add_def intro!: that)
next
  case (Some cur)
  show thesis
  proof (cases "add_transform v")
    case (Ok t)
    have nz: "transform_apply t cur \<noteq> Panic" by (rule transform_apply_no_panic)
    from Ok Some g inv nz tc_inv_write [OF inv, of t "key_normalize k"] show thesis
      by (cases "transform_apply t cur") (auto simp: tc_add_def spec_add_def split: transform_error.split intro!: that)
  qed (use Some g inv add_transform_no_panic [of v] in \<open>auto simp: tc_add_def spec_add_def intro!: that\<close>)
qed

lemma tc_step_refines:
  assumes spec: "linked_map_spec (lib_reads lib) entries" "linked_map_spec (lib_tags lib) tags"
    and rd: "reads_state reader \<sigma>0" "lists_state reader \<sigma>0" and inv: "tc_inv entries tags \<sigma>0 \<sigma> tc" and k: "op_valid op"
  obtains tc' where "tc_step lib reader op tc = Some (Ok (fst (spec_step op \<sigma>), tc'))" "tc_inv entries tags \<sigma>0 (snd (spec_step op \<sigma>)) tc'"
proof -
  have get: "\<exists>cache. tc_get lib reader (key_normalize k) tc = Some (Ok (\<sigma> (key_normalize k), tc\<lparr>tc_cached := cache\<rparr>)) \<and>
      tc_inv entries tags \<sigma>0 \<sigma> (tc\<lparr>tc_cached := cache\<rparr>)" if "key_valid k" for k
  proof -
    from inv that have "reads_agree entries \<sigma>0 (tc_cached tc)" "key_valid (key_normalize k)" "tags_agree tags \<sigma>0 (tc_cached tc)" "tc_view \<sigma>0 tc = \<sigma>"
      by (simp_all add: tc_inv_def)
    from tc_get_view [OF spec(1) rd(1) this(1,2)] this(3,4) show ?thesis by (metis same_writesD tc_inv_recache [OF inv])
  qed
  show thesis
  proof (cases op)
    case (TcRead k)
    with k get obtain cache where "tc_get lib reader (key_normalize k) tc = Some (Ok (\<sigma> (key_normalize k), tc\<lparr>tc_cached := cache\<rparr>))"
      "tc_inv entries tags \<sigma>0 \<sigma> (tc\<lparr>tc_cached := cache\<rparr>)" by auto
    with TcRead tc_inv_read [OF this(2)] show thesis by (cases "\<sigma> (key_normalize k)") (auto simp: tc_read_def intro!: that)
  next
    case (TcWrite k v)
    then show thesis using tc_inv_write [OF inv, of "TWrite v" "key_normalize k" v] by (auto simp: tc_write_def intro!: that)
  next
    case (TcAdd k v)
    with k get obtain cache where g: "tc_get lib reader (key_normalize k) tc = Some (Ok (\<sigma> (key_normalize k), tc\<lparr>tc_cached := cache\<rparr>))"
      "tc_inv entries tags \<sigma>0 \<sigma> (tc\<lparr>tc_cached := cache\<rparr>)" by auto
    show thesis by (rule tc_add_refines [OF g(2,1), of v]) (use TcAdd in \<open>auto simp: split_def intro!: that\<close>)
  next
    case (TcKeys tag)
    from inv have i: "reads_agree entries \<sigma>0 (tc_cached tc)" "tags_agree tags \<sigma>0 (tc_cached tc)" "tc_view \<sigma>0 tc = \<sigma>" by (simp_all add: tc_inv_def)
    show thesis
      by (rule tc_get_keys_view [OF spec rd(2) i(1,2), of tag]) (use TcKeys i(3) tc_inv_recache [OF inv] in \<open>auto intro!: that\<close>)
  qed
qed

lemma tc_run_refines:
  assumes spec: "linked_map_spec (lib_reads lib) entries" "linked_map_spec (lib_tags lib) tags"
    and rd: "reads_state reader \<sigma>0" "lists_state reader \<sigma>0"
  shows "tc_inv entries tags \<sigma>0 \<sigma> tc \<Longrightarrow> \<forall>op\<in>set ops. op_valid op \<Longrightarrow>
    \<exists>tc'. tc_run lib reader ops tc = Some (Ok (fst (spec_run ops \<sigma>), tc')) \<and> tc_inv entries tags \<sigma>0 (snd (spec_run ops \<sigma>)) tc'"
proof (induction ops arbitrary: tc \<sigma>)
  case (Cons op ops)
  from tc_step_refines [OF spec rd Cons.prems(1), of op] Cons.prems(2) obtain tc' where
    s: "tc_step lib reader op tc = Some (Ok (fst (spec_step op \<sigma>), tc'))" "tc_inv entries tags \<sigma>0 (snd (spec_step op \<sigma>)) tc'" by auto
  from Cons.IH [OF s(2)] Cons.prems(2) s(1) show ?case by (auto simp: split_def)
qed auto

text \<open>C5: The tracking copy behaves as the state itself. Over a reader that answers from one state, and whatever the sizes of the
  values and the evictions from the cache are, every sequence of reads, writes, additions and listings of the keys of a kind returns
  without panic with the results that the operations give on the plain state; afterwards the values that a fork reads are those of
  the state they lead to, and the journal, run on the old state, leads there as well.\<close>
theorem tracking_copy_refines:
  assumes "linked_map_spec (lib_reads lib) entries" "linked_map_spec (lib_tags lib) tags"
    and "reads_state reader \<sigma>" "lists_state reader \<sigma>" "\<forall>op\<in>set ops. op_valid op"
  shows "\<exists>tc. tc_run lib reader ops (tracking_copy_new lib) = Some (Ok (fst (spec_run ops \<sigma>), tc)) \<and>
    reads_state (tc_reader reader tc) (snd (spec_run ops \<sigma>)) \<and>
    run_journal (tc_journal tc) \<sigma> = Some (snd (spec_run ops \<sigma>))"
proof -
  from tc_run_refines [OF assms(1-4) tc_inv_new [OF assms(1,2)] assms(5)] obtain tc where
    tc: "tc_run lib reader ops (tracking_copy_new lib) = Some (Ok (fst (spec_run ops \<sigma>), tc))"
      "tc_inv entries tags \<sigma> (snd (spec_run ops \<sigma>)) tc" by blast
  then have v: "snd (spec_run ops \<sigma>) = \<sigma> ++ muts_cached (tc_cached tc)" by (simp add: tc_inv_def tc_view_def)
  have "reads_state (tc_reader reader tc) (snd (spec_run ops \<sigma>))"
    using assms(3) by (simp add: v reads_state_def tc_reader_def map_add_def split: option.split)
  with tc show ?thesis by (auto simp: tc_inv_def)
qed

text \<open>C39: A fork does not list the keys written before it. After a key that the state does not have is written through a tracking copy,
  the copy itself lists the key and a fork of it reads the value, but the fork does not list the key: its listing goes to the
  reader below both copies.\<close>
theorem fork_lists_stale_keys:
  assumes "linked_map_spec (lib_reads lib) entries" "linked_map_spec (lib_tags lib) tags"
    and "reads_state reader \<sigma>" "lists_state reader \<sigma>" "key_valid k" "key_normalize k = k" "\<sigma> k = None"
  shows "\<exists>tc ks ks' tc1 tc2 tc3. tc = tc_write k v (tracking_copy_new lib) \<and>
    tc_get_keys lib reader (key_tag k) tc = Some (Ok (ks, tc1)) \<and> k \<in> ks \<and>
    tc_read lib (tc_reader reader tc) k (tracking_copy_new lib) = Some (Ok (Some v, tc2)) \<and>
    tc_get_keys lib (tc_reader reader tc) (key_tag k) (tracking_copy_new lib) = Some (Ok (ks', tc3)) \<and> k \<notin> ks'"
proof -
  define tc where "tc = tc_write k v (tracking_copy_new lib)"
  have inv: "tc_inv entries tags \<sigma> (\<sigma>(k \<mapsto> v)) tc"
    unfolding tc_def tc_write_def assms(6) by (rule tc_inv_write [OF tc_inv_new [OF assms(1,2)]]) simp
  then have i: "reads_agree entries \<sigma> (tc_cached tc)" "tags_agree tags \<sigma> (tc_cached tc)" "tc_view \<sigma> tc = \<sigma>(k \<mapsto> v)" by (simp_all add: tc_inv_def)
  from tc_get_keys_view [OF assms(1,2,4) i(1,2)] obtain cache where
    1: "tc_get_keys lib reader (key_tag k) tc = Some (Ok (keys_tagged (\<sigma>(k \<mapsto> v)) (key_tag k), tc\<lparr>tc_cached := cache\<rparr>))" unfolding i(3) .
  have fork: "tc_inv entries tags \<sigma>' \<sigma>' (tracking_copy_new lib)" for \<sigma>' by (rule tc_inv_new [OF assms(1,2)])
  then have n: "reads_agree entries \<sigma>' (tc_cached (tracking_copy_new lib))" "tags_agree tags \<sigma>' (tc_cached (tracking_copy_new lib))"
    "tc_view \<sigma>' (tracking_copy_new lib) = \<sigma>'" for \<sigma>' by (simp_all add: tc_inv_def)
  have "reads_state (tc_reader reader tc) (\<sigma>(k \<mapsto> v))" "lists_state (tc_reader reader tc) \<sigma>"
    using assms(3,4) i(3) [symmetric] by (simp_all add: reads_state_def lists_state_def tc_reader_def tc_view_def map_add_def split: option.split)
  note r = this
  from tc_get_view [OF assms(1) r(1) n(1) assms(5)] obtain c2 where
    2: "tc_get lib (tc_reader reader tc) k (tracking_copy_new lib) = Some (Ok (Some v, (tracking_copy_new lib)\<lparr>tc_cached := c2\<rparr>))" by (auto simp: n(3))
  from tc_get_keys_view [OF assms(1,2) r(2) n(1,2)] obtain c3 where
    3: "tc_get_keys lib (tc_reader reader tc) (key_tag k) (tracking_copy_new lib) =
      Some (Ok (keys_tagged \<sigma> (key_tag k), (tracking_copy_new lib)\<lparr>tc_cached := c3\<rparr>))" unfolding n(3) .
  have "k \<in> keys_tagged (\<sigma>(k \<mapsto> v)) (key_tag k)" "k \<notin> keys_tagged \<sigma> (key_tag k)" using assms(7) by (simp_all add: keys_tagged_def)
  moreover have "\<exists>tc2. tc_read lib (tc_reader reader tc) k (tracking_copy_new lib) = Some (Ok (Some v, tc2))"
    using 2 by (simp add: tc_read_def assms(6))
  ultimately show ?thesis using 1 3 tc_def by blast
qed

section \<open>A concrete cache\<close>

text \<open>A linked map kept as the list of its entries, and a cache in which every value is larger than the whole cache, so that every
  read is evicted at once.\<close>

definition list_linked_map :: "(('k \<times> 'v) list, 'k, 'v) linked_map" where
  "list_linked_map = \<lparr>lm_new = [], lm_insert = (\<lambda>k v m. filter (\<lambda>e. fst e \<noteq> k) m @ [(k, v)]),
     lm_pop_front = (\<lambda>m. case m of [] \<Rightarrow> None | e # es \<Rightarrow> Some (e, es)),
     lm_get_refresh = (\<lambda>k m. (map_of m k, case map_of m k of None \<Rightarrow> m | Some v \<Rightarrow> filter (\<lambda>e. fst e \<noteq> k) m @ [(k, v)]))\<rparr>"

lemma list_linked_map_spec: "linked_map_spec list_linked_map (\<lambda>m. m)"
  by (simp add: linked_map_spec_def list_linked_map_def)

definition ex_lib :: "((key \<times> stored_value) list, (u8 \<times> key set) list) tc_lib" where
  "ex_lib = \<lparr>lib_reads = list_linked_map, lib_tags = list_linked_map, size_of_key = 34, size_of_stored_value = 20000\<rparr>"

definition ex_reader :: "unit state_reader" where
  "ex_reader = \<lparr>sr_read = (\<lambda>k. Some (Ok ([ex_balance \<mapsto> u64_value 1] k))), sr_read_with_proof = (\<lambda>_. Some (Ok None)),
     sr_keys_with_prefix = (\<lambda>pre. Some (Ok (if pre = [6] then [ex_balance] else [])))\<rparr>"

definition ex_ops :: "tc_op list" where
  "ex_ops = [TcRead ex_balance, TcAdd ex_balance (u64_value 2), TcWrite (KHash (replicate 32 1)) (u64_value 9), TcKeys 6, TcRead ex_balance]"

lemma add_transform_u64: "add_transform (u64_value x) = Ok (TAddUInt64 x)"
proof -
  have "u64_to_bytes x = Ok (to_le_bytes 8 x)" by (simp add: u64_to_bytes_def le_to_bytes_def)
  from bytesrepr.roundtrip_from_slice [OF u64_repr.bytesrepr_axioms TrueI this] show ?thesis
    by (simp add: add_transform_def u64_value_def cl_value_into_t_def)
qed

theorem tracking_copy_refines_witness:
  "\<exists>tc. tc_run ex_lib ex_reader ex_ops (tracking_copy_new ex_lib) =
      Some (Ok ([OutRead (Some (u64_value 1)), OutAdd AddSuccess, OutWrite, OutKeys {ex_balance}, OutRead (Some (u64_value 3))], tc)) \<and>
    run_journal (tc_journal tc) [ex_balance \<mapsto> u64_value 1] =
      Some [ex_balance \<mapsto> u64_value 3, KHash (replicate 32 1) \<mapsto> u64_value 9]"
proof -
  have run: "spec_run ex_ops [ex_balance \<mapsto> u64_value 1] =
      ([OutRead (Some (u64_value 1)), OutAdd AddSuccess, OutWrite, OutKeys {ex_balance}, OutRead (Some (u64_value 3))],
       [ex_balance \<mapsto> u64_value 3, KHash (replicate 32 1) \<mapsto> u64_value 9])"
    by (auto simp: ex_ops_def spec_add_def add_transform_u64 add_u64 ex_balance_def keys_tagged_def)
  have "\<exists>tc. tc_run ex_lib ex_reader ex_ops (tracking_copy_new ex_lib) = Some (Ok (fst (spec_run ex_ops [ex_balance \<mapsto> u64_value 1]), tc)) \<and>
    reads_state (tc_reader ex_reader tc) (snd (spec_run ex_ops [ex_balance \<mapsto> u64_value 1])) \<and>
    run_journal (tc_journal tc) [ex_balance \<mapsto> u64_value 1] = Some (snd (spec_run ex_ops [ex_balance \<mapsto> u64_value 1]))"
  proof (rule tracking_copy_refines)
    show "linked_map_spec (lib_reads ex_lib) (\<lambda>m. m)" by (simp add: ex_lib_def list_linked_map_spec)
    show "linked_map_spec (lib_tags ex_lib) (\<lambda>m. m)" by (simp add: ex_lib_def list_linked_map_spec)
    show "lists_state ex_reader [ex_balance \<mapsto> u64_value 1]" by (auto simp: lists_state_def ex_reader_def keys_tagged_def ex_balance_def)
    show "reads_state ex_reader [ex_balance \<mapsto> u64_value 1]" by (simp add: reads_state_def ex_reader_def)
    show "\<forall>op\<in>set ex_ops. op_valid op" by (simp add: ex_ops_def ex_balance_def key_length_defs)
  qed
  then show ?thesis unfolding run by auto
qed

theorem fork_lists_stale_keys_witness:
  "\<exists>tc ks ks' tc1 tc2 tc3. tc = tc_write (KHash (replicate 32 1)) (u64_value 9) (tracking_copy_new ex_lib) \<and>
    tc_get_keys ex_lib ex_reader 1 tc = Some (Ok (ks, tc1)) \<and> KHash (replicate 32 1) \<in> ks \<and>
    tc_read ex_lib (tc_reader ex_reader tc) (KHash (replicate 32 1)) (tracking_copy_new ex_lib) = Some (Ok (Some (u64_value 9), tc2)) \<and>
    tc_get_keys ex_lib (tc_reader ex_reader tc) 1 (tracking_copy_new ex_lib) = Some (Ok (ks', tc3)) \<and> KHash (replicate 32 1) \<notin> ks'"
proof -
  have r: "reads_state ex_reader [ex_balance \<mapsto> u64_value 1]" "lists_state ex_reader [ex_balance \<mapsto> u64_value 1]"
    by (auto simp: reads_state_def lists_state_def ex_reader_def keys_tagged_def ex_balance_def)
  have l: "linked_map_spec (lib_reads ex_lib) (\<lambda>m. m)" "linked_map_spec (lib_tags ex_lib) (\<lambda>m. m)"
    by (simp_all add: ex_lib_def list_linked_map_spec)
  have k: "key_valid (KHash (replicate 32 1))" "key_normalize (KHash (replicate 32 1)) = KHash (replicate 32 1)"
    "[ex_balance \<mapsto> u64_value 1] (KHash (replicate 32 1)) = None" by (simp_all add: key_length_defs ex_balance_def)
  from fork_lists_stale_keys [OF l r k, of "u64_value 9"] show ?thesis by simp
qed

end
