(* ===== verification/Trie_Canonical.thy ===== *)
theory Trie_Canonical
  imports Trie_Memory
begin

text \<open>
  The trie of a state is unique: two well-formed tries, in whatever stores, that hold the same entries are the same nodes with the
  same hashes. The root hash is therefore a function of the state alone, and does not depend on the order in which the entries
  were written, which is the iteration order of a hash map and differs from node to node.
\<close>

section \<open>The entries of a trie\<close>

definition trie_entry ::
  "('k \<Rightarrow> bool) \<Rightarrow> ('k \<Rightarrow> bytes) \<Rightarrow> ('k, 'v) getter \<Rightarrow> bytes \<Rightarrow> ('k, 'v) trie \<Rightarrow> 'k \<Rightarrow> 'v \<Rightarrow> bool" where
  "trie_entry kok path get p t k v \<longleftrightarrow> kok k \<and> (\<exists>q. path k = p @ q \<and> lookup get k q t (Some v))"

lemma trie_entry_leaf: "trie_entry kok path get p (Leaf k' v') k v \<longleftrightarrow> k = k' \<and> v = v' \<and> kok k \<and> (\<exists>q. path k = p @ q)"
  by (auto simp: trie_entry_def split: if_splits)

lemma trie_entry_node:
  "trie_entry kok path get p (Node pb) k v \<longleftrightarrow>
     (\<exists>i ptr t. pb i = Some ptr \<and> get (pointer_hash ptr) = Ok (Some t) \<and> trie_entry kok path get (p @ [i]) t k v)"
  by (auto simp: trie_entry_def lookup_node_iff)

lemma trie_entry_ext:
  "trie_entry kok path get p (Extension affix ptr) k v \<longleftrightarrow>
     (\<exists>t. get (pointer_hash ptr) = Ok (Some t) \<and> trie_entry kok path get (p @ affix) t k v)"
  by (auto simp: trie_entry_def lookup_ext_iff)

lemma trie_entry_path: "trie_entry kok path get p t k v \<Longrightarrow> \<exists>q. path k = p @ q"
  by (auto simp: trie_entry_def)

text \<open>Two tries at the same position with the same entries.\<close>

definition same_entries where
  "same_entries kok path get get' p t t' \<longleftrightarrow>
     (\<forall>k v. trie_entry kok path get p t k v \<longleftrightarrow> trie_entry kok path get' p t' k v)"

context trie_keys
begin

abbreviation entry :: "('k, 'v) getter \<Rightarrow> bytes \<Rightarrow> ('k, 'v) trie \<Rightarrow> 'k \<Rightarrow> 'v \<Rightarrow> bool" where
  "entry \<equiv> trie_entry kok path"

lemma wf_has_entry: "wf get p t \<Longrightarrow> p \<noteq> [] \<Longrightarrow> \<exists>k v. entry get p t k v"
proof (induction rule: wf_trie.induct)
  case (wf_leaf k p q v)
  then show ?case by (auto simp: trie_entry_leaf)
next
  case (wf_node pb p)
  then obtain i ptr where "pb i = Some ptr" by auto
  with wf_node(1) show ?case by (fastforce simp: trie_entry_node)
next
  case (wf_ext p affix h pb)
  then show ?case by (auto simp: trie_entry_ext)
qed

lemma wf_node_child:
  assumes "wf get p (Node pb)" "pb i \<noteq> None"
  obtains ptr t k v where "pb i = Some ptr" "get (pointer_hash ptr) = Ok (Some t)" "is_leaf_pointer ptr = is_leaf t"
    "wf get (p @ [i]) t" "entry get (p @ [i]) t k v" "entry get p (Node pb) k v"
proof -
  from assms obtain ptr t where t: "pb i = Some ptr" "get (pointer_hash ptr) = Ok (Some t)" "is_leaf_pointer ptr = is_leaf t"
    "wf get (p @ [i]) t" using wf_nodeD [of get p pb] by blast
  from wf_has_entry [OF t(4)] obtain k v where "entry get (p @ [i]) t k v" by auto
  with t show thesis by (intro that [of ptr t k v]) (auto simp: trie_entry_node)
qed

text \<open>A node below the root has entries that branch at its position.\<close>

lemma wf_node_branches:
  assumes "wf get p (Node pb)" "p \<noteq> []"
  obtains i j k v k' v' q q' where "i \<noteq> j" "entry get p (Node pb) k v" "path k = p @ i # q"
    "entry get p (Node pb) k' v'" "path k' = p @ j # q'"
proof -
  from assms obtain i j where ij: "i \<noteq> j" "pb i \<noteq> None" "pb j \<noteq> None" by (auto elim!: wf_nodeE)
  from wf_node_child [OF assms(1) ij(2)] obtain k v where "entry get p (Node pb) k v" "\<exists>q. path k = (p @ [i]) @ q"
    by (metis trie_entry_path)
  moreover from wf_node_child [OF assms(1) ij(3)] obtain k' v' where "entry get p (Node pb) k' v'" "\<exists>q. path k' = (p @ [j]) @ q"
    by (metis trie_entry_path)
  ultimately show thesis using ij(1) that by (metis append.assoc append_Cons append_Nil)
qed

lemma wf_node_child_entries:
  assumes "pb i = Some ptr" "get (pointer_hash ptr) = Ok (Some t)"
  shows "entry get (p @ [i]) t k v \<longleftrightarrow> entry get p (Node pb) k v \<and> (\<exists>q. path k = p @ i # q)"
  using assms by (auto simp: trie_entry_def lookup_node_iff)

lemma node_child_none: "pb i = None \<Longrightarrow> entry get p (Node pb) k v \<Longrightarrow> path k \<noteq> p @ i # q"
  by (auto simp: trie_entry_def lookup_node_iff)

text \<open>Only a node can be a node, a leaf a leaf and an extension an extension with the same affix.\<close>

lemma same_entries_node:
  assumes "wf get p (Node pb)" "wf get' p t'" "same_entries kok path get get' p (Node pb) t'" "p = [] \<Longrightarrow> is_node t'"
  obtains pb' where "t' = Node pb'"
proof (cases "p = []")
  case True
  with assms(4) that show thesis by (cases t') auto
next
  case False
  from wf_node_branches [OF assms(1) False] obtain i j k v k' v' q q' where b: "i \<noteq> j" "entry get' p t' k v" "path k = p @ i # q"
    "entry get' p t' k' v'" "path k' = p @ j # q'" using assms(3) by (metis same_entries_def)
  show thesis
  proof (cases t')
    case (Leaf l w)
    with b show thesis by (auto simp: trie_entry_leaf)
  next
    case (Extension affix ptr)
    with assms(2) obtain a as where a: "affix = a # as" by (cases affix) (auto elim: wf_extE)
    from Extension b(2,4) have "\<exists>r. path k = (p @ affix) @ r" "\<exists>r. path k' = (p @ affix) @ r"
      by (auto simp: trie_entry_ext dest: trie_entry_path)
    with a b(1,3,5) have False by auto
    then show thesis ..
  qed (rule that)
qed

lemma branch_affix:
  assumes "path k = p @ i # q" "path k' = p @ j # q'" "i \<noteq> j" "\<exists>r. path k = p' @ r" "\<exists>r. path k' = p' @ r"
  shows "\<exists>s. p = p' @ s"
proof -
  from assms(1,2,4,5) obtain r r' where r: "p @ i # q = p' @ r" "p @ j # q' = p' @ r'" by auto
  then consider s where "p = p' @ s" | s where "p' = p @ s" "s \<noteq> []" by (metis append_eq_append_conv2 append_Nil2)
  then show ?thesis
  proof cases
    case (2 s)
    with r obtain a s' where "s = a # s'" by (cases s) auto
    with 2 r assms(3) show ?thesis by auto
  qed blast
qed

lemma same_entries_child:
  assumes "same_entries kok path get get' p (Node pb) (Node pb')"
    and "pb i = Some ptr" "get (pointer_hash ptr) = Ok (Some t)" "pb' i = Some ptr'" "get' (pointer_hash ptr') = Ok (Some t')"
  shows "same_entries kok path get get' (p @ [i]) t t'"
  using assms(1) wf_node_child_entries [of pb i ptr get t p] wf_node_child_entries [of pb' i ptr' get' t' p] assms(2-5)
  by (auto simp: same_entries_def)

text \<open>A trie below the root with the entry of one key only is a leaf.\<close>

lemma branches_two_keys:
  assumes "wf get p (Node pb)" "p \<noteq> []" "\<And>k' v'. entry get p (Node pb) k' v' \<Longrightarrow> k' = k"
  shows False
proof -
  from wf_node_branches [OF assms(1,2)] obtain i j k1 v1 k2 v2 q1 q2 where "i \<noteq> j" "entry get p (Node pb) k1 v1" "path k1 = p @ i # q1"
    "entry get p (Node pb) k2 v2" "path k2 = p @ j # q2" .
  with assms(3) [of k1 v1] assms(3) [of k2 v2] show False by simp
qed

lemma single_entry_leaf:
  assumes "wf get p t" "p \<noteq> []" "\<And>k' v'. entry get p t k' v' \<Longrightarrow> k' = k"
  shows "\<exists>v. t = Leaf k v"
proof (cases t)
  case (Leaf l v)
  with assms(1,3) show ?thesis by (auto simp: trie_entry_leaf elim: wf_leafE)
next
  case (Node pb)
  with branches_two_keys [of get p pb k] assms show ?thesis by blast
next
  case (Extension affix ptr)
  with assms(1) obtain h pb where x: "ptr = NodePointer h" "affix \<noteq> []" "get h = Ok (Some (Node pb))" "wf get (p @ affix) (Node pb)"
    by (auto elim: wf_extE)
  have "entry get (p @ affix) (Node pb) k' v' \<Longrightarrow> k' = k" for k' v' using assms(3) Extension x by (auto simp: trie_entry_ext)
  with branches_two_keys [OF x(4)] x(2) show ?thesis by blast
qed

lemma same_entries_none:
  assumes "wf get p (Node pb)" "same_entries kok path get get' p (Node pb) (Node pb')" "pb' i = None"
  shows "pb i = None"
proof (rule ccontr)
  assume "pb i \<noteq> None"
  from wf_node_child [OF assms(1) this] obtain k v where "entry get p (Node pb) k v" "\<exists>q. path k = p @ i # q"
    by (metis append.assoc append_Cons append_Nil trie_entry_path)
  with assms(2,3) node_child_none show False by (metis same_entries_def)
qed

lemma same_entries_sym: "same_entries kok path get get' p t t' \<Longrightarrow> same_entries kok path get' get p t' t"
  by (simp add: same_entries_def)

lemma pointer_eqI: "pointer_hash a = pointer_hash b \<Longrightarrow> is_leaf_pointer a = is_leaf_pointer b \<Longrightarrow> a = b"
  by (cases a; cases b) auto

lemma same_entries_affix:
  assumes "wf get (p @ affix) (Node pb)" "p \<noteq> []" "get h = Ok (Some (Node pb))" "get' h' = Ok (Some t')"
    and "same_entries kok path get get' p (Extension affix (NodePointer h)) (Extension affix' (NodePointer h'))"
  shows "\<exists>s. affix = affix' @ s"
proof -
  from assms(2) have "p @ affix \<noteq> []" by simp
  from wf_node_branches [OF assms(1) this] obtain i j k v k' v' q q' where b: "i \<noteq> j" "entry get (p @ affix) (Node pb) k v"
    "path k = (p @ affix) @ i # q" "entry get (p @ affix) (Node pb) k' v'" "path k' = (p @ affix) @ j # q'" .
  have "entry get' (p @ affix') t' l w" if "entry get (p @ affix) (Node pb) l w" for l w
    using that assms(3-5) by (auto simp: same_entries_def trie_entry_ext)
  with b(2,4) trie_entry_path [of kok path get' "p @ affix'" t'] have "\<exists>r. path k = (p @ affix') @ r" "\<exists>r. path k' = (p @ affix') @ r"
    by blast+
  from branch_affix [OF b(3,5,1) this] show ?thesis by auto
qed

lemma canonical_nodes:
  assumes ad: "addressed hash_of get" "addressed hash_of get'"
    and w: "wf get p (Node pb)" "wf get' p (Node pb')" "same_entries kok path get get' p (Node pb) (Node pb')"
    and IH: "\<And>i ptr t t'. pb i = Some ptr \<Longrightarrow> get (pointer_hash ptr) = Ok (Some t) \<Longrightarrow> wf get' (p @ [i]) t' \<Longrightarrow>
      same_entries kok path get get' (p @ [i]) t t' \<Longrightarrow> t = t'"
  shows "pb = pb'"
proof
  fix i
  show "pb i = pb' i"
  proof (cases "pb i = None \<or> pb' i = None")
    case True
    then show ?thesis using same_entries_none [OF w(1,3)] same_entries_none [OF w(2) same_entries_sym [OF w(3)]] by auto
  next
    case False
    with wf_node_child [OF w(2), of i] obtain ptr' u' where u': "pb' i = Some ptr'" "get' (pointer_hash ptr') = Ok (Some u')"
      "is_leaf_pointer ptr' = is_leaf u'" "wf get' (p @ [i]) u'" by metis
    from False wf_node_child [OF w(1), of i] obtain ptr u where u: "pb i = Some ptr" "get (pointer_hash ptr) = Ok (Some u)"
      "is_leaf_pointer ptr = is_leaf u" by metis
    have eq: "u = u'" using IH [OF u(1,2) u'(4) same_entries_child [OF w(3) u(1,2) u'(1,2)]] .
    have "pointer_hash ptr = pointer_hash ptr'" using ad u(2) u'(2) eq by (simp add: addressed_def) (metis result.inject(1))
    with u u' eq pointer_eqI [of ptr ptr'] show ?thesis by simp
  qed
qed

lemma canonical:
  assumes ad: "addressed hash_of get" "addressed hash_of get'"
  shows "wf get p t \<Longrightarrow> wf get' p t' \<Longrightarrow> same_entries kok path get get' p t t' \<Longrightarrow> (p = [] \<longrightarrow> is_node t \<and> is_node t') \<Longrightarrow> t = t'"
proof (induction arbitrary: t' rule: wf_trie.induct)
  case (wf_leaf k p q v)
  have "entry get' p t' k' v' \<longleftrightarrow> k' = k \<and> v' = v" for k' v' using wf_leaf(1,2,4) by (auto simp: same_entries_def trie_entry_leaf)
  moreover from this single_entry_leaf [OF wf_leaf(3), of k] wf_leaf(5) obtain v' where "t' = Leaf k v'" by auto
  ultimately show ?case using wf_leaf(1,2) by (auto simp: trie_entry_leaf)
next
  case (wf_node pb p)
  have w: "wf get p (Node pb)" using wf_node(1,2) by (intro wf_trie.wf_node) blast+
  obtain pb' where t': "t' = Node pb'" using same_entries_node [OF w wf_node(3,4)] wf_node(5) by blast
  have "pb = pb'"
  proof (rule canonical_nodes [OF ad w wf_node(3) [unfolded t'] wf_node(4) [unfolded t']])
    fix i ptr u u'
    assume "pb i = Some ptr" "get (pointer_hash ptr) = Ok (Some u)" "wf get' (p @ [i]) u'" "same_entries kok path get get' (p @ [i]) u u'"
    with wf_node(1) show "u = u'" by fastforce
  qed
  with t' show ?case by simp
next
  case (wf_ext p affix h pb)
  have w: "wf get p (Extension affix (NodePointer h))" by (rule wf_trie.wf_ext [OF wf_ext(1-4)])
  have ne: "t' \<noteq> Node pb'" for pb'
  proof
    assume n: "t' = Node pb'"
    from same_entries_node [OF wf_ext(6) [unfolded n] w same_entries_sym [OF wf_ext(7) [unfolded n]]] wf_ext(1) show False by auto
  qed
  have nl: "t' \<noteq> Leaf k v" for k v
    using single_entry_leaf [OF w wf_ext(1), of k] wf_ext(7) by (auto simp: same_entries_def trie_entry_leaf)
  from ne nl wf_ext(6) obtain affix' h' pb' where t': "t' = Extension affix' (NodePointer h')" "get' h' = Ok (Some (Node pb'))"
    "wf get' (p @ affix') (Node pb')" by (cases t') (auto elim: wf_extE)
  obtain s s' where "affix = affix' @ s" "affix' = affix @ s'"
    using same_entries_affix [OF wf_ext(4,1,3) t'(2) wf_ext(7) [unfolded t'(1)]]
      same_entries_affix [OF t'(3) wf_ext(1) t'(2) wf_ext(3) same_entries_sym [OF wf_ext(7) [unfolded t'(1)]]] by blast
  then have a: "affix' = affix" by auto
  have "same_entries kok path get get' (p @ affix) (Node pb) (Node pb')"
    using wf_ext(7) wf_ext(3) t'(2) by (simp add: t'(1) a same_entries_def trie_entry_ext)
  from wf_ext(5) [OF _ this] t'(3) a wf_ext(1) have "Node pb = Node pb'" by simp
  then have "h = h'" using ad wf_ext(3) t'(2) by (simp add: addressed_def) (metis result.inject(1))
  then show ?case using t'(1) a by simp
qed

end

context trie_world
begin

lemma entry_read:
  assumes "get st r = Ok (Some root)" "wf (get st) [] root" "kok k"
  shows "trie_entry kok path (get st) [] root k v \<longleftrightarrow> trie_read (get st) ktb r k = Some (Ok (Found v))"
proof -
  from wf_read [OF assms] obtain x where x: "lookup (get st) k (path k) root x" "trie_read (get st) ktb r k = Some (Ok (as_read_result x))" by blast
  then have "lookup (get st) k (path k) root (Some v)" if "trie_read (get st) ktb r k = Some (Ok (Found v))"
    using that by (cases x) (simp_all add: as_read_result_def)
  with lookup_trie_read [OF assms(1,3), of "Some v"] assms(3) show ?thesis by (auto simp: trie_entry_def as_read_result_def)
qed

lemma root_unique:
  assumes r: "get st r = Ok (Some root)" "wf (get st) [] root" "is_node root" "addressed hash_of (get st)"
    and r': "get st' r' = Ok (Some root')" "wf (get st') [] root'" "is_node root'" "addressed hash_of (get st')"
    and eq: "\<And>k. kok k \<Longrightarrow> trie_read (get st) ktb r k = trie_read (get st') ktb r' k"
  shows "r = r'"
proof -
  have "same_entries kok path (get st) (get st') [] root root'"
    unfolding same_entries_def
  proof (intro allI)
    fix k v
    show "trie_entry kok path (get st) [] root k v \<longleftrightarrow> trie_entry kok path (get st') [] root' k v"
      by (cases "kok k") (simp_all add: entry_read [OF r(1,2)] entry_read [OF r'(1,2)] eq, simp add: trie_entry_def)
  qed
  from canonical [OF r(4) r'(4) r(2) r'(2) this] r(3) r'(3) have "root = root'" by simp
  with r(1,4) r'(1,4) show ?thesis by (simp add: addressed_def) (metis result.inject(1))
qed

end

section \<open>The root hash of a state\<close>

lemma memory_root_unique:
  assumes "good_root kv kc vv vc h blake2b tree_fold1 txn r" "good_root kv kc vv vc h blake2b tree_fold1 txn' r'"
    and "\<And>k. kv k \<Longrightarrow> trie_read (mem_get kc vc h txn) (cd_tb kc) r k = trie_read (mem_get kc vc h txn') (cd_tb kc) r' k"
  shows "r = r'"
proof -
  from assms(1,2) obtain pb pb' where
    "mem_get kc vc h txn r = Ok (Some (Node pb))" "wf_trie (\<lambda>k. lawful_codecs kv kc vv vc \<and> kv k) (key_path kc) (mem_get kc vc h txn) [] (Node pb)"
    "addressed (trie_hash kc vc blake2b tree_fold1) (mem_get kc vc h txn)"
    "mem_get kc vc h txn' r' = Ok (Some (Node pb'))" "wf_trie (\<lambda>k. lawful_codecs kv kc vv vc \<and> kv k) (key_path kc) (mem_get kc vc h txn') [] (Node pb')"
    "addressed (trie_hash kc vc blake2b tree_fold1) (mem_get kc vc h txn')"
    by (auto simp: good_root_def)
  from memory_trie.root_unique [OF this(1,2) is_node_simps(1) this(3,4,5) is_node_simps(1) this(6)] assms(3) show ?thesis by blast
qed

end
