(* ===== verification/Trie_Keys.thy ===== *)
theory Trie_Keys
  imports Trie_Canonical "HOL-Library.Sublist"
begin

text \<open>
  The iterator over the keys below a prefix, \<open>KeysIterator\<close> and \<open>keys_with_prefix\<close> of
  \<^verbatim>\<open>execution_engine/src/storage/trie_store/operations/mod.rs\<close>, with its explicit stack of visited nodes, and the loop of
  \<open>StateReader::keys_with_prefix\<close> that collects it. The head of the list is the top of the stack. The \<open>debug_assert!\<close>s are not
  part of a release build and are left out. On a well-formed trie the iterator yields exactly the keys that start with the
  prefix, each once, in the order of their bytes.
\<close>

section \<open>The iterator\<close>

datatype keys_iterator_state = KOk | KReturnError storage_error | KFailed

record ('k, 'v) visited_trie_node =
  vt_trie :: "('k, 'v) trie"
  vt_maybe_index :: "nat option"
  vt_path :: bytes

record ('k, 'v) keys_iterator =
  ki_initial_descend :: bytes
  ki_visited :: "('k, 'v) visited_trie_node list"
  ki_state :: keys_iterator_state

text \<open>The inner loop over the indices of a node: the first pointer from an index on, or at that index only while descending.\<close>

function next_pointer :: "pointer_block \<Rightarrow> bool \<Rightarrow> nat \<Rightarrow> (nat \<times> pointer) option" where
  "next_pointer pointer_block descending index =
     (if index < RADIX then
        (case pointer_block (of_nat index) of
           Some pointer \<Rightarrow> Some (index, pointer)
         | None \<Rightarrow> if descending then None else next_pointer pointer_block descending (index + 1))
      else None)"
  by pat_completeness auto
termination by (relation "measure (\<lambda>(pb, d, i). RADIX - i)") auto

declare next_pointer.simps [simp del]

datatype ('k, 'v) visit_outcome =
    VReturn "(storage_error, 'k) result" "('k, 'v) keys_iterator"
  | VContinue "('k, 'v) keys_iterator"

definition push_visited :: "('k, 'v) visited_trie_node \<Rightarrow> ('k, 'v) keys_iterator \<Rightarrow> ('k, 'v) keys_iterator" where
  "push_visited n it = it\<lparr>ki_visited := n # ki_visited it\<rparr>"

definition descend_to ::
  "('k, 'v) getter \<Rightarrow> pointer \<Rightarrow> bytes \<Rightarrow> ('k, 'v) keys_iterator \<Rightarrow> ('k, 'v) keys_iterator \<Rightarrow> ('k, 'v) visit_outcome" where
  "descend_to get pointer path it it' =
     (case get (pointer_hash pointer) of
        Ok (Some next_trie) \<Rightarrow> VContinue (push_visited \<lparr>vt_trie = next_trie, vt_maybe_index = None, vt_path = path\<rparr> it')
      | Ok None \<Rightarrow> VContinue it'
      | Err e \<Rightarrow> VReturn (Err e) (it\<lparr>ki_state := KFailed\<rparr>)
      | Panic \<Rightarrow> VReturn Panic it)"

text \<open>The body of the loop of \<open>next\<close>, for the node taken from the stack.\<close>

fun visit ::
  "('k, 'v) getter \<Rightarrow> 'k to_bytes \<Rightarrow> ('k, 'v) keys_iterator \<Rightarrow> ('k, 'v) trie \<Rightarrow> nat option \<Rightarrow> bytes \<Rightarrow> ('k, 'v) visit_outcome" where
  "visit get ktb it (Leaf key value) maybe_index path =
     (case ktb key of
        Ok key_bytes \<Rightarrow>
          if prefix (path @ ki_initial_descend it) key_bytes then VReturn (Ok key) it else VContinue it
      | Err e \<Rightarrow> VReturn (Err (BytesRepr e)) (it\<lparr>ki_state := KFailed\<rparr>)
      | Panic \<Rightarrow> VReturn Panic it)"
| "visit get ktb it (Node pointer_block) maybe_index path =
     (let index = (case ki_initial_descend it of
            i # _ \<Rightarrow> unat i
          | [] \<Rightarrow> case maybe_index of Some index \<Rightarrow> index | None \<Rightarrow> 0)
      in case next_pointer pointer_block (ki_initial_descend it \<noteq> []) index of
           None \<Rightarrow> VContinue it
         | Some (index, pointer) \<Rightarrow>
             descend_to get pointer (path @ [of_nat index]) it
               (case ki_initial_descend it of
                  _ # rest \<Rightarrow> it\<lparr>ki_initial_descend := rest\<rparr>
                | [] \<Rightarrow> push_visited \<lparr>vt_trie = Node pointer_block, vt_maybe_index = Some (index + 1), vt_path = path\<rparr> it))"
| "visit get ktb it (Extension affix pointer) maybe_index path =
     (let descend_len = min (length (ki_initial_descend it)) (length affix);
          check_prefix = take descend_len (ki_initial_descend it);
          it = it\<lparr>ki_initial_descend := drop descend_len (ki_initial_descend it)\<rparr>
      in if prefix check_prefix affix then descend_to get pointer (path @ affix) it it else VContinue it)"

partial_function (option) next_loop ::
  "('k, 'v) getter \<Rightarrow> 'k to_bytes \<Rightarrow> ('k, 'v) keys_iterator \<Rightarrow>
   ((storage_error, 'k) result option \<times> ('k, 'v) keys_iterator) option" where
  "next_loop get ktb it =
     (case ki_visited it of
        [] \<Rightarrow> Some (None, it)
      | n # visited \<Rightarrow>
          (case visit get ktb (it\<lparr>ki_visited := visited\<rparr>) (vt_trie n) (vt_maybe_index n) (vt_path n) of
             VReturn item it \<Rightarrow> Some (Some item, it)
           | VContinue it \<Rightarrow> next_loop get ktb it))"

definition keys_next ::
  "('k, 'v) getter \<Rightarrow> 'k to_bytes \<Rightarrow> ('k, 'v) keys_iterator \<Rightarrow>
   ((storage_error, 'k) result option \<times> ('k, 'v) keys_iterator) option" where
  "keys_next get ktb it =
     (let it' = it\<lparr>ki_state := KOk\<rparr> in
      case ki_state it of
        KOk \<Rightarrow> next_loop get ktb it'
      | KReturnError e \<Rightarrow> Some (Some (Err e), it'\<lparr>ki_state := KFailed\<rparr>)
      | KFailed \<Rightarrow> Some (None, it'))"

definition keys_with_prefix :: "('k, 'v) getter \<Rightarrow> digest \<Rightarrow> bytes \<Rightarrow> (storage_error, ('k, 'v) keys_iterator) result" where
  "keys_with_prefix get root pre =
     (case get root of
        Ok None \<Rightarrow> Ok \<lparr>ki_initial_descend = pre, ki_visited = [], ki_state = KOk\<rparr>
      | Err e \<Rightarrow> Ok \<lparr>ki_initial_descend = pre, ki_visited = [], ki_state = KReturnError e\<rparr>
      | Ok (Some current_root) \<Rightarrow>
          Ok \<lparr>ki_initial_descend = pre, ki_visited = [\<lparr>vt_trie = current_root, vt_maybe_index = None, vt_path = []\<rparr>], ki_state = KOk\<rparr>
      | Panic \<Rightarrow> Panic)"

text \<open>The loop \<open>for result in keys_iter\<close> of the readers of the global state.\<close>

partial_function (option) collect_keys ::
  "('k, 'v) getter \<Rightarrow> 'k to_bytes \<Rightarrow> ('k, 'v) keys_iterator \<Rightarrow> 'k list \<Rightarrow> (storage_error, 'k list) result option" where
  "collect_keys get ktb it ret =
     Option.bind (keys_next get ktb it) (\<lambda>(item, it).
       case item of
         None \<Rightarrow> Some (Ok ret)
       | Some result \<Rightarrow> loop_bind result (\<lambda>key. collect_keys get ktb it (ret @ [key])))"

definition read_keys_with_prefix ::
  "('k, 'v) getter \<Rightarrow> 'k to_bytes \<Rightarrow> digest \<Rightarrow> bytes \<Rightarrow> (storage_error, 'k list) result option" where
  "read_keys_with_prefix get ktb root pre =
     loop_bind (keys_with_prefix get root pre) (\<lambda>keys_iter. collect_keys get ktb keys_iter [])"

section \<open>The keys below a node\<close>

inductive keys_below :: "('k, 'v) getter \<Rightarrow> ('k, 'v) trie \<Rightarrow> 'k list \<Rightarrow> bool" for get where
  kb_leaf: "keys_below get (Leaf k v) [k]"
| kb_node: "\<forall>i ptr. pb i = Some ptr \<longrightarrow> (\<exists>t. get (pointer_hash ptr) = Ok (Some t) \<and> keys_below get t (f i)) \<Longrightarrow>
    \<forall>i. pb i = None \<longrightarrow> f i = [] \<Longrightarrow> keys_below get (Node pb) (concat (map (\<lambda>i. f (of_nat i)) [0..<RADIX]))"
| kb_ext: "get (pointer_hash ptr) = Ok (Some t) \<Longrightarrow> keys_below get t ks \<Longrightarrow> keys_below get (Extension affix ptr) ks"

lemma push_visited_simps [simp]:
  "ki_state (push_visited n it) = ki_state it" "ki_visited (push_visited n it) = n # ki_visited it"
  "ki_initial_descend (push_visited n it) = ki_initial_descend it"
  by (simp_all add: push_visited_def)

lemma descend_to_state: "descend_to get p path it it' = VContinue it'' \<Longrightarrow> ki_state it'' = ki_state it'"
  by (auto simp: descend_to_def split: result.splits option.splits)

lemma visit_state: "visit get ktb it t idx path = VContinue it' \<Longrightarrow> ki_state it' = ki_state it"
  by (cases t) (auto simp: Let_def split: result.splits option.splits if_splits list.splits dest!: descend_to_state)

lemma collect_unfold:
  assumes "ki_state it = KOk"
  shows "collect_keys get ktb it ret =
    (case ki_visited it of
       [] \<Rightarrow> Some (Ok ret)
     | n # visited \<Rightarrow>
         (case visit get ktb (it\<lparr>ki_visited := visited\<rparr>) (vt_trie n) (vt_maybe_index n) (vt_path n) of
            VReturn item it \<Rightarrow> loop_bind item (\<lambda>key. collect_keys get ktb it (ret @ [key]))
          | VContinue it \<Rightarrow> collect_keys get ktb it ret))"
proof -
  have it: "collect_keys get ktb it ret = Option.bind (next_loop get ktb it) (\<lambda>(item, it). case item of
      None \<Rightarrow> Some (Ok ret) | Some result \<Rightarrow> loop_bind result (\<lambda>key. collect_keys get ktb it (ret @ [key])))"
    if "ki_state it = KOk" for it
  proof -
    from that have "it\<lparr>ki_state := KOk\<rparr> = it" by (cases it) simp
    with that show ?thesis by (subst collect_keys.simps) (simp only: keys_next_def Let_def keys_iterator_state.case)
  qed
  show ?thesis
    unfolding it [OF assms] using assms
    by (subst next_loop.simps) (auto split: list.split visit_outcome.split simp: it dest!: visit_state)
qed

text \<open>An iterator that is past its descent.\<close>

abbreviation iter :: "bytes \<Rightarrow> ('k, 'v) visited_trie_node list \<Rightarrow> ('k, 'v) keys_iterator" where
  "iter d visited \<equiv> \<lparr>ki_initial_descend = d, ki_visited = visited, ki_state = KOk\<rparr>"

abbreviation vnode :: "('k, 'v) trie \<Rightarrow> nat option \<Rightarrow> bytes \<Rightarrow> ('k, 'v) visited_trie_node" where
  "vnode t i p \<equiv> \<lparr>vt_trie = t, vt_maybe_index = i, vt_path = p\<rparr>"

lemma collect_done [simp]: "collect_keys get ktb (iter d []) ret = Some (Ok ret)"
  by (simp add: collect_unfold)

lemma next_pointer_unfold:
  "i < RADIX \<Longrightarrow> pb (of_nat i) = Some ptr \<Longrightarrow> next_pointer pb descending i = Some (i, ptr)"
  "i < RADIX \<Longrightarrow> pb (of_nat i) = None \<Longrightarrow> next_pointer pb True i = None"
  "i < RADIX \<Longrightarrow> pb (of_nat i) = None \<Longrightarrow> next_pointer pb False i = next_pointer pb False (Suc i)"
  "next_pointer pb descending RADIX = None"
  by (simp_all add: next_pointer.simps [of pb _ i] next_pointer.simps [of pb _ RADIX])

text \<open>Skipping an empty slot of a node does not change what is collected from it.\<close>

lemma collect_skip:
  assumes "i < RADIX" "pb (of_nat i) = None"
  shows "collect_keys get ktb (iter [] (vnode (Node pb) (Some i) p # rest)) ret =
    collect_keys get ktb (iter [] (vnode (Node pb) (Some (Suc i)) p # rest)) ret"
  using next_pointer_unfold(3) [where pb = pb, OF assms] by (simp add: collect_unfold [of "iter [] (_ # _)"])

lemma collect_child:
  assumes "i < RADIX" "pb (of_nat i) = Some ptr" "get (pointer_hash ptr) = Ok (Some t)"
  shows "collect_keys get ktb (iter [] (vnode (Node pb) (Some i) p # rest)) ret =
    collect_keys get ktb (iter [] (vnode t None (p @ [of_nat i]) # vnode (Node pb) (Some (Suc i)) p # rest)) ret"
  using next_pointer_unfold(1) [where pb = pb, OF assms(1,2)] assms(3)
  by (simp add: collect_unfold [of "iter [] (vnode (Node pb) (Some i) p # rest)"] descend_to_def push_visited_def)

lemma collect_node:
  assumes "\<And>j ptr rest ret. i \<le> j \<Longrightarrow> j < RADIX \<Longrightarrow> pb (of_nat j) = Some ptr \<Longrightarrow> \<exists>t. get (pointer_hash ptr) = Ok (Some t) \<and>
      collect_keys get ktb (iter [] (vnode t None (p @ [of_nat j]) # rest)) ret = collect_keys get ktb (iter [] rest) (ret @ f (of_nat j))"
    and "\<forall>j. pb j = None \<longrightarrow> f j = []" "i \<le> RADIX"
  shows "collect_keys get ktb (iter [] (vnode (Node pb) (Some i) p # rest)) ret =
    collect_keys get ktb (iter [] rest) (ret @ concat (map (\<lambda>i. f (of_nat i)) [i..<RADIX]))"
  using assms(3,1)
proof (induction i arbitrary: ret rule: inc_induct)
  case base
  then show ?case by (simp add: collect_unfold [of "iter [] (_ # _)"] next_pointer_unfold(4))
next
  case (step i)
  have split: "[i..<RADIX] = i # [Suc i..<RADIX]" using step.hyps by (simp add: upt_rec)
  have IH: "collect_keys get ktb (iter [] (vnode (Node pb) (Some (Suc i)) p # rest)) ret =
    collect_keys get ktb (iter [] rest) (ret @ concat (map (\<lambda>i. f (of_nat i)) [Suc i..<RADIX]))" for ret
    by (rule step.IH) (use step.prems in auto)
  show ?case
  proof (cases "pb (of_nat i)")
    case None
    with assms(2) show ?thesis by (simp add: IH split collect_skip [where pb = pb, OF step.hyps(2) None])
  next
    case (Some ptr)
    from step.prems [OF order_refl step.hyps(2) Some] obtain t where t: "get (pointer_hash ptr) = Ok (Some t)" by blast
    with step.prems [OF order_refl step.hyps(2) Some] have "collect_keys get ktb (iter [] (vnode t None (p @ [of_nat i]) # rest)) ret =
      collect_keys get ktb (iter [] rest) (ret @ f (of_nat i))" for rest ret by (metis option.inject result.inject(1))
    then show ?thesis by (simp add: IH split collect_child [where pb = pb and get = get, OF step.hyps(2) Some t])
  qed
qed

lemma collect_index_none:
  "collect_keys get ktb (iter [] (vnode (Node pb) None p # rest)) ret = collect_keys get ktb (iter [] (vnode (Node pb) (Some 0) p # rest)) ret"
  by (simp add: collect_unfold [of "iter [] (_ # _)"])

inductive_cases kb_leafE: "keys_below get (Leaf k v) ks"
inductive_cases kb_nodeE: "keys_below get (Node pb) ks"
inductive_cases kb_extE: "keys_below get (Extension affix ptr) ks"

lemma keys_below_nodeD:
  assumes "keys_below get (Node pb) ks"
  obtains f where "ks = concat (map (\<lambda>i. f (of_nat i)) [0..<RADIX])" "\<And>i. pb i = None \<Longrightarrow> f i = []"
    "\<And>i ptr t. pb i = Some ptr \<Longrightarrow> get (pointer_hash ptr) = Ok (Some t) \<Longrightarrow> keys_below get t (f i)"
  using assms by (rule kb_nodeE) (metis option.inject result.inject(1))

lemma byte_index: "unat (i :: u8) < RADIX" "of_nat (unat i) = i"
  by (simp_all add: RADIX_def)

lemma concat_bytes: "set (concat (map (\<lambda>i. f (of_nat i :: u8)) [0..<RADIX])) = (\<Union>i. set (f i))"
proof (intro set_eqI iffI)
  fix x assume "x \<in> (\<Union>i. set (f i))"
  then obtain i where "x \<in> set (f i)" by blast
  then have "x \<in> set (f (of_nat (unat i)))" by simp
  with byte_index(1) [of i] show "x \<in> set (concat (map (\<lambda>i. f (of_nat i)) [0..<RADIX]))"
    by (auto intro!: bexI [of _ "unat i"])
qed auto

lemma filter_concat_one:
  assumes "\<And>j. j \<noteq> i \<Longrightarrow> filter P (f j) = []"
  shows "filter P (concat (map (\<lambda>i. f (of_nat i :: u8)) [0..<RADIX])) = filter P (f i)"
proof -
  have split: "[0..<RADIX] = [0..<unat i] @ unat i # [Suc (unat i)..<RADIX]"
    using byte_index(1) [of i] upt_add_eq_append [of 0 "unat i" "RADIX - unat i"] by (simp add: upt_conv_Cons)
  have "(of_nat j :: u8) \<noteq> i" if "j < RADIX" "j \<noteq> unat i" for j
    using that by (auto simp: RADIX_def unat_of_nat_eq)
  then have "filter P (f (of_nat j)) = []" if "j < RADIX" "j \<noteq> unat i" for j
    using that assms by blast
  then have "concat (map (\<lambda>j. filter P (f (of_nat j))) [0..<unat i]) = []" "concat (map (\<lambda>j. filter P (f (of_nat j))) [Suc (unat i)..<RADIX]) = []"
    using byte_index(1) [of i] by simp_all
  then show ?thesis by (simp add: split filter_concat comp_def byte_index(2) del: concat_eq_Nil_conv)
qed

lemma sorted_wrt_concat_map:
  assumes "\<And>i. i < n \<Longrightarrow> sorted_wrt R (g i)"
    and "\<And>i j x y. i < j \<Longrightarrow> j < n \<Longrightarrow> x \<in> set (g i) \<Longrightarrow> y \<in> set (g j) \<Longrightarrow> R x y"
  shows "sorted_wrt R (concat (map g [0..<n]))"
  using assms by (induction n) (auto simp: sorted_wrt_append less_Suc_eq)

lemma prefix_affix:
  "prefix d (affix @ q) \<longleftrightarrow> prefix (take (min (length d) (length affix)) d) affix \<and> prefix (drop (min (length d) (length affix)) d) q"
  by (induction d affix rule: list_induct2') auto

context trie_keys
begin

lemma wf_keys_below: "wf get p t \<Longrightarrow> \<exists>ks. keys_below get t ks"
proof (induction rule: wf_trie.induct)
  case (wf_node pb p)
  let ?P = "\<lambda>i ks. (pb i = None \<longrightarrow> ks = []) \<and> (\<forall>ptr. pb i = Some ptr \<longrightarrow> (\<exists>t. get (pointer_hash ptr) = Ok (Some t) \<and> keys_below get t ks))"
  have "\<exists>ks. ?P i ks" for i
  proof (cases "pb i")
    case (Some ptr)
    with wf_node(1) obtain t ks where "get (pointer_hash ptr) = Ok (Some t)" "keys_below get t ks" by blast
    with Some show ?thesis by auto
  qed simp
  then obtain f where "\<forall>i. ?P i (f i)" using choice [of ?P] by blast
  then have "keys_below get (Node pb) (concat (map (\<lambda>i. f (of_nat i)) [0..<RADIX]))" by (intro kb_node) auto
  then show ?case ..
next
  case (wf_ext p affix h pb)
  then show ?case using kb_ext [of get "NodePointer h" "Node pb"] by auto
qed (blast intro: kb_leaf)

lemma keys_below_set: "wf get p t \<Longrightarrow> keys_below get t ks \<Longrightarrow> set ks = {k. \<exists>v. entry get p t k v}"
proof (induction arbitrary: ks rule: wf_trie.induct)
  case (wf_leaf k p q v)
  then show ?case by (auto simp: trie_entry_leaf elim: kb_leafE)
next
  case (wf_node pb p)
  from wf_node(3) obtain f where f: "ks = concat (map (\<lambda>i. f (of_nat i)) [0..<RADIX])" "\<And>i. pb i = None \<Longrightarrow> f i = []"
    "\<And>i ptr t. pb i = Some ptr \<Longrightarrow> get (pointer_hash ptr) = Ok (Some t) \<Longrightarrow> keys_below get t (f i)"
    by (rule keys_below_nodeD) blast
  have "set (f i) = {k. \<exists>v ptr t. pb i = Some ptr \<and> get (pointer_hash ptr) = Ok (Some t) \<and> entry get (p @ [i]) t k v}" for i
  proof (cases "pb i")
    case (Some ptr)
    with wf_node(1) obtain t where t: "get (pointer_hash ptr) = Ok (Some t)" "\<And>ks. keys_below get t ks \<Longrightarrow> set ks = {k. \<exists>v. entry get (p @ [i]) t k v}"
      by blast
    with f(3) [OF Some t(1)] Some show ?thesis by auto
  qed (simp add: f(2))
  then show ?case unfolding f(1) concat_bytes by (auto simp: trie_entry_node)
next
  case (wf_ext p affix h pb)
  then show ?case by (auto simp: trie_entry_ext elim!: kb_extE)
qed

lemma keys_below_path: "wf get p t \<Longrightarrow> keys_below get t ks \<Longrightarrow> k \<in> set ks \<Longrightarrow> kok k \<and> prefix p (path k)"
  using keys_below_set [of get p t ks] by (auto simp: trie_entry_def)

lemma keys_below_children:
  assumes "wf get p (Node pb)" "keys_below get (Node pb) ks"
  obtains f where "ks = concat (map (\<lambda>i. f (of_nat i)) [0..<RADIX])" "\<And>i. pb i = None \<Longrightarrow> f i = []"
    "\<And>i ptr. pb i = Some ptr \<Longrightarrow> \<exists>t. get (pointer_hash ptr) = Ok (Some t) \<and> wf get (p @ [i]) t \<and> keys_below get t (f i)"
    "\<And>i k. k \<in> set (f i) \<Longrightarrow> kok k \<and> (\<exists>q. path k = p @ i # q)"
proof -
  from assms(2) obtain f where f: "ks = concat (map (\<lambda>i. f (of_nat i)) [0..<RADIX])" "\<And>i. pb i = None \<Longrightarrow> f i = []"
    "\<And>i ptr t. pb i = Some ptr \<Longrightarrow> get (pointer_hash ptr) = Ok (Some t) \<Longrightarrow> keys_below get t (f i)"
    by (rule keys_below_nodeD) blast
  have child: "\<exists>t. get (pointer_hash ptr) = Ok (Some t) \<and> wf get (p @ [i]) t \<and> keys_below get t (f i)" if "pb i = Some ptr" for i ptr
    using f(3) [OF that] wf_nodeD [OF assms(1)] that by blast
  have "kok k \<and> (\<exists>q. path k = p @ i # q)" if "k \<in> set (f i)" for i k
  proof -
    from that f(2) [of i] obtain ptr where "pb i = Some ptr" by (cases "pb i") auto
    with child [OF this] that keys_below_path show ?thesis by (fastforce elim: prefixE)
  qed
  with f(1,2) child show thesis by (rule that)
qed

lemma keys_below_sorted:
  "wf get p t \<Longrightarrow> keys_below get t ks \<Longrightarrow> sorted_wrt (\<lambda>k k'. ord_class.lexordp (path k) (path k')) ks"
proof (induction arbitrary: ks rule: wf_trie.induct)
  case (wf_node pb p)
  have "wf get p (Node pb)" using wf_node(1,2) by (intro wf_trie.wf_node) meson+
  from keys_below_children [OF this wf_node(3)] obtain f where f: "ks = concat (map (\<lambda>i. f (of_nat i)) [0..<RADIX])" "\<And>i. pb i = None \<Longrightarrow> f i = []"
    "\<And>i ptr. pb i = Some ptr \<Longrightarrow> \<exists>t. get (pointer_hash ptr) = Ok (Some t) \<and> wf get (p @ [i]) t \<and> keys_below get t (f i)"
    "\<And>i k. k \<in> set (f i) \<Longrightarrow> kok k \<and> (\<exists>q. path k = p @ i # q)" by blast
  show ?case unfolding f(1)
  proof (rule sorted_wrt_concat_map)
    fix i show "sorted_wrt (\<lambda>k k'. ord_class.lexordp (path k) (path k')) (f (of_nat i))"
    proof (cases "pb (of_nat i)")
      case (Some ptr)
      from f(3) [OF Some] wf_node(1) Some show ?thesis by fastforce
    qed (simp add: f(2))
  next
    fix i j x y assume a: "i < j" "j < RADIX" "x \<in> set (f (of_nat i))" "y \<in> set (f (of_nat j))"
    then have "(of_nat i :: u8) < of_nat j" by (simp add: RADIX_def word_less_nat_alt unat_of_nat_eq)
    with f(4) [OF a(3)] f(4) [OF a(4)] show "ord_class.lexordp (path x) (path y)" by (auto intro!: lexordp_append_leftI)
  qed
qed (auto elim: kb_leafE kb_extE)

lemma collect_all:
  assumes "\<And>k. kok k \<Longrightarrow> ktb k = Ok (path k)"
  shows "wf get p t \<Longrightarrow> keys_below get t ks \<Longrightarrow>
    collect_keys get ktb (iter [] (vnode t None p # rest)) ret = collect_keys get ktb (iter [] rest) (ret @ ks)"
proof (induction arbitrary: ks rest ret rule: wf_trie.induct)
  case (wf_leaf k p q v)
  then show ?case by (auto simp: collect_unfold [of "iter [] (_ # _)"] assms elim: kb_leafE)
next
  case (wf_node pb p)
  have "wf get p (Node pb)" using wf_node(1,2) by (intro wf_trie.wf_node) meson+
  from keys_below_children [OF this wf_node(3)] obtain f where f: "ks = concat (map (\<lambda>i. f (of_nat i)) [0..<RADIX])" "\<And>i. pb i = None \<Longrightarrow> f i = []"
    "\<And>i ptr. pb i = Some ptr \<Longrightarrow> \<exists>t. get (pointer_hash ptr) = Ok (Some t) \<and> wf get (p @ [i]) t \<and> keys_below get t (f i)" by blast
  show ?case unfolding f(1) collect_index_none
  proof (rule collect_node)
    fix j ptr rest ret assume j: "pb (of_nat j) = Some ptr"
    from f(3) [OF j] wf_node(1) j show "\<exists>t. get (pointer_hash ptr) = Ok (Some t) \<and>
      collect_keys get ktb (iter [] (vnode t None (p @ [of_nat j]) # rest)) ret = collect_keys get ktb (iter [] rest) (ret @ f (of_nat j))"
      by (metis option.inject result.inject(1))
  qed (use f(2) in auto)
next
  case (wf_ext p affix h pb)
  from wf_ext(6) wf_ext(3) have "keys_below get (Node pb) ks" by (auto elim: kb_extE)
  with wf_ext(5) [OF this] wf_ext(3) show ?case
    by (simp add: collect_unfold [of "iter [] (vnode (Extension _ _) None p # rest)"] descend_to_def push_visited_def)
qed

lemma collect_descend:
  assumes "\<And>k. kok k \<Longrightarrow> ktb k = Ok (path k)"
  shows "wf get p t \<Longrightarrow> keys_below get t ks \<Longrightarrow>
    collect_keys get ktb (iter d [vnode t None p]) [] = Some (Ok (filter (\<lambda>k. prefix (p @ d) (path k)) ks))"
proof (induction arbitrary: ks d rule: wf_trie.induct)
  case (wf_leaf k p q v)
  then show ?case by (auto simp: collect_unfold [of "iter _ (_ # _)"] assms elim: kb_leafE)
next
  case (wf_node pb p)
  have w: "wf get p (Node pb)" using wf_node(1,2) by (intro wf_trie.wf_node) meson+
  from keys_below_children [OF this wf_node(3)] obtain f where f: "ks = concat (map (\<lambda>i. f (of_nat i)) [0..<RADIX])" "\<And>i. pb i = None \<Longrightarrow> f i = []"
    "\<And>i ptr. pb i = Some ptr \<Longrightarrow> \<exists>t. get (pointer_hash ptr) = Ok (Some t) \<and> wf get (p @ [i]) t \<and> keys_below get t (f i)"
    "\<And>i k. k \<in> set (f i) \<Longrightarrow> kok k \<and> (\<exists>q. path k = p @ i # q)" by blast
  show ?case
  proof (cases d)
    case Nil
    have "filter (\<lambda>k. prefix p (path k)) ks = ks" using keys_below_path [OF w wf_node(3)] by simp
    with Nil collect_all [OF assms w wf_node(3), where rest = "[]" and ret = "[]"] show ?thesis by simp
  next
    case (Cons i d')
    have "filter (\<lambda>k. prefix (p @ d) (path k)) (f j) = []" if "j \<noteq> i" for j
      using f(4) [of _ j] that Cons by (fastforce simp: filter_empty_conv)
    from filter_concat_one [where f = f, OF this] have ks: "filter (\<lambda>k. prefix (p @ d) (path k)) ks = filter (\<lambda>k. prefix ((p @ [i]) @ d') (path k)) (f i)"
      by (simp add: f(1) Cons)
    show ?thesis
    proof (cases "pb i")
      case None
      with ks f(2) [OF None] Cons next_pointer_unfold(2) [of "unat i" pb] show ?thesis
        by (simp add: collect_unfold [of "iter _ (_ # _)"] byte_index)
    next
      case (Some ptr)
      from f(3) [OF Some] wf_node(1) Some obtain t where t: "get (pointer_hash ptr) = Ok (Some t)" "keys_below get t (f i)"
        "collect_keys get ktb (iter d' [vnode t None (p @ [i])]) [] = Some (Ok (filter (\<lambda>k. prefix ((p @ [i]) @ d') (path k)) (f i)))"
        by (metis option.inject result.inject(1))
      with Some ks Cons next_pointer_unfold(1) [of "unat i" pb ptr True] show ?thesis
        by (simp add: collect_unfold [of "iter (i # d') (_ # _)"] byte_index descend_to_def push_visited_def)
    qed
  qed
next
  case (wf_ext p affix h pb)
  let ?n = "min (length d) (length affix)"
  from wf_ext(6) wf_ext(3) have kb: "keys_below get (Node pb) ks" by (auto elim: kb_extE)
  have keys: "prefix (p @ d) (path k) \<longleftrightarrow> prefix (take ?n d) affix \<and> prefix ((p @ affix) @ drop ?n d) (path k)" if "k \<in> set ks" for k
  proof -
    from keys_below_path [OF wf_ext(4) kb that] obtain q where "path k = p @ affix @ q" by (auto elim!: prefixE)
    then show ?thesis using prefix_affix [of d affix q] by simp
  qed
  show ?case
  proof (cases "prefix (take ?n d) affix")
    case True
    with keys have "filter (\<lambda>k. prefix (p @ d) (path k)) ks = filter (\<lambda>k. prefix ((p @ affix) @ drop ?n d) (path k)) ks"
      by (intro filter_cong) auto
    with True wf_ext(5) [OF kb, of "drop ?n d"] wf_ext(3) show ?thesis
      by (simp add: collect_unfold [of "iter d [vnode (Extension _ _) None p]"] descend_to_def push_visited_def Let_def)
  next
    case False
    with keys have "filter (\<lambda>k. prefix (p @ d) (path k)) ks = []" by (auto simp: filter_empty_conv)
    with False show ?thesis
      by (simp add: collect_unfold [of "iter d [vnode (Extension _ _) None p]"] Let_def)
  qed
qed

end

context trie_world
begin

lemma keys_with_prefix_lists:
  assumes "get st r = Ok (Some root)" "wf (get st) [] root"
  obtains ks where "read_keys_with_prefix (get st) ktb r pre = Some (Ok ks)"
    "sorted_wrt (\<lambda>k k'. ord_class.lexordp (path k) (path k')) ks"
    "\<And>k. k \<in> set ks \<longleftrightarrow> kok k \<and> prefix pre (path k) \<and> (\<exists>v. trie_read (get st) ktb r k = Some (Ok (Found v)))"
proof -
  from wf_keys_below [OF assms(2)] obtain ks where ks: "keys_below (get st) root ks" ..
  let ?ks = "filter (\<lambda>k. prefix pre (path k)) ks"
  have "read_keys_with_prefix (get st) ktb r pre = Some (Ok ?ks)"
    using collect_descend [OF ktb_path assms(2) ks, of pre] assms(1) by (simp add: read_keys_with_prefix_def keys_with_prefix_def)
  moreover have "sorted_wrt (\<lambda>k k'. ord_class.lexordp (path k) (path k')) ?ks"
    using keys_below_sorted [OF assms(2) ks] by (rule sorted_wrt_filter)
  moreover have "k \<in> set ?ks \<longleftrightarrow> kok k \<and> prefix pre (path k) \<and> (\<exists>v. trie_read (get st) ktb r k = Some (Ok (Found v)))" for k
    using keys_below_set [OF assms(2) ks] entry_read [OF assms] by (auto simp: trie_entry_def)
  ultimately show thesis by (rule that)
qed

end

lemma lexordp_sorted_distinct:
  "sorted_wrt (\<lambda>k k'. ord_class.lexordp (path k :: bytes) (path k')) ks \<Longrightarrow> distinct ks"
proof (induction ks)
  case (Cons k ks)
  then have "k \<notin> set ks" using lexordp_irreflexive' [of "path k"] by auto
  with Cons show ?case by simp
qed simp

lemma memory_keys_with_prefix:
  assumes "good_root kv kc vv vc h blake2b tree_fold1 txn r"
  obtains ks where "read_keys_with_prefix (mem_get kc vc h txn) (cd_tb kc) r pre = Some (Ok ks)"
    "sorted_wrt (\<lambda>k k'. ord_class.lexordp (key_path kc k) (key_path kc k')) ks"
    "\<And>k. k \<in> set ks \<longleftrightarrow> kv k \<and> prefix pre (key_path kc k) \<and>
       (\<exists>v. trie_read (mem_get kc vc h txn) (cd_tb kc) r k = Some (Ok (Found v)))"
proof -
  from assms obtain pb where g: "lawful_codecs kv kc vv vc" "mem_get kc vc h txn r = Ok (Some (Node pb))"
      "wf_trie (\<lambda>k. lawful_codecs kv kc vv vc \<and> kv k) (key_path kc) (mem_get kc vc h txn) [] (Node pb)"
    by (auto simp: good_root_def)
  show thesis by (rule memory_trie.keys_with_prefix_lists [OF g(2,3)]) (use that g(1) in blast)
qed

end
