(* ===== verification/Global_State.thy ===== *)
theory Global_State
  imports Tracking_Copy Trie_Keys
begin

text \<open>
  The global state of \<^verbatim>\<open>execution_engine/src/storage/global_state/mod.rs\<close> and its in-memory provider
  (\<^verbatim>\<open>global_state/in_memory.rs\<close>): reading under a root, committing the effects of an execution and writing a set of stored
  values, all inside one transaction over the trie. The iteration order of the hash map of effects is the order of a list of
  entries with distinct keys; nothing else is assumed of it.
\<close>

section \<open>Errors\<close>

datatype commit_error =
    CERootNotFound digest
  | CEReadRootNotFound digest
  | CEWriteRootNotFound digest
  | CEKeyNotFound key
  | CETransformError transform_error
  | CETrieNotFoundInCache digest

datatype global_error = GStorage storage_error | GCommit commit_error

section \<open>Operations over any trie store\<close>

record 't trie_backend =
  tb_get :: "'t \<Rightarrow> (key, stored_value) getter"
  tb_put :: "'t \<Rightarrow> digest \<Rightarrow> (key, stored_value) trie \<Rightarrow> (storage_error, 't) result"
  tb_hash :: "(key, stored_value) hasher"

text \<open>The value to write, from what was read and the transform.\<close>

fun commit_value :: "digest \<Rightarrow> key \<Rightarrow> stored_value read_result \<Rightarrow> transform \<Rightarrow> (global_error, stored_value) result" where
  "commit_value state_root key NotFound (TWrite new_value) = Ok new_value"
| "commit_value state_root key NotFound transform = Err (GCommit (CEKeyNotFound key))"
| "commit_value state_root key (Found current_value) transform =
     map_err (\<lambda>err. GCommit (CETransformError err)) (transform_apply transform current_value)"
| "commit_value state_root key RootNotFound transform = Err (GCommit (CEReadRootNotFound state_root))"

definition after_write :: "digest \<Rightarrow> write_result \<Rightarrow> (global_error, digest) result" where
  "after_write state_root write_result =
     (case write_result of
        Written new_root \<Rightarrow> Ok new_root
      | AlreadyExists \<Rightarrow> Ok state_root
      | WriteRootNotFound \<Rightarrow> Err (GCommit (CEWriteRootNotFound state_root)))"

definition write_value ::
  "'t trie_backend \<Rightarrow> 't \<Rightarrow> digest \<Rightarrow> key \<Rightarrow> stored_value \<Rightarrow> (global_error, 't \<times> digest) result option" where
  "write_value B txn state_root key value =
     map_option (\<lambda>w. res_bind (map_err GStorage w) (\<lambda>(txn, write_result).
         res_bind (after_write state_root write_result) (\<lambda>state_root. Ok (txn, state_root))))
       (trie_write (tb_get B) (tb_put B) (tb_hash B) key_to_bytes txn state_root key value)"

fun commit_loop ::
  "'t trie_backend \<Rightarrow> (key \<times> transform) list \<Rightarrow> 't \<Rightarrow> digest \<Rightarrow> (global_error, 't \<times> digest) result option" where
  "commit_loop B [] txn state_root = Some (Ok (txn, state_root))"
| "commit_loop B ((key, transform) # effects) txn state_root =
     Option.bind (trie_read (tb_get B txn) key_to_bytes state_root key) (\<lambda>r. loop_bind (map_err GStorage r) (\<lambda>read_result.
     loop_bind (commit_value state_root key read_result transform) (\<lambda>value.
     Option.bind (write_value B txn state_root key value) (\<lambda>w. loop_bind w (\<lambda>(txn, state_root).
     commit_loop B effects txn state_root)))))"

definition commit ::
  "'t trie_backend \<Rightarrow> 't \<Rightarrow> digest \<Rightarrow> (key \<times> transform) list \<Rightarrow> (global_error, 't \<times> digest) result option" where
  "commit B txn prestate_hash effects =
     loop_bind (map_err GStorage (tb_get B txn prestate_hash)) (\<lambda>maybe_root.
     case maybe_root of
       None \<Rightarrow> Some (Err (GCommit (CERootNotFound prestate_hash)))
     | Some _ \<Rightarrow> commit_loop B effects txn prestate_hash)"

fun put_values_loop ::
  "'t trie_backend \<Rightarrow> (key \<times> stored_value) list \<Rightarrow> 't \<Rightarrow> digest \<Rightarrow> (global_error, 't \<times> digest) result option" where
  "put_values_loop B [] txn state_root = Some (Ok (txn, state_root))"
| "put_values_loop B ((key, value) # stored_values) txn state_root =
     Option.bind (write_value B txn state_root key value) (\<lambda>w. loop_bind w (\<lambda>(txn, state_root).
     put_values_loop B stored_values txn state_root))"

definition put_stored_values ::
  "'t trie_backend \<Rightarrow> 't \<Rightarrow> digest \<Rightarrow> (key \<times> stored_value) list \<Rightarrow> (global_error, 't \<times> digest) result option" where
  "put_stored_values B txn prestate_hash stored_values =
     loop_bind (map_err GStorage (tb_get B txn prestate_hash)) (\<lambda>maybe_root.
     case maybe_root of
       None \<Rightarrow> Some (Err (GCommit (CERootNotFound prestate_hash)))
     | Some _ \<Rightarrow> put_values_loop B stored_values txn prestate_hash)"

section \<open>The in-memory provider\<close>

definition memory_backend :: "curves \<Rightarrow> heap \<Rightarrow> blake2b \<Rightarrow> digest tree_fold1 \<Rightarrow> handle \<Rightarrow> tables trie_backend" where
  "memory_backend cv h blake2b tree_fold1 handle =
     \<lparr>tb_get = mem_get key_codec (stored_value_codec cv h) handle, tb_put = mem_put key_codec (stored_value_codec cv h) handle,
      tb_hash = trie_hash key_codec (stored_value_codec cv h) blake2b tree_fold1\<rparr>"

text \<open>A transaction works on a copy of the data; only a successful one is merged back.\<close>

definition memory_commit ::
  "curves \<Rightarrow> heap \<Rightarrow> blake2b \<Rightarrow> digest tree_fold1 \<Rightarrow> handle \<Rightarrow> tables \<Rightarrow> digest \<Rightarrow> (key \<times> transform) list \<Rightarrow>
   tables \<times> (global_error, digest) result option" where
  "memory_commit cv h blake2b tree_fold1 handle data prestate_hash effects =
     (case commit (memory_backend cv h blake2b tree_fold1 handle) data prestate_hash effects of
        Some (Ok (view, root)) \<Rightarrow> (in_memory_commit data view, Some (Ok root))
      | Some (Err e) \<Rightarrow> (data, Some (Err e))
      | Some Panic \<Rightarrow> (data, Some Panic)
      | None \<Rightarrow> (data, None))"

fun read_or_panic :: "'a read_result \<Rightarrow> ('e, 'a option) result" where
  "read_or_panic (Found v) = Ok (Some v)"
| "read_or_panic NotFound = Ok None"
| "read_or_panic RootNotFound = Panic"

definition memory_view_read ::
  "curves \<Rightarrow> heap \<Rightarrow> handle \<Rightarrow> tables \<Rightarrow> digest \<Rightarrow> key \<Rightarrow> (storage_error, stored_value option) result option" where
  "memory_view_read cv h handle data root key =
     map_option (\<lambda>r. res_bind r read_or_panic) (trie_read (mem_get key_codec (stored_value_codec cv h) handle data) key_to_bytes root key)"

definition memory_view_read_with_proof ::
  "curves \<Rightarrow> heap \<Rightarrow> handle \<Rightarrow> tables \<Rightarrow> digest \<Rightarrow> key \<Rightarrow>
   (storage_error, (key, stored_value) trie_merkle_proof option) result option" where
  "memory_view_read_with_proof cv h handle data root key =
     map_option (\<lambda>r. res_bind r read_or_panic)
       (read_with_proof (mem_get key_codec (stored_value_codec cv h) handle data) key_to_bytes root key)"

definition memory_view_keys_with_prefix ::
  "curves \<Rightarrow> heap \<Rightarrow> handle \<Rightarrow> tables \<Rightarrow> digest \<Rightarrow> bytes \<Rightarrow> (storage_error, key list) result option" where
  "memory_view_keys_with_prefix cv h handle data root pre =
     read_keys_with_prefix (mem_get key_codec (stored_value_codec cv h) handle data) key_to_bytes root pre"

definition memory_checkout ::
  "curves \<Rightarrow> heap \<Rightarrow> handle \<Rightarrow> tables \<Rightarrow> digest \<Rightarrow> (storage_error, storage_error state_reader option) result" where
  "memory_checkout cv h handle data prestate_hash =
     res_bind (mem_get key_codec (stored_value_codec cv h) handle data prestate_hash) (\<lambda>maybe_root.
     Ok (map_option (\<lambda>_. \<lparr>sr_read = memory_view_read cv h handle data prestate_hash,
       sr_read_with_proof = memory_view_read_with_proof cv h handle data prestate_hash,
       sr_keys_with_prefix = memory_view_keys_with_prefix cv h handle data prestate_hash\<rparr>) maybe_root))"

section \<open>The state under a root\<close>

abbreviation state_root_ok :: "curves \<Rightarrow> heap \<Rightarrow> blake2b \<Rightarrow> digest tree_fold1 \<Rightarrow> handle \<Rightarrow> tables \<Rightarrow> digest \<Rightarrow> bool" where
  "state_root_ok cv h blake2b tree_fold1 handle txn r \<equiv>
     good_root key_valid key_codec (stored_value_valid cv h) (stored_value_codec cv h) handle blake2b tree_fold1 txn r"

definition root_state :: "curves \<Rightarrow> heap \<Rightarrow> handle \<Rightarrow> tables \<Rightarrow> digest \<Rightarrow> state" where
  "root_state cv h handle txn r = (\<lambda>k.
     if key_valid k then
       (case trie_read (mem_get key_codec (stored_value_codec cv h) handle txn) key_to_bytes r k of
          Some (Ok (Found v)) \<Rightarrow> Some v | _ \<Rightarrow> None)
     else None)"

lemma memory_backend_simps [simp]:
  "tb_get (memory_backend cv h blake2b tree_fold1 handle) = mem_get key_codec (stored_value_codec cv h) handle"
  "tb_put (memory_backend cv h blake2b tree_fold1 handle) = mem_put key_codec (stored_value_codec cv h) handle"
  "tb_hash (memory_backend cv h blake2b tree_fold1 handle) = trie_hash key_codec (stored_value_codec cv h) blake2b tree_fold1"
  by (simp_all add: memory_backend_def)

lemma root_state_read:
  assumes "state_root_ok cv h blake2b tree_fold1 handle txn r" "key_valid k"
  shows "trie_read (mem_get key_codec (stored_value_codec cv h) handle txn) key_to_bytes r k =
    Some (Ok (as_read_result (root_state cv h handle txn r k)))"
proof -
  from memory_read_total [OF assms] obtain res where
    "trie_read (mem_get key_codec (stored_value_codec cv h) handle txn) key_to_bytes r k = Some (Ok res)" "res \<noteq> RootNotFound" by auto
  then show ?thesis using assms(2) by (cases res) (simp_all add: root_state_def as_read_result_def)
qed

lemma view_keys_with_prefix:
  assumes "state_root_ok cv h blake2b tree_fold1 handle data r"
  obtains ks where "memory_view_keys_with_prefix cv h handle data r pre = Some (Ok ks)"
    "set ks = {k. root_state cv h handle data r k \<noteq> None \<and> prefix pre (key_path key_codec k)}"
    "sorted_wrt (\<lambda>k k'. ord_class.lexordp (key_path key_codec k) (key_path key_codec k')) ks"
proof -
  from memory_keys_with_prefix [OF assms, of pre] obtain ks where ks:
    "memory_view_keys_with_prefix cv h handle data r pre = Some (Ok ks)"
    "sorted_wrt (\<lambda>k k'. ord_class.lexordp (key_path key_codec k) (key_path key_codec k')) ks"
    "\<And>k. k \<in> set ks \<longleftrightarrow> key_valid k \<and> prefix pre (key_path key_codec k) \<and>
       (\<exists>v. trie_read (mem_get key_codec (stored_value_codec cv h) handle data) key_to_bytes r k = Some (Ok (Found v)))"
    by (auto simp: memory_view_keys_with_prefix_def)
  have "(\<exists>v. trie_read (mem_get key_codec (stored_value_codec cv h) handle data) key_to_bytes r k = Some (Ok (Found v))) \<longleftrightarrow>
      root_state cv h handle data r k \<noteq> None" if "key_valid k" for k
    using root_state_read [OF assms that] by (auto simp: as_read_result_def split: option.split)
  moreover have "root_state cv h handle data r k \<noteq> None \<Longrightarrow> key_valid k" for k by (simp add: root_state_def split: if_splits)
  ultimately have "set ks = {k. root_state cv h handle data r k \<noteq> None \<and> prefix pre (key_path key_codec k)}" using ks(3) by blast
  from that [OF ks(1) this ks(2)] show thesis .
qed

lemma checkout_reads:
  assumes "state_root_ok cv h blake2b tree_fold1 handle txn r"
  obtains reader where "memory_checkout cv h handle txn r = Ok (Some reader)" "reads_state reader (root_state cv h handle txn r)"
    "lists_state reader (root_state cv h handle txn r)"
proof -
  let ?reader = "\<lparr>sr_read = memory_view_read cv h handle txn r, sr_read_with_proof = memory_view_read_with_proof cv h handle txn r,
    sr_keys_with_prefix = memory_view_keys_with_prefix cv h handle txn r\<rparr>"
  from assms obtain pb where "mem_get key_codec (stored_value_codec cv h) handle txn r = Ok (Some (Node pb))" by (auto simp: good_root_def)
  then have "memory_checkout cv h handle txn r = Ok (Some ?reader)" by (simp add: memory_checkout_def)
  moreover have "reads_state ?reader (root_state cv h handle txn r)"
    using root_state_read [OF assms] by (auto simp: reads_state_def memory_view_read_def as_read_result_def split: option.split)
  moreover have "lists_state ?reader (root_state cv h handle txn r)"
    unfolding lists_state_def
  proof
    fix tag
    from view_keys_with_prefix [OF assms, of "[tag]"] obtain ks where "memory_view_keys_with_prefix cv h handle txn r [tag] = Some (Ok ks)"
      "set ks = {k. root_state cv h handle txn r k \<noteq> None \<and> prefix [tag] (key_path key_codec k)}" .
    moreover have "prefix [tag] (key_path key_codec k) \<longleftrightarrow> key_tag k = tag" for k by (auto simp: key_path_def key_to_bytes_eq)
    ultimately show "\<exists>ks. sr_keys_with_prefix ?reader [tag] = Some (Ok ks) \<and> set ks = keys_tagged (root_state cv h handle txn r) tag"
      by (simp add: keys_tagged_def)
  qed
  ultimately show thesis by (rule that)
qed

lemma write_value_correct:
  assumes "state_root_ok cv h blake2b tree_fold1 handle txn r" "key_valid k" "stored_value_valid cv h v"
    and "new_elements_collision_free (mem_get key_codec (stored_value_codec cv h) handle txn)
      (trie_hash key_codec (stored_value_codec cv h) blake2b tree_fold1) key_to_bytes r k v"
  obtains out where "write_value (memory_backend cv h blake2b tree_fold1 handle) txn r k v = Some out" "out \<noteq> Panic"
    "\<And>e. out = Err e \<Longrightarrow> \<exists>s. e = GStorage s"
    "\<And>txn' r'. out = Ok (txn', r') \<Longrightarrow> state_root_ok cv h blake2b tree_fold1 handle txn' r' \<and>
      root_state cv h handle txn' r' = (root_state cv h handle txn r)(k \<mapsto> v)"
proof -
  let ?get = "mem_get key_codec (stored_value_codec cv h) handle"
  let ?w = "trie_write ?get (mem_put key_codec (stored_value_codec cv h) handle) (trie_hash key_codec (stored_value_codec cv h) blake2b tree_fold1) key_to_bytes txn r k v"
  from memory_write_correct [OF assms(1-3)] assms(4) obtain w where w: "?w = Some w" "w \<noteq> Panic"
    and ok: "\<And>txn' res. w = Ok (txn', res) \<Longrightarrow>
      res = AlreadyExists \<and> txn' = txn \<and> trie_read (?get txn) key_to_bytes r k = Some (Ok (Found v)) \<or>
       (\<exists>r'. res = Written r' \<and> state_root_ok cv h blake2b tree_fold1 handle txn' r' \<and>
         (\<forall>k'. key_valid k' \<longrightarrow> trie_read (?get txn') key_to_bytes r' k' =
           (if k' = k then Some (Ok (Found v)) else trie_read (?get txn) key_to_bytes r k')))" by fastforce
  show thesis
  proof (cases w)
    case (Ok x)
    obtain txn' res where x: "x = (txn', res)" by (cases x)
    from ok [of txn' res] Ok x consider "res = AlreadyExists" "txn' = txn" "trie_read (?get txn) key_to_bytes r k = Some (Ok (Found v))"
      | r' where "res = Written r'" "state_root_ok cv h blake2b tree_fold1 handle txn' r'"
         "\<forall>k'. key_valid k' \<longrightarrow> trie_read (?get txn') key_to_bytes r' k' =
           (if k' = k then Some (Ok (Found v)) else trie_read (?get txn) key_to_bytes r k')" by blast
    then show thesis
    proof cases
      case 1
      then have "root_state cv h handle txn r = (root_state cv h handle txn r)(k \<mapsto> v)"
        using assms(2) by (auto simp: root_state_def fun_eq_iff)
      with 1 show thesis using w Ok x assms(1) by (intro that [of "Ok (txn, r)"]) (auto simp: write_value_def after_write_def)
    next
      case (2 r')
      then have "root_state cv h handle txn' r' = (root_state cv h handle txn r)(k \<mapsto> v)"
        using assms(2) by (auto simp: root_state_def fun_eq_iff)
      with 2 show thesis using w Ok x by (intro that [of "Ok (txn', r')"]) (auto simp: write_value_def after_write_def)
    qed
  next
    case (Err e)
    with w show thesis by (intro that [of "Err (GStorage e)"]) (auto simp: write_value_def)
  qed (use w in simp)
qed

section \<open>Committing\<close>

text \<open>Along a commit: the keys and the values to be written can be encoded, and the hash has no collision among the nodes of the
  store and the new ones.\<close>

fun commit_safe :: "curves \<Rightarrow> heap \<Rightarrow> blake2b \<Rightarrow> digest tree_fold1 \<Rightarrow> handle \<Rightarrow> (key \<times> transform) list \<Rightarrow> tables \<Rightarrow> digest \<Rightarrow> bool" where
  "commit_safe cv h blake2b tree_fold1 handle [] txn r \<longleftrightarrow> True"
| "commit_safe cv h blake2b tree_fold1 handle ((k, t) # effects) txn r \<longleftrightarrow>
     key_valid k \<and>
     (\<forall>v. applied t (root_state cv h handle txn r k) = Some v \<longrightarrow> stored_value_valid cv h v \<and>
       new_elements_collision_free (mem_get key_codec (stored_value_codec cv h) handle txn)
         (trie_hash key_codec (stored_value_codec cv h) blake2b tree_fold1) key_to_bytes r k v \<and>
       (\<forall>txn' r'. write_value (memory_backend cv h blake2b tree_fold1 handle) txn r k v = Some (Ok (txn', r')) \<longrightarrow>
         commit_safe cv h blake2b tree_fold1 handle effects txn' r'))"

definition apply_effects :: "(key \<times> transform) list \<Rightarrow> state \<Rightarrow> state" where
  "apply_effects effects \<sigma> = (\<lambda>k. case map_of effects k of None \<Rightarrow> \<sigma> k | Some t \<Rightarrow> applied t (\<sigma> k))"

lemma apply_effects_Cons:
  assumes "k \<notin> fst ` set effects" "applied t (f k) = Some v"
  shows "apply_effects effects (f(k \<mapsto> v)) = apply_effects ((k, t) # effects) f"
proof
  fix x
  from assms(1) have "map_of effects k = None" by (simp add: map_of_eq_None_iff)
  with assms(2) show "apply_effects effects (f(k \<mapsto> v)) x = apply_effects ((k, t) # effects) f x"
    by (cases "x = k"; cases "map_of effects x") (simp_all add: apply_effects_def)
qed

lemma commit_value_applied:
  "commit_value r k (as_read_result cur) t = (case applied t cur of
     Some v \<Rightarrow> Ok v
   | None \<Rightarrow> Err (GCommit (case cur of None \<Rightarrow> CEKeyNotFound k
       | Some v \<Rightarrow> CETransformError (case transform_apply t v of Err e \<Rightarrow> e))))"
proof (cases cur)
  case None
  then show ?thesis by (cases t) (simp_all add: as_read_result_def applied_def)
next
  case (Some v)
  then show ?thesis using transform_apply_no_panic [of t v]
    by (cases "transform_apply t v") (simp_all add: as_read_result_def result_option_def)
qed

lemma commit_loop_correct:
  assumes "state_root_ok cv h blake2b tree_fold1 handle txn r" "distinct (map fst effects)"
    and "commit_safe cv h blake2b tree_fold1 handle effects txn r"
  shows "\<exists>out. commit_loop (memory_backend cv h blake2b tree_fold1 handle) effects txn r = Some out \<and> out \<noteq> Panic \<and>
    (\<forall>txn' r'. out = Ok (txn', r') \<longrightarrow> state_root_ok cv h blake2b tree_fold1 handle txn' r' \<and>
       root_state cv h handle txn' r' = apply_effects effects (root_state cv h handle txn r) \<and>
       (\<forall>(k, t)\<in>set effects. applied t (root_state cv h handle txn r k) \<noteq> None)) \<and>
    (\<forall>e. out = Err (GCommit e) \<longrightarrow> (\<exists>(k, t)\<in>set effects. applied t (root_state cv h handle txn r k) = None))"
  using assms
proof (induction effects arbitrary: txn r)
  case Nil
  then show ?case by (auto simp: apply_effects_def)
next
  case (Cons e effects)
  let ?B = "memory_backend cv h blake2b tree_fold1 handle"
  obtain k t where e: "e = (k, t)" by fastforce
  let ?\<sigma> = "root_state cv h handle txn r"
  have k: "key_valid k" using Cons.prems(3) e by simp
  note read = root_state_read [OF Cons.prems(1) k]
  show ?case
  proof (cases "applied t (?\<sigma> k)")
    case None
    then show ?thesis by (auto simp: e read commit_value_applied)
  next
    case (Some v)
    with Cons.prems(3) e have v: "stored_value_valid cv h v" "new_elements_collision_free (mem_get key_codec (stored_value_codec cv h) handle txn)
         (trie_hash key_codec (stored_value_codec cv h) blake2b tree_fold1) key_to_bytes r k v"
      and safe: "\<And>txn' r'. write_value ?B txn r k v = Some (Ok (txn', r')) \<Longrightarrow> commit_safe cv h blake2b tree_fold1 handle effects txn' r'"
      by auto
    from write_value_correct [OF Cons.prems(1) k v] obtain w where w: "write_value ?B txn r k v = Some w" "w \<noteq> Panic"
      "\<And>e. w = Err e \<Longrightarrow> \<exists>s. e = GStorage s"
      "\<And>txn' r'. w = Ok (txn', r') \<Longrightarrow> state_root_ok cv h blake2b tree_fold1 handle txn' r' \<and> root_state cv h handle txn' r' = ?\<sigma>(k \<mapsto> v)" by blast
    have step: "commit_loop ?B (e # effects) txn r = loop_bind w (\<lambda>(txn, r). commit_loop ?B effects txn r)"
      by (simp add: e read commit_value_applied Some w(1))
    show ?thesis
    proof (cases w)
      case (Ok x)
      obtain txn' r' where x: "x = (txn', r')" by (cases x)
      note ok = w(4) [OF Ok [unfolded x]]
      from Cons.prems(2) e have fresh: "k \<notin> fst ` set effects" by simp
      then have same: "applied t' ((?\<sigma>(k \<mapsto> v)) k') = applied t' (?\<sigma> k')" if "(k', t') \<in> set effects" for k' t'
        using that by (auto simp: image_iff)
      have app: "apply_effects effects (?\<sigma>(k \<mapsto> v)) = apply_effects (e # effects) ?\<sigma>"
        unfolding e by (rule apply_effects_Cons [where f = ?\<sigma>, OF fresh Some])
      from Cons.prems(2) have d: "distinct (map fst effects)" by simp
      from w(1) Ok x have "write_value ?B txn r k v = Some (Ok (txn', r'))" by simp
      from Cons.IH [OF conjunct1 [OF ok] d safe [OF this], unfolded conjunct2 [OF ok]] obtain out where
        out: "commit_loop ?B effects txn' r' = Some out" "out \<noteq> Panic"
        "\<And>txn'' r''. out = Ok (txn'', r'') \<Longrightarrow> state_root_ok cv h blake2b tree_fold1 handle txn'' r'' \<and>
           root_state cv h handle txn'' r'' = apply_effects effects (?\<sigma>(k \<mapsto> v)) \<and>
           (\<forall>(k', t')\<in>set effects. applied t' ((?\<sigma>(k \<mapsto> v)) k') \<noteq> None)"
        "\<And>e. out = Err (GCommit e) \<Longrightarrow> \<exists>(k', t')\<in>set effects. applied t' ((?\<sigma>(k \<mapsto> v)) k') = None" by blast
      show ?thesis
      proof (intro exI [of _ out] conjI allI impI)
        show "commit_loop ?B (e # effects) txn r = Some out" using step Ok x out(1) by simp
        show "out \<noteq> Panic" by (rule out(2))
      next
        fix txn'' r'' assume "out = Ok (txn'', r'')"
        from out(3) [OF this] show "state_root_ok cv h blake2b tree_fold1 handle txn'' r''"
          "root_state cv h handle txn'' r'' = apply_effects (e # effects) ?\<sigma>" "\<forall>(k, t)\<in>set (e # effects). applied t (?\<sigma> k) \<noteq> None"
          using app same Some e by auto
      next
        fix err assume "out = Err (GCommit err)"
        from out(4) [OF this] same show "\<exists>(k, t)\<in>set (e # effects). applied t (?\<sigma> k) = None" by fastforce
      qed
    qed (use step w in auto)
  qed
qed

lemma commit_eq_loop:
  assumes "state_root_ok cv h blake2b tree_fold1 handle txn r"
  shows "commit (memory_backend cv h blake2b tree_fold1 handle) txn r effects =
    commit_loop (memory_backend cv h blake2b tree_fold1 handle) effects txn r"
  using assms by (auto simp: commit_def good_root_def)

text \<open>A transaction only adds tables to its copy of the data, so that merging it back gives the copy.\<close>

lemma mem_put_tables: "mem_put kc vc h txn d t = Ok txn' \<Longrightarrow> dom txn \<subseteq> dom txn'"
  by (auto simp: store_put_def store_put_raw_def in_memory_write_def Let_def res_simps)

lemma put_elements_tables: "put_elements (mem_put kc vc h) els txn root = Ok (txn', r') \<Longrightarrow> dom txn \<subseteq> dom txn'"
  unfolding put_elements_def
proof (induction els arbitrary: txn root)
  case (Cons e els)
  obtain d t where e: "e = (d, t)" by fastforce
  from Cons.prems e obtain txn1 where "mem_put kc vc h txn d t = Ok txn1"
    "res_fold (\<lambda>(hash, element) (txn, root_hash). res_bind (mem_put kc vc h txn hash element) (\<lambda>txn. Ok (txn, hash))) els (txn1, d) = Ok (txn', r')"
    by (auto simp: res_simps)
  with Cons.IH mem_put_tables show ?case by (meson order_trans)
qed simp

lemma trie_write_tables:
  "trie_write (mem_get kc vc h) (mem_put kc vc h) hash_of ktb txn r k v = Some (Ok (txn', out)) \<Longrightarrow> dom txn \<subseteq> dom txn'"
  by (auto simp: trie_write_def loop_bind_def split: result.splits option.splits if_splits dest!: put_elements_tables)

lemma loop_bind_eq_Ok: "loop_bind m f = Some (Ok y) \<longleftrightarrow> (\<exists>x. m = Ok x \<and> f x = Some (Ok y))"
  by (cases m) simp_all

lemma commit_loop_tables:
  "commit_loop (memory_backend cv h blake2b tree_fold1 handle) effects txn r = Some (Ok (txn', r')) \<Longrightarrow> dom txn \<subseteq> dom txn'"
proof (induction effects arbitrary: txn r)
  case (Cons e effects)
  obtain k t where e: "e = (k, t)" by fastforce
  from Cons.prems e obtain v txn1 r1 where "write_value (memory_backend cv h blake2b tree_fold1 handle) txn r k v = Some (Ok (txn1, r1))"
    "commit_loop (memory_backend cv h blake2b tree_fold1 handle) effects txn1 r1 = Some (Ok (txn', r'))"
    by (auto simp: loop_bind_eq_Ok bind_eq_Some_conv)
  moreover from this(1) have "dom txn \<subseteq> dom txn1" by (auto simp: write_value_def res_simps dest!: trie_write_tables)
  ultimately show ?case using Cons.IH by (meson order_trans)
qed simp

lemma commit_merges:
  assumes "commit (memory_backend cv h blake2b tree_fold1 handle) data r effects = Some (Ok (view, r'))"
  shows "in_memory_commit data view = view"
proof -
  from assms have "commit_loop (memory_backend cv h blake2b tree_fold1 handle) effects data r = Some (Ok (view, r'))"
    by (auto simp: commit_def loop_bind_def split: result.splits option.splits)
  from commit_loop_tables [OF this] show ?thesis by (auto simp: in_memory_commit_def map_add_def fun_eq_iff split: option.split)
qed

lemma memory_commit_correct:
  assumes "state_root_ok cv h blake2b tree_fold1 handle data r" "distinct (map fst effects)"
    and "commit_safe cv h blake2b tree_fold1 handle effects data r"
  shows "\<exists>data' out. memory_commit cv h blake2b tree_fold1 handle data r effects = (data', Some out) \<and> out \<noteq> Panic \<and>
    (\<forall>e. out = Err e \<longrightarrow> data' = data) \<and>
    (\<forall>e. out = Err (GCommit e) \<longrightarrow> (\<exists>(k, t)\<in>set effects. applied t (root_state cv h handle data r k) = None)) \<and>
    (\<forall>r'. out = Ok r' \<longrightarrow> state_root_ok cv h blake2b tree_fold1 handle data' r' \<and>
       root_state cv h handle data' r' = apply_effects effects (root_state cv h handle data r) \<and>
       (\<forall>(k, t)\<in>set effects. applied t (root_state cv h handle data r k) \<noteq> None))"
proof -
  from commit_loop_correct [OF assms] obtain out where out:
    "commit_loop (memory_backend cv h blake2b tree_fold1 handle) effects data r = Some out" "out \<noteq> Panic"
    "\<And>view r'. out = Ok (view, r') \<Longrightarrow> state_root_ok cv h blake2b tree_fold1 handle view r' \<and>
       root_state cv h handle view r' = apply_effects effects (root_state cv h handle data r) \<and>
       (\<forall>(k, t)\<in>set effects. applied t (root_state cv h handle data r k) \<noteq> None)"
    "\<And>e. out = Err (GCommit e) \<Longrightarrow> \<exists>(k, t)\<in>set effects. applied t (root_state cv h handle data r k) = None" by blast
  note c = memory_commit_def [of cv h blake2b tree_fold1 handle data r effects] commit_eq_loop [OF assms(1), of effects] out(1)
  show ?thesis
  proof (cases out)
    case (Ok x)
    obtain view r' where x: "x = (view, r')" by (cases x)
    from commit_merges [of cv h blake2b tree_fold1 handle data r effects view r'] c(2,3) Ok x have "in_memory_commit data view = view" by simp
    with Ok c out(3) x show ?thesis by auto
  next
    case (Err e)
    with c out(4) show ?thesis by auto
  qed (use out(2) in simp)
qed

section \<open>The effect of an execution\<close>

lemma effect_transforms:
  assumes "transforms_from debug J = Ok T"
  obtains ef where "execution_effect_from debug J = Ok ef" "ef_transforms ef = T"
proof -
  let ?f = "\<lambda>(key, transform) ef. res_bind (case op_of transform of None \<Rightarrow> Ok (ef_ops ef)
      | Some op \<Rightarrow> insert_add (\<lambda>a b. Ok (op_add a b)) OpNoOp (ef_ops ef) key op) (\<lambda>ops.
      res_bind (insert_add (transform_add debug) TIdentity (ef_transforms ef) key transform) (\<lambda>transforms.
      Ok \<lparr>ef_ops = ops, ef_transforms = transforms\<rparr>))"
  let ?g = "\<lambda>(key, transform) transforms. insert_add (transform_add debug) TIdentity transforms key transform"
  have "\<exists>ef'. res_fold ?f J ef = Ok ef' \<and> ef_transforms ef' = T" if "res_fold ?g J (ef_transforms ef) = Ok T" for J ef
    using that
  proof (induction J arbitrary: ef)
    case (Cons e J)
    obtain k t where e: "e = (k, t)" by fastforce
    with Cons.prems obtain T1 where T1: "insert_add (transform_add debug) TIdentity (ef_transforms ef) k t = Ok T1" "res_fold ?g J T1 = Ok T"
      by (auto simp: res_simps)
    have "\<exists>ops. (case op_of t of None \<Rightarrow> Ok (ef_ops ef) | Some op \<Rightarrow> insert_add (\<lambda>a b. Ok (op_add a b)) OpNoOp (ef_ops ef) k op) =
        (Ok ops :: (transform_error, key \<rightharpoonup> op) result)" by (simp add: insert_add_def split: option.split)
    then obtain ops where ops: "(case op_of t of None \<Rightarrow> Ok (ef_ops ef) | Some op \<Rightarrow> insert_add (\<lambda>a b. Ok (op_add a b)) OpNoOp (ef_ops ef) k op) =
        (Ok ops :: (transform_error, key \<rightharpoonup> op) result)" ..
    from Cons.IH [of "\<lparr>ef_ops = ops, ef_transforms = T1\<rparr>"] T1 ops show ?case by (simp add: e)
  qed auto
  from this [of J "\<lparr>ef_ops = Map.empty, ef_transforms = Map.empty\<rparr>"] assms that show thesis
    by (auto simp: transforms_from_def execution_effect_from_def)
qed

lemma journal_effect:
  assumes "run_journal J \<sigma> = Some \<sigma>'" "exact_journal {} J \<sigma>"
  obtains ef where "execution_effect_from debug J = Ok ef"
    "\<And>effects. map_of effects = ef_transforms ef \<Longrightarrow> apply_effects effects \<sigma> = \<sigma>'"
    "\<And>k t. ef_transforms ef k = Some t \<Longrightarrow> applied t (\<sigma> k) \<noteq> None"
proof -
  have "stands_for (k \<in> {}) (\<sigma> k) (Map.empty k) (\<sigma> k)" for k by (simp add: stands_for_def)
  from effect_stands_for [OF assms this, of debug] obtain T W where T: "transforms_from debug J = Ok T"
      "\<And>k. stands_for (k \<in> W) (\<sigma> k) (T k) (\<sigma>' k)" by (auto simp: transforms_from_def)
  from effect_transforms [OF T(1)] obtain ef where ef: "execution_effect_from debug J = Ok ef" "ef_transforms ef = T" .
  have one: "(case T k of None \<Rightarrow> \<sigma> k | Some t \<Rightarrow> applied t (\<sigma> k)) = \<sigma>' k" for k
    using T(2) [of k] by (cases "T k") (auto simp: stands_for_def dest: stands_for_applied)
  have "applied t (\<sigma> k) \<noteq> None" if "T k = Some t" for k t
    using T(2) [of k] that stands_for_applied [of "k \<in> W" "\<sigma> k" t "\<sigma>' k"] by (auto simp: stands_for_def)
  with ef one show thesis by (intro that) (auto simp: apply_effects_def fun_eq_iff)
qed

end
