(* ===== verification/State_Example.thy ===== *)
theory State_Example
  imports Global_State
begin

text \<open>
  A concrete global state: an in-memory store with the real encodings of keys and values, with the length of the input as the
  hash, which is enough to tell the nodes of the examples apart. Writing a key into a free slot of the root is worked out once.
\<close>

section \<open>Writing into a free slot of the root\<close>

definition store_has ::
  "'k codec \<Rightarrow> 'v codec \<Rightarrow> handle \<Rightarrow> tables \<Rightarrow> (digest \<times> ('k, 'v) trie) list \<Rightarrow> bool" where
  "store_has kc vc h txn T \<longleftrightarrow> (\<forall>d. mem_get kc vc h txn d = Ok (map_of T d))"

lemma store_has_put:
  assumes "store_has kc vc h txn T" "trie_ok kv kc vv vc t" "trie_to_bytes kc vc t = Ok bs"
  obtains txn' where "mem_put kc vc h txn d t = Ok txn'" "store_has kc vc h txn' ((d, t) # T)"
proof -
  from assms(3) obtain txn' where p: "mem_put kc vc h txn d t = Ok txn'"
    by (auto simp: store_put_def store_put_raw_def in_memory_write_def Let_def)
  from memory_tries.get_put [OF assms(2) p] assms(1) have "store_has kc vc h txn' ((d, t) # T)"
    by (simp add: store_has_def)
  with p show thesis by (rule that)
qed

lemma collision_free_distinct:
  assumes "store_has kc vc h txn T" "\<forall>(d, t)\<in>set (els @ T). hash_of t = Ok d" "distinct (map fst (els @ T))"
  shows "collision_free hash_of (mem_get kc vc h txn) els"
proof -
  have stored: "t \<in> snd ` set T" if "mem_get kc vc h txn d = Ok (Some t)" for d t
    using assms(1) that by (auto simp: store_has_def dest!: map_of_SomeD) (metis (no_types) image_iff snd_conv)
  have "inj_on hash_of (snd ` set (els @ T))"
  proof (rule inj_onI)
    fix t t' assume "t \<in> snd ` set (els @ T)" "t' \<in> snd ` set (els @ T)" "hash_of t = hash_of t'"
    then obtain d d' where "(d, t) \<in> set (els @ T)" "(d', t') \<in> set (els @ T)" unfolding image_iff by (metis prod.collapse)
    moreover from this assms(2) have "hash_of t = Ok d" "hash_of t' = Ok d'" by blast+
    ultimately show "t = t'" using assms(3) \<open>hash_of t = hash_of t'\<close> by (metis eq_key_imp_eq_value result.inject(1))
  qed
  then show ?thesis unfolding collision_free_def by (rule inj_on_subset) (use stored in auto)
qed

lemma free_slot_elements:
  assumes "ktb k = Ok (i # q)" "pb i = None" "hash_of (Leaf k v) = Ok hl" "hash_of (Node (pb(i := Some (LeafPointer hl)))) = Ok hn"
  shows "scan get (i # q) (Node pb) = Some (Ok (Some \<lparr>ts_tip = Node pb, ts_parents = []\<rparr>))"
    "write_elements hash_of ktb k v (i # q) \<lparr>ts_tip = Node pb, ts_parents = []\<rparr> =
      Ok [(hl, Leaf k v), (hn, Node (pb(i := Some (LeafPointer hl))))]"
  using assms by (simp_all add: scan_def scan_loop.simps [of _ _ 0] write_elements_def add_node_to_parents_def
      get_parents_path_def common_prefix_def rehash_def rehash_loop_Cons tip_pointer_def)

lemma free_slot_write:
  fixes kc vc kv vv k v h
  defines "hash_of \<equiv> trie_hash kc vc length_hash tree_fold1_ref"
  assumes lc: "lawful_codecs kv kc vv vc" "kv k" "vv v"
    and st: "store_has kc vc h txn T" "\<forall>(d, t)\<in>set T. hash_of t = Ok d" "map_of T r = Some (Node pb)"
    and k: "cd_tb kc k = Ok (i # q)" "pb i = None" "hash_of (Leaf k v) = Ok hl" "hash_of (Node (pb(i := Some (LeafPointer hl)))) = Ok hn"
    and d: "distinct (hn # hl # map fst T)"
  obtains txn' where "new_elements_collision_free (mem_get kc vc h txn) hash_of (cd_tb kc) r k v"
    "trie_write (mem_get kc vc h) (mem_put kc vc h) hash_of (cd_tb kc) txn r k v = Some (Ok (txn', Written hn))"
    "store_has kc vc h txn' ((hn, Node (pb(i := Some (LeafPointer hl)))) # (hl, Leaf k v) # T)"
proof -
  let ?N = "Node (pb(i := Some (LeafPointer hl)))" and ?els = "[(hl, Leaf k v), (hn, Node (pb(i := Some (LeafPointer hl))))]"
  note els = free_slot_elements [where hash_of = hash_of and ktb = "cd_tb kc", OF k]
  have root: "mem_get kc vc h txn r = Ok (Some (Node pb))" using st(1,3) by (simp add: store_has_def)
  have "collision_free hash_of (mem_get kc vc h txn) ?els"
    by (rule collision_free_distinct [OF st(1)]) (use st(2) k d in auto)
  then have cf: "new_elements_collision_free (mem_get kc vc h txn) hash_of (cd_tb kc) r k v"
    using root k(1) by (simp add: new_elements_collision_free_def els)
  have ok: "trie_ok kv kc vv vc (Leaf k v)" "trie_ok kv kc vv vc ?N" using lc lawfulD(1,2) [OF lc(1)] by auto
  from k(3,4) obtain bl bn where b: "trie_to_bytes kc vc (Leaf k v) = Ok bl" "trie_to_bytes kc vc ?N = Ok bn"
    by (auto simp: hash_of_def trie_hash_def res_simps)
  from store_has_put [OF st(1) ok(1) b(1), of hl] obtain t1 where t1: "mem_put kc vc h txn hl (Leaf k v) = Ok t1"
    "store_has kc vc h t1 ((hl, Leaf k v) # T)" .
  from store_has_put [OF t1(2) ok(2) b(2), of hn] obtain t2 where t2: "mem_put kc vc h t1 hn ?N = Ok t2"
    "store_has kc vc h t2 ((hn, ?N) # (hl, Leaf k v) # T)" .
  have "trie_write (mem_get kc vc h) (mem_put kc vc h) hash_of (cd_tb kc) txn r k v = Some (Ok (t2, Written hn))"
    using root k(1) t1(1) t2(1) by (simp add: trie_write_def put_elements_def els)
  from that [OF cf this t2(2)] show thesis .
qed

section \<open>The empty state and two values\<close>

definition ex_heap :: heap where "ex_heap = \<lparr>heap_alloc = (\<lambda>_. True), heap_size = (\<lambda>_. 1), heap_align = (\<lambda>_. 1)\<rparr>"

definition ex_curves :: curves where
  "ex_curves = \<lparr>ed25519_decode = (\<lambda>bs. if length bs = 32 then Some bs else None),
     secp256k1_decode = (\<lambda>bs. if length bs = 33 then Some bs else None)\<rparr>"

abbreviation ex_vc :: "stored_value codec" where "ex_vc \<equiv> stored_value_codec ex_curves ex_heap"
abbreviation ex_state_hash :: "(key, stored_value) hasher" where "ex_state_hash \<equiv> trie_hash key_codec ex_vc length_hash tree_fold1_ref"
abbreviation ex_backend :: "tables trie_backend" where "ex_backend \<equiv> memory_backend ex_curves ex_heap length_hash tree_fold1_ref None"

definition ex_key1 :: key where "ex_key1 = KHash (replicate 32 1)"
definition ex_key2 :: key where "ex_key2 = KBalance (replicate 32 7)"

lemmas ex_lawful = state_codecs_lawful(1) [of ex_curves ex_heap]

definition ex_value1 :: stored_value where "ex_value1 = u64_value 9"
definition ex_value2 :: stored_value where "ex_value2 = SVCLValue \<lparr>cl_value_type = CLU8, cl_value_bytes = [5]\<rparr>"

lemma ex_values:
  "key_valid ex_key1" "key_valid ex_key2" "ex_key1 \<noteq> ex_key2"
  "stored_value_valid ex_curves ex_heap ex_value1" "stored_value_valid ex_curves ex_heap ex_value2"
  "key_to_bytes ex_key1 = Ok (1 # replicate 32 1)" "key_to_bytes ex_key2 = Ok (6 # replicate 32 7)"
  by (simp_all add: ex_key1_def ex_key2_def ex_value1_def ex_value2_def u64_value_def cl_value_valid_def CL_TYPE_RECURSION_DEPTH_def
      key_length_defs key_to_bytes_eq)

lemma ex_leaf_length:
  "trie_serialized_length key_codec ex_vc (Leaf ex_key1 ex_value1) = 48" "trie_serialized_length key_codec ex_vc (Leaf ex_key2 ex_value2) = 41"
  by (simp_all add: ex_key1_def ex_key2_def ex_value1_def ex_value2_def u64_value_def stored_value_codec_def key_codec_def stored_value_serialized_length_def
      cl_value_serialized_length_def key_length_defs u8_slice_serialized_length_def)

lemma ex_leaf_bytes:
  "\<exists>bs. trie_to_bytes key_codec ex_vc (Leaf ex_key1 ex_value1) = Ok bs" "\<exists>bs. trie_to_bytes key_codec ex_vc (Leaf ex_key2 ex_value2) = Ok bs"
proof -
  have "\<exists>bs. stored_value_write_bytes ex_value1 w = Ok bs" "\<exists>bs. stored_value_write_bytes ex_value2 w = Ok bs" for w
    by (simp_all add: stored_value_write_bytes_def ex_value1_def ex_value2_def u64_value_def cl_value_write_bytes_def write_u8_slice_def
      u32_try_from_def u32_max_def)
  then show "\<exists>bs. trie_to_bytes key_codec ex_vc (Leaf ex_key1 ex_value1) = Ok bs" "\<exists>bs. trie_to_bytes key_codec ex_vc (Leaf ex_key2 ex_value2) = Ok bs"
    using ex_leaf_length by (simp_all add: trie_to_bytes_Ok u32_max_def key_write_bytes_eq del: trie_serialized_length.simps)
qed

lemma ex_leaf_hash: "ex_state_hash (Leaf ex_key1 ex_value1) = Ok 48" "ex_state_hash (Leaf ex_key2 ex_value2) = Ok 41"
  using ex_leaf_bytes trie_hash_length [OF ex_lawful, of "Leaf ex_key1 ex_value1"] trie_hash_length [OF ex_lawful, of "Leaf ex_key2 ex_value2"]
  by (auto simp: ex_leaf_length ex_values CHUNK_SIZE_BYTES_def simp del: trie_serialized_length.simps)

lemma ex_empty_store:
  obtains txn where "store_has key_codec ex_vc None txn [(257, Node pointer_block_new)]"
    "state_root_ok ex_curves ex_heap length_hash tree_fold1_ref None txn 257"
proof -
  let ?root = "Node pointer_block_new :: (key, stored_value) trie"
  have "store_has key_codec ex_vc None in_memory_default []"
    by (simp add: store_has_def store_get_def store_get_raw_def in_memory_read_def in_memory_default_def)
  moreover have "trie_ok key_valid key_codec (stored_value_valid ex_curves ex_heap) ex_vc ?root" using lawfulD(1,2) [OF ex_lawful] by auto
  moreover from node_hash(2) [OF ex_lawful empty_node_length] obtain bs where "trie_to_bytes key_codec ex_vc ?root = Ok bs" by auto
  ultimately obtain txn where st: "store_has key_codec ex_vc None txn [(257, ?root)]" by (rule store_has_put)
  have "ex_state_hash ?root = Ok 257" using node_hash(1) [OF ex_lawful empty_node_length] by simp
  with st have "addressed ex_state_hash (mem_get key_codec ex_vc None txn)" by (simp add: addressed_def store_has_def split: if_splits)
  with st have "state_root_ok ex_curves ex_heap length_hash tree_fold1_ref None txn 257"
    by (auto simp: good_root_def ex_lawful store_has_def pointer_block_new_def intro!: wf_trie.wf_node)
  with st show thesis by (rule that)
qed

lemma ex_root_hash:
  assumes "pb = pointer_block_new"
  shows "ex_state_hash (Node pb) = Ok 257" "ex_state_hash (Node (pb(i := Some x))) = Ok 290"
    "j \<noteq> i \<Longrightarrow> ex_state_hash (Node (pb(i := Some x, j := Some y))) = Ok 323"
proof -
  have n: "pb k = None" for k by (simp add: assms pointer_block_new_def)
  have e: "pointer_block_serialized_length pb = 256" by (simp add: assms empty_node_length)
  have s: "pointer_block_serialized_length (pb(i := Some x)) = 289" using add_pointer_length [of pb i x] n e by simp
  show "ex_state_hash (Node pb) = Ok 257" "ex_state_hash (Node (pb(i := Some x))) = Ok 290"
    using node_hash(1) [OF ex_lawful e] node_hash(1) [OF ex_lawful s] by simp_all
  show "ex_state_hash (Node (pb(i := Some x, j := Some y))) = Ok 323" if "j \<noteq> i"
    using add_pointer_length [of "pb(i := Some x)" j y] n s that node_hash(1) [OF ex_lawful, of "pb(i := Some x, j := Some y)" 322] by simp
qed

lemma ex_two_writes:
  assumes st: "store_has key_codec ex_vc None txn [(257, Node pointer_block_new)]"
    and root: "state_root_ok ex_curves ex_heap length_hash tree_fold1_ref None txn 257"
    and v: "key_valid k" "key_valid k'" "stored_value_valid ex_curves ex_heap v" "stored_value_valid ex_curves ex_heap v'"
    and b: "key_to_bytes k = Ok (i # q)" "key_to_bytes k' = Ok (i' # q')" "i' \<noteq> i"
    and l: "ex_state_hash (Leaf k v) = Ok d" "ex_state_hash (Leaf k' v') = Ok d'" "distinct [323, 290, 257, d, d']"
  shows "commit_safe ex_curves ex_heap length_hash tree_fold1_ref None [(k, TWrite v), (k', TWrite v')] txn 257"
    and "\<exists>view. commit_loop ex_backend [(k, TWrite v), (k', TWrite v')] txn 257 = Some (Ok (view, 323))"
proof -
  let ?pb = "pointer_block_new :: pointer_block"
  let ?pb1 = "?pb(i := Some (LeafPointer d))"
  let ?pb2 = "?pb1(i' := Some (LeafPointer d'))"
  note nh = ex_root_hash [OF refl]
  have n: "?pb i = None" "?pb1 i' = None" using b(3) by (simp_all add: pointer_block_new_def)
  obtain t1 where t1: "new_elements_collision_free (mem_get key_codec ex_vc None txn) ex_state_hash key_to_bytes 257 k v"
    "trie_write (mem_get key_codec ex_vc None) (mem_put key_codec ex_vc None) ex_state_hash key_to_bytes txn 257 k v = Some (Ok (t1, Written 290))"
    "store_has key_codec ex_vc None t1 [(290, Node ?pb1), (d, Leaf k v), (257, Node ?pb)]"
    by (rule free_slot_write [OF ex_lawful v(1,3) st, where r = 257 and pb = ?pb and i = i and q = q and hl = d and hn = 290])
      (use nh n b l in auto)
  obtain t2 where t2: "new_elements_collision_free (mem_get key_codec ex_vc None t1) ex_state_hash key_to_bytes 290 k' v'"
    "trie_write (mem_get key_codec ex_vc None) (mem_put key_codec ex_vc None) ex_state_hash key_to_bytes t1 290 k' v' = Some (Ok (t2, Written 323))"
    by (rule free_slot_write [OF ex_lawful v(2,4) t1(3), where r = 290 and pb = ?pb1 and i = i' and q = q' and hl = d' and hn = 323])
      (use nh n b l in auto)
  have w: "write_value ex_backend txn 257 k v = Some (Ok (t1, 290))" "write_value ex_backend t1 290 k' v' = Some (Ok (t2, 323))"
    using t1(2) t2(2) by (simp_all add: write_value_def after_write_def)
  show "commit_safe ex_curves ex_heap length_hash tree_fold1_ref None [(k, TWrite v), (k', TWrite v')] txn 257"
    using t1(1) t2(1) v w by auto
  have cv: "commit_value r k (as_read_result cur) (TWrite v) = Ok v" for r k cur v by (simp add: commit_value_applied)
  from write_value_correct [OF root v(1,3) t1(1)] w(1) have root1: "state_root_ok ex_curves ex_heap length_hash tree_fold1_ref None t1 290"
    by (metis option.inject)
  show "\<exists>view. commit_loop ex_backend [(k, TWrite v), (k', TWrite v')] txn 257 = Some (Ok (view, 323))"
    using w root_state_read [OF root v(1)] root_state_read [OF root1 v(2)] cv by simp
qed

lemma ex_commits:
  obtains data where "state_root_ok ex_curves ex_heap length_hash tree_fold1_ref None data 257"
    "root_state ex_curves ex_heap None data 257 = Map.empty"
    "commit_safe ex_curves ex_heap length_hash tree_fold1_ref None [(ex_key1, TWrite ex_value1), (ex_key2, TWrite ex_value2)] data 257"
    "\<exists>view. commit_loop ex_backend [(ex_key1, TWrite ex_value1), (ex_key2, TWrite ex_value2)] data 257 = Some (Ok (view, 323))"
    "commit_safe ex_curves ex_heap length_hash tree_fold1_ref None [(ex_key2, TWrite ex_value2), (ex_key1, TWrite ex_value1)] data 257"
    "\<exists>view. commit_loop ex_backend [(ex_key2, TWrite ex_value2), (ex_key1, TWrite ex_value1)] data 257 = Some (Ok (view, 323))"
proof -
  obtain data where st: "store_has key_codec ex_vc None data [(257, Node pointer_block_new)]"
    "state_root_ok ex_curves ex_heap length_hash tree_fold1_ref None data 257" by (rule ex_empty_store)
  have "read_loop (mem_get key_codec ex_vc None data) k path 0 (Node pointer_block_new) \<noteq> Some (Ok (Found v))" for k path v
    by (subst read_loop.simps) (simp add: pointer_block_new_def)
  then have "root_state ex_curves ex_heap None data 257 k = None" for k
    using st(1) by (auto simp: root_state_def trie_read_def store_has_def loop_bind_def split: result.split read_result.split option.split)
  then have "root_state ex_curves ex_heap None data 257 = Map.empty" by (rule ext)
  note * = st(2) this
  note v = ex_values
  show thesis
    by (rule that [OF * ex_two_writes [OF st v(1,2,4,5) v(6,7) _ ex_leaf_hash] ex_two_writes [OF st v(2,1,5,4) v(7,6) _ ex_leaf_hash(2,1)]])
      simp_all
qed

lemma ex_effects:
  "apply_effects [(ex_key1, TWrite ex_value1), (ex_key2, TWrite ex_value2)] Map.empty = [ex_key1 \<mapsto> ex_value1, ex_key2 \<mapsto> ex_value2]"
  using ex_values(3) by (auto simp: apply_effects_def fun_eq_iff)

lemma ex_state:
  obtains data r where "state_root_ok ex_curves ex_heap length_hash tree_fold1_ref None data r"
    "root_state ex_curves ex_heap None data r = [ex_key1 \<mapsto> ex_value1, ex_key2 \<mapsto> ex_value2]"
proof -
  obtain data where d: "state_root_ok ex_curves ex_heap length_hash tree_fold1_ref None data 257"
    "root_state ex_curves ex_heap None data 257 = Map.empty"
    "commit_safe ex_curves ex_heap length_hash tree_fold1_ref None [(ex_key1, TWrite ex_value1), (ex_key2, TWrite ex_value2)] data 257"
    "\<exists>view. commit_loop ex_backend [(ex_key1, TWrite ex_value1), (ex_key2, TWrite ex_value2)] data 257 = Some (Ok (view, 323))"
    by (rule ex_commits)
  from commit_loop_correct [OF d(1) _ d(3)] d(2,4) ex_values(3) ex_effects that show thesis by auto
qed

end
