(* ===== verification/Spec2Isabelle.thy ===== *)
theory Spec2Isabelle
  imports Bytesrepr_Tuples Uint Trie_Proof Trie_Sync Disjoint_Sequences State_Example
begin

text \<open>
  \<^bold>\<open>Verification of the Casper node.\<close>

  The program is a blockchain node. Its parts are the shared types with their binary serialisation (\<^verbatim>\<open>types/\<close>), the hashing
  library (\<^verbatim>\<open>hashing/\<close>), the execution engine with the global state (\<^verbatim>\<open>execution_engine/\<close>), the node proper with consensus,
  networking and storage (\<^verbatim>\<open>node/\<close>), and the contracts, tools and tests around them. A deploy reads and changes the global state
  through a tracking copy; the effects of its journal are committed to a Merkle trie, whose root hash is part of the block; other
  nodes download the trie node by node and check the proofs of its entries. The development follows this path from the bytes up
  to the committed state. Paths below are relative to \<^verbatim>\<open>src/\<close>.

  \<^bold>\<open>Conventions.\<close> A fallible call is a \<open>result\<close> (\<open>Ok\<close>, \<open>Err\<close>, \<open>Panic\<close>); \<open>Panic\<close> is a failed assertion, an \<open>unwrap\<close> or an index
  out of range. A loop that need not end is a partial function, with \<open>None\<close> for a run that does not return; that the loops over the
  trie, the iterator of keys and the eviction of the cache do return is proved, and no definition has fuel. Machine integers are
  words and wrap as in a release build, and \<open>debug_assert!\<close> is left out. A \<open>BTreeMap\<close> is its ordered list of entries; the order of
  a \<open>HashMap\<close> is an arbitrary list with distinct keys. Third-party code is an argument: \<open>blake2b\<close>, \<open>tree_fold1\<close> (\<open>tree_fold1_spec\<close>),
  the crate \<^verbatim>\<open>base16\<close> (\<open>base16_spec\<close>), the curves (\<open>curves\<close>), the allocator and the sizes of types (\<open>heap\<close>), and
  \<open>LinkedHashMap\<close> (\<open>linked_map_spec\<close>). Cryptographic strength is never assumed as such: theorems that need it name the nodes or
  inputs on which the hash must not collide.

  \<^bold>\<open>Serialisation.\<close>
  \<^item> \<open>Prelude\<close>: results, words, bytes, and the collections \<open>res_simps\<close> and \<open>codec_simps\<close> that carry the proofs about encodings.
  \<^item> \<open>Bytesrepr\<close>, \<open>Bytesrepr_Tuples\<close> (\<^verbatim>\<open>types/src/bytesrepr.rs\<close>): the traits as the locale \<open>bytesrepr\<close>, interpreted on the primitive
    types and closed under the collections; \<open>Uint\<close> (\<^verbatim>\<open>types/src/uint.rs\<close>): the big integers and the binary gcd.
  \<^item> \<open>Struct_Codec\<close>: encodings written field by field (the locale \<open>stream_codec\<close>); \<open>Text\<close>: formatting, parsing and the checksummed
    hexadecimal encoding. \<open>Totality\<close>: the decoders of the state
    never panic on any input (the collection \<open>no_panic\<close>).

  \<^bold>\<open>Types of the state.\<close>
  \<^item> \<open>URefs\<close>, \<open>Keys\<close> (\<^verbatim>\<open>types/src/key.rs\<close>): references with access rights, keys with their encodings and text forms, and the rights of
    an execution context, which are never forged; \<open>Public_Keys\<close>.
  \<^item> \<open>Accounts\<close> (\<^verbatim>\<open>types/src/account.rs\<close>): associated keys and thresholds as a transition system whose invariant is that an account
    is never locked out; \<open>Cl_Values\<close>, \<open>Contracts\<close> (\<^verbatim>\<open>types/src/contracts.rs\<close>): typed values and packages whose versions never change.
  \<^item> \<open>Bids\<close> (\<^verbatim>\<open>types/src/system/auction\<close>): bids and vesting, which protects the locked stake
    from every operation but slashing (\<^verbatim>\<open>execution_engine/src/system/auction.rs\<close>); \<open>Stored_Values\<close>: the sum of all of these.
  \<^item> \<open>Transforms\<close> (\<^verbatim>\<open>execution_engine/src/shared/transform.rs\<close>): transforms, journals and effects; summing the transforms of a key is
    equivalent to running them, and the cases in which it is not are stated.

  \<^bold>\<open>Hashing and the trie.\<close>
  \<^item> \<open>Merkle\<close>, \<open>Merkle_Proofs\<close>, \<open>Hashing_Bytes\<close> (\<^verbatim>\<open>hashing/src\<close>): indexed Merkle proofs are sound and complete, chunks reassemble.
  \<^item> \<open>Trie\<close>, \<open>Trie_Store\<close>, \<open>Trie_Ops\<close> (\<^verbatim>\<open>execution_engine/src/storage\<close>): nodes, stores (the locales \<open>raw_store\<close>, \<open>value_store\<close>), in-memory
    transactions, and reading, scanning and writing.
  \<^item> \<open>Trie_Correct\<close>: the locales \<open>trie_keys\<close> and \<open>trie_world\<close>, in which a write is proved to change one entry; \<open>Trie_Memory\<close>
    interprets them on the in-memory store. \<open>Trie_Canonical\<close>: a state has one root hash. \<open>Trie_Proof\<close>: proofs of entries.
    \<open>Trie_Sync\<close>: the nodes that are missing, against the graph of the stored pointers. \<open>Trie_Keys\<close>: the iterator over the keys below a prefix.

  \<^bold>\<open>Execution.\<close>
  \<^item> \<open>Tracking_Copy\<close> (\<^verbatim>\<open>execution_engine/src/core/tracking_copy\<close>): the cache, its eviction and the journal; a simulation of the plain state.
  \<^item> \<open>Global_State\<close> (\<^verbatim>\<open>execution_engine/src/storage/global_state\<close>): checkout and commit. \<open>State_Example\<close>: a concrete store.
  \<^item> This theory: commits are correct and independent of the order of the effects, listings of keys are exact, and what is executed
    through a tracking copy is what is committed.

  \<^bold>\<open>Node.\<close> \<open>Disjoint_Sequences\<close> (\<^verbatim>\<open>node/src/components/storage/disjoint_sequences.rs\<close>): the record of completed block heights, and
  exactly when its unchecked additions do harm.

  \<^bold>\<open>Not modelled.\<close> The runtime of contracts and the engine that drives it (\<^verbatim>\<open>core/runtime\<close>, \<^verbatim>\<open>core/runtime_context\<close>, \<^verbatim>\<open>core/engine_state\<close>,
  \<^verbatim>\<open>system\<close>) are entered from a WebAssembly interpreter of third-party crates, on whose memory every host function works. The query
  over paths and the validation of query proofs of the tracking copy are left out. So are the LMDB and scratch providers of the
  global state, which are calls into the LMDB bindings; what the operations on tries rely on of a store is the locale \<open>raw_store\<close>,
  which is proved of the in-memory transaction only. Of the node, consensus, networking, gossip, fetching and synchronisation, the
  reactors and the servers are left out: they are mostly asynchronous tasks over sockets, timers and an effect system. The types of
  blocks and deploys (\<^verbatim>\<open>node/src/types\<close>), whose validation checks signatures of third-party crates, are not modelled yet. Serde,
  JSON, display, random generation and tests are left out throughout.
\<close>

section \<open>Committing to the global state\<close>

text \<open>C2: Committing effects under a well-formed root returns without panic. When it succeeds, the data of the environment hold the
  new root, which is well-formed, every transform applied to the old value of its key, and the state under the new root is the old
  state with the transformed values, in whatever order the effects were iterated; it fails with a commit error only if some
  transform does not apply to the old state (a missing key or a type mismatch), and when it fails the data are unchanged. Values
  must be encodable and the hash without collision among the nodes involved.\<close>
theorem commit_correct:
  assumes "state_root_ok cv h blake2b tree_fold1 handle data r" "distinct (map fst effects)"
    and "commit_safe cv h blake2b tree_fold1 handle effects data r"
  shows "\<exists>data' out. memory_commit cv h blake2b tree_fold1 handle data r effects = (data', Some out) \<and> out \<noteq> Panic \<and>
    (\<forall>e. out = Err e \<longrightarrow> data' = data) \<and>
    (\<forall>e. out = Err (GCommit e) \<longrightarrow> (\<exists>(k, t)\<in>set effects. applied t (root_state cv h handle data r k) = None)) \<and>
    (\<forall>r'. out = Ok r' \<longrightarrow> state_root_ok cv h blake2b tree_fold1 handle data' r' \<and>
       root_state cv h handle data' r' = apply_effects effects (root_state cv h handle data r) \<and>
       (\<forall>(k, t)\<in>set effects. applied t (root_state cv h handle data r k) \<noteq> None))"
  by (rule memory_commit_correct [OF assms])

theorem commit_correct_witness:
  "\<exists>data data' r'. memory_commit ex_curves ex_heap length_hash tree_fold1_ref None data 257
      [(ex_key1, TWrite ex_value1), (ex_key2, TWrite ex_value2)] = (data', Some (Ok r')) \<and>
    root_state ex_curves ex_heap None data 257 = Map.empty \<and>
    root_state ex_curves ex_heap None data' r' = [ex_key1 \<mapsto> ex_value1, ex_key2 \<mapsto> ex_value2]"
proof -
  obtain data where d: "state_root_ok ex_curves ex_heap length_hash tree_fold1_ref None data 257"
    "root_state ex_curves ex_heap None data 257 = Map.empty"
    "commit_safe ex_curves ex_heap length_hash tree_fold1_ref None [(ex_key1, TWrite ex_value1), (ex_key2, TWrite ex_value2)] data 257"
    "\<exists>view. commit_loop ex_backend [(ex_key1, TWrite ex_value1), (ex_key2, TWrite ex_value2)] data 257 = Some (Ok (view, 323))"
    by (rule ex_commits)
  from d(4) obtain data' where m: "memory_commit ex_curves ex_heap length_hash tree_fold1_ref None data 257
      [(ex_key1, TWrite ex_value1), (ex_key2, TWrite ex_value2)] = (data', Some (Ok 323))"
    by (auto simp: memory_commit_def commit_eq_loop [OF d(1)])
  then show ?thesis using commit_correct [OF d(1) _ d(3)] ex_values(3) d(2) ex_effects
    by (intro exI [of _ data] exI [of _ data'] exI [of _ 323]) auto
qed

text \<open>C3: The root hash after a commit does not depend on the order of the effects. Two nodes that commit the same effects on the same
  state, each iterating its hash map of effects in its own order and with its own store, arrive at the same root hash.\<close>
theorem commit_order_independent:
  assumes "state_root_ok cv h blake2b tree_fold1 handle txn1 r" "state_root_ok cv h blake2b tree_fold1 handle txn2 r"
    and "root_state cv h handle txn1 r = root_state cv h handle txn2 r"
    and "distinct (map fst effects1)" "distinct (map fst effects2)" "set effects1 = set effects2"
    and "commit_safe cv h blake2b tree_fold1 handle effects1 txn1 r" "commit_safe cv h blake2b tree_fold1 handle effects2 txn2 r"
    and "commit (memory_backend cv h blake2b tree_fold1 handle) txn1 r effects1 = Some (Ok (view1, r1))"
    and "commit (memory_backend cv h blake2b tree_fold1 handle) txn2 r effects2 = Some (Ok (view2, r2))"
  shows "r1 = r2"
proof -
  have s1: "state_root_ok cv h blake2b tree_fold1 handle view1 r1"
      "root_state cv h handle view1 r1 = apply_effects effects1 (root_state cv h handle txn1 r)"
    using commit_loop_correct [OF assms(1,4,7)] assms(9) commit_eq_loop [OF assms(1), of effects1] by auto
  have s2: "state_root_ok cv h blake2b tree_fold1 handle view2 r2"
      "root_state cv h handle view2 r2 = apply_effects effects2 (root_state cv h handle txn2 r)"
    using commit_loop_correct [OF assms(2,5,8)] assms(10) commit_eq_loop [OF assms(2), of effects2] by auto
  have "map_of effects1 = map_of effects2" using assms(4-6) by (simp add: map_of_inject_set)
  then have eq: "root_state cv h handle view1 r1 = root_state cv h handle view2 r2"
    using s1(2) s2(2) assms(3) by (simp add: apply_effects_def)
  show ?thesis
    by (rule memory_root_unique [OF s1(1) s2(1)])
      (use root_state_read [OF s1(1)] root_state_read [OF s2(1)] eq in simp)
qed

theorem commit_order_independent_witness:
  "\<exists>data view1 view2 r. commit ex_backend data 257 [(ex_key1, TWrite ex_value1), (ex_key2, TWrite ex_value2)] = Some (Ok (view1, r)) \<and>
    commit ex_backend data 257 [(ex_key2, TWrite ex_value2), (ex_key1, TWrite ex_value1)] = Some (Ok (view2, r))"
proof -
  obtain data where d: "state_root_ok ex_curves ex_heap length_hash tree_fold1_ref None data 257"
    "commit_safe ex_curves ex_heap length_hash tree_fold1_ref None [(ex_key1, TWrite ex_value1), (ex_key2, TWrite ex_value2)] data 257"
    "\<exists>view. commit_loop ex_backend [(ex_key1, TWrite ex_value1), (ex_key2, TWrite ex_value2)] data 257 = Some (Ok (view, 323))"
    "commit_safe ex_curves ex_heap length_hash tree_fold1_ref None [(ex_key2, TWrite ex_value2), (ex_key1, TWrite ex_value1)] data 257"
    "\<exists>view. commit_loop ex_backend [(ex_key2, TWrite ex_value2), (ex_key1, TWrite ex_value1)] data 257 = Some (Ok (view, 323))"
    by (rule ex_commits)
  from d(3,5) obtain view1 view2 r1 r2 where c:
    "commit ex_backend data 257 [(ex_key1, TWrite ex_value1), (ex_key2, TWrite ex_value2)] = Some (Ok (view1, r1))"
    "commit ex_backend data 257 [(ex_key2, TWrite ex_value2), (ex_key1, TWrite ex_value1)] = Some (Ok (view2, r2))"
    unfolding commit_eq_loop [OF d(1)] by blast
  have "r1 = r2"
    by (rule commit_order_independent [OF d(1) d(1) refl _ _ _ d(2,4) c]) (use ex_values(3) in auto)
  with c show ?thesis by blast
qed

section \<open>Listing the keys of the global state\<close>

text \<open>C8: Listing the keys below a prefix is exact. Under a well-formed root the iterator over the trie, collected by a view of the global
  state, ends without error or panic, for every prefix, also one that ends inside an extension or a key; it returns each key that
  has a value in the state and whose encoding starts with the prefix, and nothing else, in the order of the encodings, so that no
  key is repeated.\<close>
theorem keys_with_prefix_exact:
  assumes "state_root_ok cv h blake2b tree_fold1 handle data r"
  shows "\<exists>ks. memory_view_keys_with_prefix cv h handle data r pre = Some (Ok ks) \<and>
    set ks = {k. root_state cv h handle data r k \<noteq> None \<and> prefix pre (key_path key_codec k)} \<and> distinct ks \<and>
    sorted_wrt (\<lambda>k k'. ord_class.lexordp (key_path key_codec k) (key_path key_codec k')) ks"
proof -
  from view_keys_with_prefix [OF assms, of pre] obtain ks where "memory_view_keys_with_prefix cv h handle data r pre = Some (Ok ks)"
    "set ks = {k. root_state cv h handle data r k \<noteq> None \<and> prefix pre (key_path key_codec k)}"
    "sorted_wrt (\<lambda>k k'. ord_class.lexordp (key_path key_codec k) (key_path key_codec k')) ks" .
  with lexordp_sorted_distinct [OF this(3)] show ?thesis by blast
qed

theorem keys_with_prefix_exact_witness:
  "\<exists>data r. root_state ex_curves ex_heap None data r = [ex_key1 \<mapsto> ex_value1, ex_key2 \<mapsto> ex_value2] \<and>
    memory_view_keys_with_prefix ex_curves ex_heap None data r [6, 7] = Some (Ok [ex_key2])"
proof -
  obtain data r where d: "state_root_ok ex_curves ex_heap length_hash tree_fold1_ref None data r"
    "root_state ex_curves ex_heap None data r = [ex_key1 \<mapsto> ex_value1, ex_key2 \<mapsto> ex_value2]" by (rule ex_state)
  have "prefix [7] (replicate 32 (7 :: u8))" by (simp add: eval_nat_numeral)
  then have "{k. root_state ex_curves ex_heap None data r k \<noteq> None \<and> prefix [6, 7] (key_path key_codec k)} = {ex_key2}"
    using ex_values by (auto simp: d(2) key_path_def split: if_splits)
  with keys_with_prefix_exact [OF d(1), of "[6, 7]"] obtain ks where
    "memory_view_keys_with_prefix ex_curves ex_heap None data r [6, 7] = Some (Ok ks)" "set ks = {ex_key2}" "distinct ks" by auto
  moreover from this(2,3) have "ks = [ex_key2]" by (cases ks; cases "tl ks") auto
  ultimately show ?thesis using d(2) by blast
qed

section \<open>From execution to the committed state\<close>

text \<open>C1: What is executed is what is committed. For a root of the global state that is well-formed: the checkout of the root succeeds, any
  sequence of reads, writes, additions and listings of keys through a tracking copy over it gives the results that it has on the state itself,
  whatever the cache evicts; and when the additions are exact (to a value that was not written before, a number of its type), then the
  effect of the journal can be computed, and committing it, in any order of its keys, returns without panic and without a
  commit error and, unless the storage itself fails, leads to a root under which the state is the one that the sequence of
  operations computes.\<close>
theorem execution_commit_refines:
  assumes "linked_map_spec (lib_reads lib) entries" "linked_map_spec (lib_tags lib) tags"
    and "state_root_ok cv h blake2b tree_fold1 handle data r" "\<forall>op\<in>set ops. op_valid op"
  shows "\<exists>reader tc. memory_checkout cv h handle data r = Ok (Some reader) \<and>
    tc_run lib reader ops (tracking_copy_new lib) = Some (Ok (fst (spec_run ops (root_state cv h handle data r)), tc)) \<and>
    (exact_journal {} (tc_journal tc) (root_state cv h handle data r) \<longrightarrow> (\<exists>ef. tc_effect debug tc = Ok ef \<and>
      (\<forall>effects. distinct (map fst effects) \<and> map_of effects = ef_transforms ef \<and>
         commit_safe cv h blake2b tree_fold1 handle effects data r \<longrightarrow>
       (\<exists>data' out. memory_commit cv h blake2b tree_fold1 handle data r effects = (data', Some out) \<and> out \<noteq> Panic \<and>
          (\<forall>e. out \<noteq> Err (GCommit e)) \<and>
          (\<forall>r'. out = Ok r' \<longrightarrow> state_root_ok cv h blake2b tree_fold1 handle data' r' \<and>
             root_state cv h handle data' r' = snd (spec_run ops (root_state cv h handle data r)))))))"
proof -
  let ?\<sigma> = "root_state cv h handle data r"
  from checkout_reads [OF assms(3)] obtain reader where rd: "memory_checkout cv h handle data r = Ok (Some reader)" "reads_state reader ?\<sigma>"
    "lists_state reader ?\<sigma>" .
  from tc_run_refines [OF assms(1,2) rd(2,3) tc_inv_new [OF assms(1,2)] assms(4)] obtain tc where
    tc: "tc_run lib reader ops (tracking_copy_new lib) = Some (Ok (fst (spec_run ops ?\<sigma>), tc))"
      "run_journal (tc_journal tc) ?\<sigma> = Some (snd (spec_run ops ?\<sigma>))" by (auto simp: tc_inv_def)
  have "\<exists>ef. tc_effect debug tc = Ok ef \<and> (\<forall>effects. distinct (map fst effects) \<and> map_of effects = ef_transforms ef \<and>
         commit_safe cv h blake2b tree_fold1 handle effects data r \<longrightarrow>
       (\<exists>data' out. memory_commit cv h blake2b tree_fold1 handle data r effects = (data', Some out) \<and> out \<noteq> Panic \<and>
          (\<forall>e. out \<noteq> Err (GCommit e)) \<and>
          (\<forall>r'. out = Ok r' \<longrightarrow> state_root_ok cv h blake2b tree_fold1 handle data' r' \<and> root_state cv h handle data' r' = snd (spec_run ops ?\<sigma>))))"
    if ex: "exact_journal {} (tc_journal tc) ?\<sigma>"
  proof -
    from journal_effect [OF tc(2) ex, of debug] obtain ef where ef: "tc_effect debug tc = Ok ef"
      "\<And>effects. map_of effects = ef_transforms ef \<Longrightarrow> apply_effects effects ?\<sigma> = snd (spec_run ops ?\<sigma>)"
      "\<And>k t. ef_transforms ef k = Some t \<Longrightarrow> applied t (?\<sigma> k) \<noteq> None" by (auto simp: tc_effect_def)
    show ?thesis
    proof (intro exI [of _ ef] conjI allI impI ef(1))
      fix effects assume e: "distinct (map fst effects) \<and> map_of effects = ef_transforms ef \<and> commit_safe cv h blake2b tree_fold1 handle effects data r"
      then have "applied t (?\<sigma> k) \<noteq> None" if "(k, t) \<in> set effects" for k t using ef(3) that by (metis map_of_is_SomeI)
      then have "\<not> (\<exists>(k, t)\<in>set effects. applied t (?\<sigma> k) = None)" by blast
      with memory_commit_correct [OF assms(3), of effects] e ef(2) [of effects] show "\<exists>data' out.
        memory_commit cv h blake2b tree_fold1 handle data r effects = (data', Some out) \<and> out \<noteq> Panic \<and> (\<forall>e. out \<noteq> Err (GCommit e)) \<and>
        (\<forall>r'. out = Ok r' \<longrightarrow> state_root_ok cv h blake2b tree_fold1 handle data' r' \<and> root_state cv h handle data' r' = snd (spec_run ops ?\<sigma>))"
        by (metis (no_types, lifting))
    qed
  qed
  with rd(1) tc(1) show ?thesis by blast
qed

theorem execution_commit_refines_witness:
  "\<exists>data reader tc ef data' r'. memory_checkout ex_curves ex_heap None data 257 = Ok (Some reader) \<and>
    tc_run ex_lib reader [TcWrite ex_key1 ex_value1, TcRead ex_key1, TcWrite ex_key2 ex_value2] (tracking_copy_new ex_lib) =
      Some (Ok ([OutWrite, OutRead (Some ex_value1), OutWrite], tc)) \<and>
    tc_effect (\<lambda>_. []) tc = Ok ef \<and> ef_transforms ef = [ex_key1 \<mapsto> TWrite ex_value1, ex_key2 \<mapsto> TWrite ex_value2] \<and>
    memory_commit ex_curves ex_heap length_hash tree_fold1_ref None data 257 [(ex_key1, TWrite ex_value1), (ex_key2, TWrite ex_value2)] =
      (data', Some (Ok r')) \<and>
    root_state ex_curves ex_heap None data' r' = [ex_key1 \<mapsto> ex_value1, ex_key2 \<mapsto> ex_value2]"
proof -
  let ?ops = "[TcWrite ex_key1 ex_value1, TcRead ex_key1, TcWrite ex_key2 ex_value2]"
  let ?effects = "[(ex_key1, TWrite ex_value1), (ex_key2, TWrite ex_value2)]"
  obtain data where d: "state_root_ok ex_curves ex_heap length_hash tree_fold1_ref None data 257"
    "root_state ex_curves ex_heap None data 257 = Map.empty"
    "commit_safe ex_curves ex_heap length_hash tree_fold1_ref None ?effects data 257"
    "\<exists>view. commit_loop ex_backend ?effects data 257 = Some (Ok (view, 323))" by (rule ex_commits)
  have n: "key_normalize ex_key1 = ex_key1" "key_normalize ex_key2 = ex_key2" by (simp_all add: ex_key1_def ex_key2_def)
  have run: "spec_run ?ops Map.empty = ([OutWrite, OutRead (Some ex_value1), OutWrite], [ex_key1 \<mapsto> ex_value1, ex_key2 \<mapsto> ex_value2])"
    by (simp add: n)
  have spec: "linked_map_spec (lib_reads ex_lib) (\<lambda>m. m)" "linked_map_spec (lib_tags ex_lib) (\<lambda>m. m)"
    by (simp_all add: ex_lib_def list_linked_map_spec)
  have ops: "\<forall>op\<in>set ?ops. op_valid op" by (simp add: ex_values)
  from execution_commit_refines [OF spec d(1) ops, of "\<lambda>_. []"] obtain reader tc where
    rd: "memory_checkout ex_curves ex_heap None data 257 = Ok (Some reader)"
    and tc: "tc_run ex_lib reader ?ops (tracking_copy_new ex_lib) = Some (Ok ([OutWrite, OutRead (Some ex_value1), OutWrite], tc))"
    and ef: "exact_journal {} (tc_journal tc) Map.empty \<longrightarrow> (\<exists>ef. tc_effect (\<lambda>_. []) tc = Ok ef \<and>
      (\<forall>effects. distinct (map fst effects) \<and> map_of effects = ef_transforms ef \<and>
         commit_safe ex_curves ex_heap length_hash tree_fold1_ref None effects data 257 \<longrightarrow>
       (\<exists>data' out. memory_commit ex_curves ex_heap length_hash tree_fold1_ref None data 257 effects = (data', Some out) \<and> out \<noteq> Panic \<and>
          (\<forall>e. out \<noteq> Err (GCommit e)) \<and>
          (\<forall>r'. out = Ok r' \<longrightarrow> state_root_ok ex_curves ex_heap length_hash tree_fold1_ref None data' r' \<and>
             root_state ex_curves ex_heap None data' r' = [ex_key1 \<mapsto> ex_value1, ex_key2 \<mapsto> ex_value2]))))"
    unfolding d(2) run fst_conv snd_conv by blast
  have j: "tc_journal tc = [(ex_key1, TWrite ex_value1), (ex_key1, TIdentity), (ex_key2, TWrite ex_value2)]"
    using tc by (auto simp: tc_read_def tc_write_def tc_get_def cache_get_def insert_write_def journal_push_def tracking_copy_new_def cache_new_def n)
  have "exact_journal {} (tc_journal tc) Map.empty" by (simp add: j is_TWrite_def)
  from mp [OF ef this] obtain e where e: "tc_effect (\<lambda>_. []) tc = Ok e" and
    out: "\<forall>effects. distinct (map fst effects) \<and> map_of effects = ef_transforms e \<and>
         commit_safe ex_curves ex_heap length_hash tree_fold1_ref None effects data 257 \<longrightarrow>
       (\<exists>data' out. memory_commit ex_curves ex_heap length_hash tree_fold1_ref None data 257 effects = (data', Some out) \<and> out \<noteq> Panic \<and>
          (\<forall>e. out \<noteq> Err (GCommit e)) \<and>
          (\<forall>r'. out = Ok r' \<longrightarrow> state_root_ok ex_curves ex_heap length_hash tree_fold1_ref None data' r' \<and>
             root_state ex_curves ex_heap None data' r' = [ex_key1 \<mapsto> ex_value1, ex_key2 \<mapsto> ex_value2]))"
    by (elim exE conjE)
  have t: "ef_transforms e = [ex_key1 \<mapsto> TWrite ex_value1, ex_key2 \<mapsto> TWrite ex_value2]"
    using e ex_values(3) by (auto simp: tc_effect_def j execution_effect_from_def insert_add_def transform_add_def op_of_def is_TIdentity_def)
  then have "map_of ?effects = ef_transforms e" "distinct (map fst ?effects)" using ex_values(3) by auto
  with out [rule_format, of ?effects] d(3) obtain data' o' where c:
    "memory_commit ex_curves ex_heap length_hash tree_fold1_ref None data 257 ?effects = (data', Some o')"
    "\<And>r'. o' = Ok r' \<Longrightarrow> root_state ex_curves ex_heap None data' r' = [ex_key1 \<mapsto> ex_value1, ex_key2 \<mapsto> ex_value2]" by blast
  moreover from d(4) c(1) have "o' = Ok 323" by (auto simp: memory_commit_def commit_eq_loop [OF d(1)])
  ultimately show ?thesis using rd tc e t by blast
qed

end
